(* ===== verification/Paladin_Prelude.thy ===== *)
theory Paladin_Prelude
  imports Main "HOL-Library.Word" "HOL-Library.Char_ord" "HOL-Library.List_Lexorder"
begin

text \<open>
  Shared ground of the development: the names of the model's basic types, the Go
  error values with \<^verbatim>\<open>errors.Is\<close>, the lemma collections the component theories feed and
  use, and generic facts on lists, characters and 64-bit words.
  A Go \<^verbatim>\<open>string\<close> is a byte sequence and so is \<^typ>\<open>string\<close> (a list of 8-bit characters);
  a Go \<^verbatim>\<open>[]byte\<close> is a \<open>bytes\<close>, an optional string whose \<^term>\<open>None\<close> is the nil slice;
  a Go pointer is an \<open>option\<close> whose \<^term>\<open>None\<close> is nil.
\<close>

section \<open>Types of the model\<close>

type_synonym u64 = "64 word"
type_synonym bytes = "string option"

text \<open>The conversion \<^verbatim>\<open>string(b)\<close> of a byte slice: a nil slice is the empty string.\<close>

definition bytes_str :: "bytes \<Rightarrow> string" where
  "bytes_str b = (case b of None \<Rightarrow> [] | Some s \<Rightarrow> s)"

lemma bytes_str_simps [simp]: "bytes_str None = []" "bytes_str (Some s) = s"
  by (simp_all add: bytes_str_def)

section \<open>Lemma collections\<close>

named_theorems codec_simps \<open>round-trip equations of the encoders and decoders\<close>

section \<open>Go errors\<close>

text \<open>
  The sentinels of \<^verbatim>\<open>store/store.go\<close> and \<^verbatim>\<open>raft/node.go\<close>, the errors of the libraries the
  code calls (with their text), messages built by \<^verbatim>\<open>fmt.Errorf\<close> without and with a
  \<^verbatim>\<open>%q\<close> argument, the wrapping form
  \<^verbatim>\<open>fmt.Errorf("msg: %w", err)\<close>, and a run-time panic, which ends the request.
\<close>

datatype err =
    ErrKeyNotFound | ErrKeyExists | ErrRevMismatch | ErrNotLeader
  | ErrLib string
  | ErrJson
  | ErrMsg string
  | ErrQuoted string string
  | Wrap string err
  | Panic string

text \<open>\<^verbatim>\<open>errors.Is(err, target)\<close> walks the \<^verbatim>\<open>%w\<close> chain.\<close>

fun errors_Is :: "err \<Rightarrow> err \<Rightarrow> bool" where
  "errors_Is (Wrap m e) t = (Wrap m e = t \<or> errors_Is e t)"
| "errors_Is e t = (e = t)"

text \<open>
  \<^verbatim>\<open>err.Error()\<close>. The text of a JSON decoding error depends on the position of the fault and
  is not modelled in detail, and the escapes that \<^verbatim>\<open>%q\<close> puts into its argument are left out.
\<close>

fun err_text :: "err \<Rightarrow> string" where
  "err_text ErrKeyNotFound = ''key not found''"
| "err_text ErrKeyExists = ''key already exists''"
| "err_text ErrRevMismatch = ''revision mismatch''"
| "err_text ErrNotLeader = ''not the leader''"
| "err_text (ErrLib m) = m"
| "err_text ErrJson = ''json''"
| "err_text (ErrMsg m) = m"
| "err_text (ErrQuoted m x) = m @ '': '' @ [CHR 0x22] @ x @ [CHR 0x22]"
| "err_text (Wrap m e) = m @ '': '' @ err_text e"
| "err_text (Panic m) = m"

section \<open>Characters and bytes\<close>

abbreviation code :: "char \<Rightarrow> nat" where
  "code c \<equiv> of_char c"

lemma code_lt_256 [simp]: "(of_char c :: nat) < 256"
  by (rule nat_of_char_less_256)

lemma char_of_code [simp]: "char_of (of_char c :: nat) = c"
  by simp

lemma code_char_of: "n < 256 \<Longrightarrow> (of_char (char_of n) :: nat) = n"
  by simp

section \<open>Lists\<close>

lemma takeWhile_sorted_wrt:
  "sorted_wrt P xs \<Longrightarrow> sorted_wrt P (takeWhile Q xs)"
  by (metis sorted_wrt_append takeWhile_dropWhile_id)

lemma last_drop_nth:
  "i < length xs - n \<Longrightarrow> drop n xs ! i = xs ! (n + i)"
  by simp

section \<open>64-bit words\<close>

lemma unat_Suc_u64: "unat (x :: u64) + 1 < 2 ^ 64 \<Longrightarrow> unat (x + 1) = unat x + 1"
  by (simp add: unat_word_ariths)

lemma unat_lt_u64 [simp]: "unat (x :: u64) < 18446744073709551616"
  using unsigned_less [of x, where 'a = nat] by simp

end
