(* ===== verification/Go_Strings.thy ===== *)
theory Go_Strings
  imports Paladin_Prelude
begin

text \<open>
  The parts of Go's \<^verbatim>\<open>strings\<close>, \<^verbatim>\<open>strconv\<close> and \<^verbatim>\<open>encoding/binary\<close> packages that the program
  calls: prefix and suffix handling, \<^verbatim>\<open>SplitN\<close> on one separator character, decimal
  formatting and parsing at 64 bits, and the big-endian bytes of a 64-bit counter.
\<close>

section \<open>strings\<close>

definition HasPrefix :: "string \<Rightarrow> string \<Rightarrow> bool" where
  "HasPrefix s p \<longleftrightarrow> take (length p) s = p"

definition HasSuffix :: "string \<Rightarrow> string \<Rightarrow> bool" where
  "HasSuffix s p \<longleftrightarrow> length p \<le> length s \<and> drop (length s - length p) s = p"

definition TrimPrefix :: "string \<Rightarrow> string \<Rightarrow> string" where
  "TrimPrefix s p = (if HasPrefix s p then drop (length p) s else s)"

definition TrimSuffix :: "string \<Rightarrow> string \<Rightarrow> string" where
  "TrimSuffix s p = (if HasSuffix s p then take (length s - length p) s else s)"

text \<open>\<^verbatim>\<open>strings.SplitN(s, sep, n)\<close> for a one-character separator and \<^verbatim>\<open>n > 0\<close>.\<close>

fun SplitN :: "string \<Rightarrow> char \<Rightarrow> nat \<Rightarrow> string list" where
  "SplitN s c 0 = []"
| "SplitN s c (Suc 0) = [s]"
| "SplitN s c (Suc (Suc n)) =
     (if c \<in> set s
      then takeWhile (\<lambda>x. x \<noteq> c) s # SplitN (tl (dropWhile (\<lambda>x. x \<noteq> c) s)) c (Suc n)
      else [s])"

lemma HasPrefix_iff: "HasPrefix s p \<longleftrightarrow> (\<exists>r. s = p @ r)"
  by (metis HasPrefix_def append_eq_conv_conj append_take_drop_id)

lemma HasPrefix_append [simp]: "HasPrefix (p @ r) p"
  by (auto simp: HasPrefix_iff)

lemma HasPrefix_Nil [simp]: "HasPrefix s []"
  by (simp add: HasPrefix_def)

lemma HasPrefix_trans: "HasPrefix s p \<Longrightarrow> HasPrefix p q \<Longrightarrow> HasPrefix s q"
  by (auto simp: HasPrefix_iff)

lemma HasPrefix_Cons: "HasPrefix (x # s) (a # p) \<longleftrightarrow> x = a \<and> HasPrefix s p"
  by (auto simp: HasPrefix_def)

text \<open>In byte order the keys with a given prefix are the first ones at or after the prefix.\<close>

lemma HasPrefix_le: "HasPrefix k p \<Longrightarrow> p \<le> k"
  by (induction p arbitrary: k) (auto simp: HasPrefix_iff)

lemma HasPrefix_between: "p \<le> k \<Longrightarrow> k \<le> k' \<Longrightarrow> HasPrefix k' p \<Longrightarrow> HasPrefix k p"
proof (induction p arbitrary: k k')
  case (Cons a p)
  then show ?case
    by (cases k; cases k') (auto simp: HasPrefix_Cons)
qed simp

lemma TrimPrefix_append [simp]: "TrimPrefix (p @ r) p = r"
  by (simp add: TrimPrefix_def)

lemma HasSuffix_iff: "HasSuffix s p \<longleftrightarrow> (\<exists>r. s = r @ p)"
proof
  assume "HasSuffix s p"
  then show "\<exists>r. s = r @ p"
    by (metis HasSuffix_def append_take_drop_id)
qed (auto simp: HasSuffix_def)

lemma TrimSuffix_append [simp]: "TrimSuffix (r @ p) p = r"
  by (auto simp: TrimSuffix_def HasSuffix_iff)

lemma TrimSuffix_id: "\<not> HasSuffix s p \<Longrightarrow> TrimSuffix s p = s"
  by (simp add: TrimSuffix_def)

lemma HasSuffix_char: "HasSuffix s [c] \<longleftrightarrow> s \<noteq> [] \<and> last s = c"
  by (metis HasSuffix_iff append_butlast_last_id last_snoc snoc_eq_iff_butlast)

lemma SplitN_le: "length (SplitN s c n) \<le> n"
  by (induction s c n rule: SplitN.induct) auto

lemma SplitN_ne: "0 < n \<Longrightarrow> SplitN s c n \<noteq> []"
  by (induction s c n rule: SplitN.induct) auto

lemma takeWhile_until: "c \<notin> set a \<Longrightarrow> takeWhile (\<lambda>x. x \<noteq> c) (a @ c # b) = a"
  by (induction a) auto

lemma dropWhile_until: "c \<notin> set a \<Longrightarrow> dropWhile (\<lambda>x. x \<noteq> c) (a @ c # b) = c # b"
  by (induction a) auto

lemma SplitN_sep:
  "c \<notin> set a \<Longrightarrow> SplitN (a @ c # b) c (Suc (Suc n)) = a # SplitN b c (Suc n)"
  by (simp add: takeWhile_until dropWhile_until)

lemma SplitN_nosep: "c \<notin> set s \<Longrightarrow> SplitN s c (Suc n) = [s]"
  by (cases n) auto

section \<open>strconv: decimal numbers\<close>

definition digit_char :: "nat \<Rightarrow> char" where
  "digit_char d = char_of (48 + d)"

definition is_digit :: "char \<Rightarrow> bool" where
  "is_digit c \<longleftrightarrow> 48 \<le> code c \<and> code c \<le> 57"

fun dec_of_nat :: "nat \<Rightarrow> string" where
  "dec_of_nat n = (if n < 10 then [digit_char n] else dec_of_nat (n div 10) @ [digit_char (n mod 10)])"

declare dec_of_nat.simps [simp del]

definition nat_of_dec :: "string \<Rightarrow> nat" where
  "nat_of_dec s = foldl (\<lambda>a c. a * 10 + (code c - 48)) 0 s"

definition FormatUint :: "u64 \<Rightarrow> string" where
  "FormatUint x = dec_of_nat (unat x)"

text \<open>
  \<^verbatim>\<open>strconv.ParseUint(s, 10, 64)\<close>: \<^term>\<open>None\<close> is either of its errors (syntax, range).
\<close>

definition ParseUint :: "string \<Rightarrow> u64 option" where
  "ParseUint s =
     (if s \<noteq> [] \<and> list_all is_digit s \<and> nat_of_dec s < 2 ^ 64
      then Some (of_nat (nat_of_dec s)) else None)"

text \<open>\<^verbatim>\<open>strconv.Atoi(s)\<close>: an optional sign, then digits, in the range of a 64-bit \<^verbatim>\<open>int\<close>.\<close>

definition Atoi :: "string \<Rightarrow> int option" where
  "Atoi s =
     (let (neg, d) = (case s of [] \<Rightarrow> (False, [])
                      | c # r \<Rightarrow> if c = CHR ''-'' then (True, r)
                                  else if c = CHR ''+'' then (False, r) else (False, s));
          v = (if neg then - int (nat_of_dec d) else int (nat_of_dec d))
      in if d \<noteq> [] \<and> list_all is_digit d \<and> - (2 ^ 63) \<le> v \<and> v < 2 ^ 63 then Some v else None)"

lemma code_digit_char: "d < 10 \<Longrightarrow> code (digit_char d) = 48 + d"
  by (simp add: digit_char_def)

lemma is_digit_digit_char [simp]: "d < 10 \<Longrightarrow> is_digit (digit_char d)"
  by (simp add: is_digit_def code_digit_char)

lemma nat_of_dec_snoc: "nat_of_dec (s @ [c]) = nat_of_dec s * 10 + (code c - 48)"
  by (simp add: nat_of_dec_def)

lemma dec_of_nat_ne [simp]: "dec_of_nat n \<noteq> []"
  by (subst dec_of_nat.simps) simp

lemma dec_of_nat_digits: "list_all is_digit (dec_of_nat n)"
proof (induction n rule: dec_of_nat.induct)
  case (1 n)
  then show ?case by (cases "n < 10") (simp_all add: dec_of_nat.simps [of n])
qed

lemma nat_of_dec_of_nat [codec_simps]: "nat_of_dec (dec_of_nat n) = n"
proof (induction n rule: dec_of_nat.induct)
  case (1 n)
  show ?case
  proof (cases "n < 10")
    case True
    then show ?thesis
      by (simp add: dec_of_nat.simps [of n] nat_of_dec_def code_digit_char)
  next
    case False
    with 1 show ?thesis
      by (simp add: dec_of_nat.simps [of n] nat_of_dec_snoc code_digit_char)
  qed
qed

lemma ParseUint_FormatUint [codec_simps]: "ParseUint (FormatUint x) = Some x"
  by (simp add: ParseUint_def FormatUint_def dec_of_nat_digits codec_simps)

lemma ParseUint_Some_ne: "ParseUint s = Some x \<Longrightarrow> s \<noteq> []"
  by (auto simp: ParseUint_def split: if_splits)

lemma Atoi_range: "Atoi s = Some v \<Longrightarrow> - (2 ^ 63) \<le> v \<and> v < 2 ^ 63"
  by (auto simp: Atoi_def Let_def split: if_splits prod.splits)

lemma nat_of_dec_ParseUint: "ParseUint s = Some x \<Longrightarrow> unat x = nat_of_dec s"
  by (auto simp: ParseUint_def take_bit_nat_eq_self unsigned_of_nat split: if_splits)

section \<open>encoding/binary: big-endian counters\<close>

fun be_enc :: "nat \<Rightarrow> nat \<Rightarrow> string" where
  "be_enc 0 n = []"
| "be_enc (Suc k) n = be_enc k (n div 256) @ [char_of (n mod 256)]"

definition be_dec :: "string \<Rightarrow> nat" where
  "be_dec s = foldl (\<lambda>a c. a * 256 + code c) 0 s"

text \<open>\<^verbatim>\<open>binary.BigEndian.PutUint64\<close> writes eight bytes.\<close>

definition PutUint64 :: "u64 \<Rightarrow> string" where
  "PutUint64 x = be_enc 8 (unat x)"

text \<open>
  \<^verbatim>\<open>binary.BigEndian.Uint64\<close> reads the first eight bytes; on a shorter slice its bounds check
  panics, which is \<^term>\<open>None\<close>.
\<close>

definition Uint64 :: "string \<Rightarrow> u64 option" where
  "Uint64 s = (if length s < 8 then None else Some (of_nat (be_dec (take 8 s))))"

lemma length_be_enc [simp]: "length (be_enc k n) = k"
  by (induction k arbitrary: n) auto

lemma be_dec_enc: "be_dec (be_enc k n) = n mod 256 ^ k"
proof (induction k arbitrary: n)
  case 0
  then show ?case by (simp add: be_dec_def)
next
  case (Suc k)
  have "be_dec (be_enc (Suc k) n) = be_dec (be_enc k (n div 256)) * 256 + n mod 256"
    by (simp add: be_dec_def)
  also have "\<dots> = (n div 256 mod 256 ^ k) * 256 + n mod 256"
    by (simp only: Suc)
  also have "\<dots> = n mod 256 ^ Suc k"
    by (simp add: mod_mult2_eq)
  finally show ?case .
qed

lemma Uint64_PutUint64 [codec_simps]: "Uint64 (PutUint64 x) = Some x"
  by (simp add: Uint64_def PutUint64_def be_dec_enc)

end
