(* ===== verification/Go_Text.thy ===== *)
theory Go_Text
  imports Go_Strings
begin

text \<open>
  The parts of Go's \<^verbatim>\<open>unicode/utf8\<close> and \<^verbatim>\<open>encoding/base64\<close> the program relies on, and the string
  literals of \<^verbatim>\<open>encoding/json\<close>, on the bytes themselves. \<open>escape\<close> writes a string as the
  encoder does (HTML-safe escapes, each invalid UTF-8 byte as the replacement rune) and
  \<open>parse_string\<close> reads a literal as the decoder does; \<open>parse_escape\<close> is their round trip,
  \<open>b64_dec_enc\<close> that of base64.
\<close>

section \<open>UTF-8\<close>

abbreviation dq :: char where "dq \<equiv> CHR 0x22"
abbreviation bsl :: char where "bsl \<equiv> CHR 0x5C"

definition between :: "nat \<Rightarrow> nat \<Rightarrow> char \<Rightarrow> bool" where
  "between lo hi c \<longleftrightarrow> lo \<le> code c \<and> code c \<le> hi"

text \<open>
  The width of the rune that \<^verbatim>\<open>utf8.DecodeRune\<close> finds at the head of a string, 0 where it
  reports an encoding error (and consumes one byte).
\<close>

definition rune2 :: "char \<Rightarrow> char \<Rightarrow> bool" where
  "rune2 a b \<longleftrightarrow> between 0xC2 0xDF a \<and> between 0x80 0xBF b"

definition rune3 :: "char \<Rightarrow> char \<Rightarrow> char \<Rightarrow> bool" where
  "rune3 a b c \<longleftrightarrow> between 0xE0 0xEF a \<and>
     between (if code a = 0xE0 then 0xA0 else 0x80) (if code a = 0xED then 0x9F else 0xBF) b \<and>
     between 0x80 0xBF c"

definition rune4 :: "char \<Rightarrow> char \<Rightarrow> char \<Rightarrow> char \<Rightarrow> bool" where
  "rune4 a b c d \<longleftrightarrow> between 0xF0 0xF4 a \<and>
     between (if code a = 0xF0 then 0x90 else 0x80) (if code a = 0xF4 then 0x8F else 0xBF) b \<and>
     between 0x80 0xBF c \<and> between 0x80 0xBF d"

fun rune_len :: "string \<Rightarrow> nat" where
  "rune_len [] = 0"
| "rune_len [a] = (if code a < 0x80 then 1 else 0)"
| "rune_len [a, b] = (if code a < 0x80 then 1 else if rune2 a b then 2 else 0)"
| "rune_len [a, b, c] =
     (if code a < 0x80 then 1 else if rune2 a b then 2 else if rune3 a b c then 3 else 0)"
| "rune_len (a # b # c # d # r) =
     (if code a < 0x80 then 1 else if rune2 a b then 2 else if rune3 a b c then 3
      else if rune4 a b c d then 4 else 0)"

lemma rune_len_le: "rune_len s \<le> length s"
  by (induction s rule: rune_len.induct) auto

lemma rune_len_ascii [simp]: "code a < 0x80 \<Longrightarrow> rune_len (a # r) = 1"
  by (induction "a # r" rule: rune_len.induct) auto

lemma rune2_len: "\<not> code a < 0x80 \<Longrightarrow> rune2 a b \<Longrightarrow> rune_len (a # b # t) = 2"
  by (induction "a # b # t" rule: rune_len.induct) auto

lemma rune3_len: "\<not> code a < 0x80 \<Longrightarrow> \<not> rune2 a b \<Longrightarrow> rune3 a b c \<Longrightarrow> rune_len (a # b # c # t) = 3"
  by (induction "a # b # c # t" rule: rune_len.induct) auto

lemma rune_len_append: "rune_len s \<noteq> 0 \<Longrightarrow> rune_len (take (rune_len s) s @ t) = rune_len s"
  by (induction s rule: rune_len.induct) (auto simp: rune2_len rune3_len split: if_splits)

text \<open>The replacement rune U+FFFD, and the string with each invalid byte replaced by it.\<close>

definition rune_error :: string where
  "rune_error = [CHR 0xEF, CHR 0xBF, CHR 0xBD]"

function utf8_coerce :: "string \<Rightarrow> string" where
  "utf8_coerce [] = []"
| "utf8_coerce (a # r) =
     (if rune_len (a # r) = 0 then rune_error @ utf8_coerce r
      else take (rune_len (a # r)) (a # r) @ utf8_coerce (drop (rune_len (a # r)) (a # r)))"
  by pat_completeness auto
termination
  by (relation "measure length") auto

declare utf8_coerce.simps(2) [simp del]

function utf8_valid :: "string \<Rightarrow> bool" where
  "utf8_valid [] = True"
| "utf8_valid (a # r) =
     (if rune_len (a # r) = 0 then False else utf8_valid (drop (rune_len (a # r)) (a # r)))"
  by pat_completeness auto
termination
  by (relation "measure length") auto

declare utf8_valid.simps(2) [simp del]

lemma utf8_coerce_valid: "utf8_valid s \<Longrightarrow> utf8_coerce s = s"
proof (induction s rule: utf8_coerce.induct)
  case (2 a r)
  then show ?case
    by (auto simp: utf8_valid.simps(2) utf8_coerce.simps(2) split: if_splits)
qed simp

lemma utf8_valid_ascii: "list_all (\<lambda>c. code c < 0x80) s \<Longrightarrow> utf8_valid s"
  by (induction s) (simp_all add: utf8_valid.simps(2))

section \<open>String literals\<close>

definition hex_char :: "nat \<Rightarrow> char" where
  "hex_char d = (if d < 10 then char_of (48 + d) else char_of (87 + d))"

definition hex_val :: "char \<Rightarrow> nat option" where
  "hex_val c = (if between 48 57 c then Some (code c - 48)
     else if between 97 102 c then Some (code c - 87)
     else if between 65 70 c then Some (code c - 55) else None)"

text \<open>How \<^verbatim>\<open>encoding/json\<close> writes one ASCII byte of a string (HTML escaping is on).\<close>

definition esc_ascii :: "char \<Rightarrow> string" where
  "esc_ascii a =
     (if a = dq \<or> a = bsl then [bsl, a]
      else if a = CHR 0x08 then [bsl, CHR ''b'']
      else if a = CHR 0x0C then [bsl, CHR ''f'']
      else if a = CHR 0x0A then [bsl, CHR ''n'']
      else if a = CHR 0x0D then [bsl, CHR ''r'']
      else if a = CHR 0x09 then [bsl, CHR ''t'']
      else if code a < 32 \<or> a = CHR ''<'' \<or> a = CHR ''>'' \<or> a = CHR ''&''
        then [bsl, CHR ''u'', CHR ''0'', CHR ''0'', hex_char (code a div 16), hex_char (code a mod 16)]
      else [a])"

function escape :: "string \<Rightarrow> string" where
  "escape [] = []"
| "escape (a # r) =
     (if code a < 0x80 then esc_ascii a @ escape r
      else if rune_len (a # r) = 0 then bsl # ''ufffd'' @ escape r
      else if take 3 (a # r) = [CHR 0xE2, CHR 0x80, CHR 0xA8] then bsl # ''u2028'' @ escape (drop 2 r)
      else if take 3 (a # r) = [CHR 0xE2, CHR 0x80, CHR 0xA9] then bsl # ''u2029'' @ escape (drop 2 r)
      else take (rune_len (a # r)) (a # r) @ escape (drop (rune_len (a # r)) (a # r)))"
  by pat_completeness auto
termination
  by (relation "measure length") auto

declare escape.simps(2) [simp del]

definition quote :: "string \<Rightarrow> string" where
  "quote s = dq # escape s @ [dq]"

text \<open>Reading a literal: the four hexadecimal digits of an escape, UTF-8 of a code point.\<close>

definition getu4 :: "string \<Rightarrow> (nat \<times> string) option" where
  "getu4 s = (case s of a # b # c # d # r \<Rightarrow>
     (case (hex_val a, hex_val b, hex_val c, hex_val d) of
        (Some w, Some x, Some y, Some z) \<Rightarrow> Some (((w * 16 + x) * 16 + y) * 16 + z, r)
      | _ \<Rightarrow> None)
   | _ \<Rightarrow> None)"

definition getu4_esc :: "string \<Rightarrow> (nat \<times> string) option" where
  "getu4_esc s = (case s of a # b # r \<Rightarrow> if a = bsl \<and> b = CHR ''u'' then getu4 r else None | _ \<Rightarrow> None)"

definition rune_enc :: "nat \<Rightarrow> string" where
  "rune_enc u =
     (if u < 0x80 then [char_of u]
      else if u < 0x800 then [char_of (0xC0 + u div 64), char_of (0x80 + u mod 64)]
      else if u < 0x10000 then
        [char_of (0xE0 + u div 4096), char_of (0x80 + u div 64 mod 64), char_of (0x80 + u mod 64)]
      else [char_of (0xF0 + u div 262144), char_of (0x80 + u div 4096 mod 64),
            char_of (0x80 + u div 64 mod 64), char_of (0x80 + u mod 64)])"

definition simple_esc :: "char \<Rightarrow> char option" where
  "simple_esc e =
     (if e = dq \<or> e = bsl \<or> e = CHR ''/'' then Some e
      else if e = CHR ''b'' then Some (CHR 0x08) else if e = CHR ''f'' then Some (CHR 0x0C)
      else if e = CHR ''n'' then Some (CHR 0x0A) else if e = CHR ''r'' then Some (CHR 0x0D)
      else if e = CHR ''t'' then Some (CHR 0x09) else None)"

abbreviation push :: "string \<Rightarrow> (string \<times> string) option \<Rightarrow> (string \<times> string) option" where
  "push p r \<equiv> map_option (\<lambda>(s, t). (p @ s, t)) r"

lemma getu4_length: "getu4 s = Some (u, r) \<Longrightarrow> length r < length s"
  by (auto simp: getu4_def split: list.splits option.splits)

lemma getu4_esc_length: "getu4_esc s = Some (u, r) \<Longrightarrow> length r < length s"
  by (auto simp: getu4_esc_def dest: getu4_length split: list.splits if_splits)

text \<open>
  The characters after an opening quote, up to the closing one: the string denoted and the
  rest of the text.
\<close>

function parse_string :: "string \<Rightarrow> (string \<times> string) option" where
  "parse_string [] = None"
| "parse_string (a # r) =
     (if a = dq then Some ([], r)
      else if a = bsl then
        (case r of [] \<Rightarrow> None | e # r1 \<Rightarrow>
           if e = CHR ''u'' then
             (case getu4 r1 of None \<Rightarrow> None | Some (u, r2) \<Rightarrow>
                if 0xD800 \<le> u \<and> u < 0xE000 then
                  (case getu4_esc r2 of None \<Rightarrow> push rune_error (parse_string r2)
                   | Some (v, r3) \<Rightarrow>
                       if u < 0xDC00 \<and> 0xDC00 \<le> v \<and> v < 0xE000
                       then push (rune_enc (0x10000 + (u - 0xD800) * 0x400 + (v - 0xDC00))) (parse_string r3)
                       else push rune_error (parse_string r2))
                else push (rune_enc u) (parse_string r2))
           else (case simple_esc e of None \<Rightarrow> None | Some c \<Rightarrow> push [c] (parse_string r1)))
      else if code a < 32 then None
      else if rune_len (a # r) = 0 then push rune_error (parse_string r)
      else push (take (rune_len (a # r)) (a # r)) (parse_string (drop (rune_len (a # r)) (a # r))))"
  by pat_completeness auto
termination
  by (relation "measure length") (auto dest!: getu4_length getu4_esc_length)

declare parse_string.simps(2) [simp del]

lemma hex_val_char [simp]: "d < 16 \<Longrightarrow> hex_val (hex_char d) = Some d"
  by (auto simp: hex_val_def hex_char_def between_def)

lemma hex_val_0 [simp]: "hex_val CHR ''0'' = Some 0"
  by (simp add: hex_val_def between_def)

lemma parse_esc_ascii:
  assumes "code a < 0x80"
  shows "parse_string (esc_ascii a @ t) = push [a] (parse_string t)"
proof -
  have rune: "rune_enc (code a) = [a]"
    using assms by (simp add: rune_enc_def)
  show ?thesis
    using assms rune
    by (auto simp: esc_ascii_def parse_string.simps(2) simple_esc_def getu4_def)
qed

lemma char_of_nums [simp]:
  "char_of (239 :: nat) = CHR 0xEF" "char_of (191 :: nat) = CHR 0xBF" "char_of (189 :: nat) = CHR 0xBD"
  "char_of (226 :: nat) = CHR 0xE2" "char_of (128 :: nat) = CHR 0x80"
  "char_of (168 :: nat) = CHR 0xA8" "char_of (169 :: nat) = CHR 0xA9"
  by code_simp+

lemma parse_ufffd: "parse_string (bsl # ''ufffd'' @ t) = push rune_error (parse_string t)"
  by (simp add: parse_string.simps(2) getu4_def hex_val_def between_def rune_enc_def rune_error_def)

lemma parse_u2028:
  "parse_string (bsl # ''u2028'' @ t) = push [CHR 0xE2, CHR 0x80, CHR 0xA8] (parse_string t)"
  "parse_string (bsl # ''u2029'' @ t) = push [CHR 0xE2, CHR 0x80, CHR 0xA9] (parse_string t)"
  by (simp_all add: parse_string.simps(2) getu4_def hex_val_def between_def rune_enc_def)

lemma parse_rune:
  assumes "\<not> code a < 0x80" and "rune_len (a # r) \<noteq> 0"
  shows "parse_string (take (rune_len (a # r)) (a # r) @ t)
    = push (take (rune_len (a # r)) (a # r)) (parse_string t)"
proof -
  define n where "n = rune_len (a # r)"
  obtain m where m: "n = Suc m" using assms(2) n_def not0_implies_Suc by metis
  have len: "rune_len (a # (take m r @ t)) = n"
    using rune_len_append [OF assms(2), of t] by (simp add: m flip: n_def)
  have le: "m \<le> length r" using rune_len_le [of "a # r"] by (simp add: m flip: n_def)
  have "a \<noteq> dq" "a \<noteq> bsl" "\<not> code a < 32" using assms(1) by auto
  then have "parse_string (a # (take m r @ t)) = push (take n (a # (take m r @ t)))
      (parse_string (drop n (a # (take m r @ t))))"
    by (simp add: parse_string.simps(2) len m)
  with le show ?thesis by (simp add: m flip: n_def)
qed

lemma map_push: "push p (Some (s, t)) = Some (p @ s, t)"
  by simp

lemma parse_escape: "parse_string (escape s @ dq # t) = Some (utf8_coerce s, t)"
proof (induction s rule: escape.induct)
  case 1
  show ?case by (simp add: parse_string.simps(2))
next
  case (2 a r)
  consider (ascii) "code a < 0x80" | (bad) "\<not> code a < 0x80" "rune_len (a # r) = 0"
    | (ls) "\<not> code a < 0x80" "rune_len (a # r) \<noteq> 0" "take 3 (a # r) = [CHR 0xE2, CHR 0x80, CHR 0xA8]"
    | (ps) "\<not> code a < 0x80" "rune_len (a # r) \<noteq> 0" "take 3 (a # r) = [CHR 0xE2, CHR 0x80, CHR 0xA9]"
    | (other) "\<not> code a < 0x80" "rune_len (a # r) \<noteq> 0"
        "take 3 (a # r) \<noteq> [CHR 0xE2, CHR 0x80, CHR 0xA8]"
        "take 3 (a # r) \<noteq> [CHR 0xE2, CHR 0x80, CHR 0xA9]"
    by blast
  then show ?case
  proof cases
    case ascii
    with 2 show ?thesis
      by (simp add: escape.simps(2) utf8_coerce.simps(2) parse_esc_ascii)
  next
    case bad
    with 2 show ?thesis
      by (simp add: escape.simps(2) utf8_coerce.simps(2) parse_ufffd [simplified])
  next
    case ls
    then obtain r' where r': "a = CHR 0xE2" "r = CHR 0x80 # CHR 0xA8 # r'"
      by (auto simp: take_Cons' split: if_splits) (metis append_Cons append_take_drop_id)
    have "rune_len (a # r) = 3"
      unfolding r' by (rule rune3_len) (simp_all add: rune2_def rune3_def between_def)
    with 2 ls r' show ?thesis
      by (simp add: escape.simps(2) utf8_coerce.simps(2) parse_u2028 [simplified])
  next
    case ps
    then obtain r' where r': "a = CHR 0xE2" "r = CHR 0x80 # CHR 0xA9 # r'"
      by (auto simp: take_Cons' split: if_splits) (metis append_Cons append_take_drop_id)
    have "rune_len (a # r) = 3"
      unfolding r' by (rule rune3_len) (simp_all add: rune2_def rune3_def between_def)
    with 2 ps r' show ?thesis
      by (simp add: escape.simps(2) utf8_coerce.simps(2) parse_u2028 [simplified])
  next
    case other
    with 2(5) [OF other] show ?thesis
      by (simp only: escape.simps(2) utf8_coerce.simps(2) if_False append_assoc
          parse_rune [OF other(1,2)] map_push)
  qed
qed

section \<open>base64, standard alphabet with padding\<close>

definition b64_char :: "nat \<Rightarrow> char" where
  "b64_char i = (if i < 26 then char_of (65 + i) else if i < 52 then char_of (71 + i)
     else if i < 62 then char_of (i - 4) else if i = 62 then CHR ''+'' else CHR ''/'')"

definition b64_val :: "char \<Rightarrow> nat option" where
  "b64_val c = (if between 65 90 c then Some (code c - 65)
     else if between 97 122 c then Some (code c - 71)
     else if between 48 57 c then Some (code c + 4)
     else if c = CHR ''+'' then Some 62 else if c = CHR ''/'' then Some 63 else None)"

fun b64_enc :: "string \<Rightarrow> string" where
  "b64_enc [] = []"
| "b64_enc [a] = [b64_char (code a div 4), b64_char (code a mod 4 * 16), CHR ''='', CHR ''='']"
| "b64_enc [a, b] = [b64_char (code a div 4), b64_char (code a mod 4 * 16 + code b div 16),
     b64_char (code b mod 16 * 4), CHR ''='']"
| "b64_enc (a # b # c # r) = b64_char (code a div 4) # b64_char (code a mod 4 * 16 + code b div 16) #
     b64_char (code b mod 16 * 4 + code c div 64) # b64_char (code c mod 64) # b64_enc r"

text \<open>Decoding one group of four after another; the decoder skips line breaks anywhere.\<close>

fun b64_quads :: "string \<Rightarrow> string option" where
  "b64_quads [] = Some []"
| "b64_quads (w # x # y # z # r) =
     (case (b64_val w, b64_val x) of (Some i, Some j) \<Rightarrow>
        if y = CHR ''='' then
          (if z = CHR ''='' \<and> r = [] then Some [char_of (i * 4 + j div 16)] else None)
        else (case b64_val y of None \<Rightarrow> None | Some k \<Rightarrow>
          if z = CHR ''='' then
            (if r = [] then Some [char_of (i * 4 + j div 16), char_of (j mod 16 * 16 + k div 4)] else None)
          else (case (b64_val z, b64_quads r) of
             (Some l, Some t) \<Rightarrow> Some (char_of (i * 4 + j div 16) # char_of (j mod 16 * 16 + k div 4) #
                char_of (k mod 4 * 64 + l) # t)
           | _ \<Rightarrow> None))
      | _ \<Rightarrow> None)"
| "b64_quads _ = None"

definition b64_dec :: "string \<Rightarrow> string option" where
  "b64_dec s = b64_quads (filter (\<lambda>c. c \<noteq> CHR 0x0A \<and> c \<noteq> CHR 0x0D) s)"

lemma b64_val_char [simp]: "i < 64 \<Longrightarrow> b64_val (b64_char i) = Some i"
  by (auto simp: b64_char_def b64_val_def between_def)

lemma b64_val_other [simp]: "b64_val CHR ''='' = None" "b64_val CHR 0x0A = None" "b64_val CHR 0x0D = None"
  by (simp_all add: b64_val_def between_def)

lemma b64_char_props [simp]:
  assumes "i < 64"
  shows "b64_char i \<noteq> CHR ''=''" "b64_char i \<noteq> CHR 0x0A" "b64_char i \<noteq> CHR 0x0D"
  using b64_val_char [OF assms] by (auto simp del: b64_val_char)

lemma b64_char_ascii [simp]: "i < 64 \<Longrightarrow> code (b64_char i) < 0x80"
  by (auto simp: b64_char_def)

lemma code_div_bounds [simp]:
  "code a div 4 < 64" "code a mod 4 * 16 < 64" "code a mod 4 * 16 + code b div 16 < 64"
  "code b mod 16 * 4 < 64" "code b mod 16 * 4 + code c div 64 < 64"
  using code_lt_256 [of a] code_lt_256 [of b] code_lt_256 [of c] by linarith+

lemma split_bits: "(q :: nat) < n \<Longrightarrow> (m * n + q) div n = m" "(q :: nat) < n \<Longrightarrow> (m * n + q) mod n = q"
  by simp_all

lemma code_div_lt [simp]: "code b div 16 < 16" "code c div 64 < 4"
  using code_lt_256 [of b] code_lt_256 [of c] by linarith+

lemma b64_bits:
  "code a div 4 * 4 + code a mod 4 * 16 div 16 = code a"
  "code a div 4 * 4 + (code a mod 4 * 16 + code b div 16) div 16 = code a"
  "(code a mod 4 * 16 + code b div 16) mod 16 * 16 + code b mod 16 * 4 div 4 = code b"
  "(code a mod 4 * 16 + code b div 16) mod 16 * 16 + (code b mod 16 * 4 + code c div 64) div 4 = code b"
  "(code b mod 16 * 4 + code c div 64) mod 4 * 64 + code c mod 64 = code c"
  by (simp_all add: split_bits div_mult_mod_eq del: add_mult_distrib)

lemma b64_quads_enc: "b64_quads (b64_enc s) = Some s"
proof (induction s rule: b64_enc.induct)
  case (4 a b c r)
  then show ?case by (simp add: b64_bits)
qed (simp_all add: b64_bits)

lemma filter_b64_enc: "filter (\<lambda>c. c \<noteq> CHR 0x0A \<and> c \<noteq> CHR 0x0D) (b64_enc s) = b64_enc s"
  by (induction s rule: b64_enc.induct) simp_all

lemma b64_dec_enc [codec_simps]: "b64_dec (b64_enc s) = Some s"
  by (simp add: b64_dec_def filter_b64_enc b64_quads_enc)

lemma b64_enc_ascii: "list_all (\<lambda>c. code c < 0x80) (b64_enc s)"
  by (induction s rule: b64_enc.induct) simp_all

end
