(* ===== verification/Go_Json.thy ===== *)
theory Go_Json
  imports Go_Text
begin

text \<open>
  The parts of Go's \<^verbatim>\<open>encoding/json\<close> that the program uses. \<open>json\<close> is the value a text
  denotes (numbers keep their literal, as the decoder does until it knows the target type);
  \<open>render\<close> prints it as \<^verbatim>\<open>json.Marshal\<close> and \<^verbatim>\<open>json.MarshalIndent\<close> do and \<open>parse_value\<close> reads a
  text as \<^verbatim>\<open>json.Unmarshal\<close> and \<^verbatim>\<open>json.Decoder\<close> do. The main fact is \<open>parse_render\<close>: a printed
  value reads back as itself, up to the replacement of invalid UTF-8 in its strings.
  The last section decodes a value into the fields of a struct.
  The decoder's nesting limit (10000 levels) is not modelled: the program's own documents
  are at most four levels deep.
\<close>

section \<open>Values and printing\<close>

datatype json =
    JNull | JBool bool | JNum string | JStr string
  | JArr "json list" | JObj "(string \<times> json) list"

text \<open>
  \<open>nl d\<close> is the line break and indentation that \<^verbatim>\<open>MarshalIndent\<close> writes before an element at
  depth \<open>d\<close>, and \<open>sp\<close> what it writes after a colon; both are empty for \<^verbatim>\<open>Marshal\<close>.
\<close>

fun render :: "(nat \<Rightarrow> string) \<Rightarrow> string \<Rightarrow> nat \<Rightarrow> json \<Rightarrow> string"
  and render_elems :: "(nat \<Rightarrow> string) \<Rightarrow> string \<Rightarrow> nat \<Rightarrow> json list \<Rightarrow> string"
  and render_members :: "(nat \<Rightarrow> string) \<Rightarrow> string \<Rightarrow> nat \<Rightarrow> (string \<times> json) list \<Rightarrow> string" where
  "render nl sp d JNull = ''null''"
| "render nl sp d (JBool b) = (if b then ''true'' else ''false'')"
| "render nl sp d (JNum t) = t"
| "render nl sp d (JStr s) = quote s"
| "render nl sp d (JArr []) = ''[]''"
| "render nl sp d (JArr (v # vs)) =
     CHR ''['' # nl (Suc d) @ render nl sp (Suc d) v @ render_elems nl sp d vs"
| "render nl sp d (JObj []) = ''{}''"
| "render nl sp d (JObj ((k, v) # ms)) =
     CHR ''{'' # nl (Suc d) @ quote k @ CHR '':'' # sp @ render nl sp (Suc d) v @ render_members nl sp d ms"
| "render_elems nl sp d [] = nl d @ '']''"
| "render_elems nl sp d (v # vs) =
     CHR '','' # nl (Suc d) @ render nl sp (Suc d) v @ render_elems nl sp d vs"
| "render_members nl sp d [] = nl d @ ''}''"
| "render_members nl sp d ((k, v) # ms) =
     CHR '','' # nl (Suc d) @ quote k @ CHR '':'' # sp @ render nl sp (Suc d) v @ render_members nl sp d ms"

text \<open>\<^verbatim>\<open>json.Marshal\<close>, and \<^verbatim>\<open>json.MarshalIndent(v, "", indent)\<close>.\<close>

definition marshal :: "json \<Rightarrow> string" where
  "marshal j = render (\<lambda>_. []) [] 0 j"

definition marshal_indent :: "string \<Rightarrow> json \<Rightarrow> string" where
  "marshal_indent ind j = render (\<lambda>d. CHR 0x0A # concat (replicate d ind)) '' '' 0 j"

section \<open>Parsing\<close>

definition is_ws :: "char \<Rightarrow> bool" where
  "is_ws c \<longleftrightarrow> c = CHR '' '' \<or> c = CHR 0x09 \<or> c = CHR 0x0A \<or> c = CHR 0x0D"

definition skip_ws :: "string \<Rightarrow> string" where
  "skip_ws s = dropWhile is_ws s"

definition num_char :: "char \<Rightarrow> bool" where
  "num_char c \<longleftrightarrow> is_digit c \<or> c \<in> {CHR ''-'', CHR ''+'', CHR ''.'', CHR ''e'', CHR ''E''}"

definition valid_exp :: "string \<Rightarrow> bool" where
  "valid_exp s = (case s of [] \<Rightarrow> True | c # r \<Rightarrow> (c = CHR ''e'' \<or> c = CHR ''E'') \<and>
     (let t = (case r of x # r' \<Rightarrow> if x = CHR ''+'' \<or> x = CHR ''-'' then r' else r | [] \<Rightarrow> [])
      in t \<noteq> [] \<and> list_all is_digit t))"

definition valid_frac :: "string \<Rightarrow> bool" where
  "valid_frac s = (case s of c # r \<Rightarrow> if c = CHR ''.''
       then takeWhile is_digit r \<noteq> [] \<and> valid_exp (dropWhile is_digit r) else valid_exp s
     | [] \<Rightarrow> True)"

text \<open>The number literals of the JSON grammar.\<close>

definition valid_number :: "string \<Rightarrow> bool" where
  "valid_number s =
     (let t = (case s of c # r \<Rightarrow> if c = CHR ''-'' then r else s | [] \<Rightarrow> []);
          i = takeWhile is_digit t
      in i \<noteq> [] \<and> (hd i = CHR ''0'' \<longrightarrow> length i = 1) \<and> valid_frac (dropWhile is_digit t))"

text \<open>
  The recursive descent, bounded by a fuel that every call spends. Each call also consumes a
  character before it calls another, so a fuel above the length of the text is enough
  (\<open>unmarshal\<close> and \<open>decode\<close> below pass it).
\<close>

fun parse_value :: "nat \<Rightarrow> string \<Rightarrow> (json \<times> string) option"
  and parse_elems :: "nat \<Rightarrow> string \<Rightarrow> (json list \<times> string) option"
  and parse_member :: "nat \<Rightarrow> string \<Rightarrow> ((string \<times> json) \<times> string) option"
  and parse_members :: "nat \<Rightarrow> string \<Rightarrow> ((string \<times> json) list \<times> string) option" where
  "parse_value 0 s = None"
| "parse_value (Suc n) s = (case skip_ws s of [] \<Rightarrow> None | c # r \<Rightarrow>
     if c = dq then map_option (apfst JStr) (parse_string r)
     else if c = CHR ''['' then
       (case skip_ws r of [] \<Rightarrow> None | d # r' \<Rightarrow>
          if d = CHR '']'' then Some (JArr [], r')
          else (case parse_value n (d # r') of None \<Rightarrow> None
                | Some (v, r1) \<Rightarrow> map_option (apfst (\<lambda>vs. JArr (v # vs))) (parse_elems n r1)))
     else if c = CHR ''{'' then
       (case skip_ws r of [] \<Rightarrow> None | d # r' \<Rightarrow>
          if d = CHR ''}'' then Some (JObj [], r')
          else (case parse_member n (d # r') of None \<Rightarrow> None
                | Some (m, r1) \<Rightarrow> map_option (apfst (\<lambda>ms. JObj (m # ms))) (parse_members n r1)))
     else if HasPrefix (c # r) ''null'' then Some (JNull, drop 3 r)
     else if HasPrefix (c # r) ''true'' then Some (JBool True, drop 3 r)
     else if HasPrefix (c # r) ''false'' then Some (JBool False, drop 4 r)
     else if valid_number (takeWhile num_char (c # r))
       then Some (JNum (takeWhile num_char (c # r)), dropWhile num_char (c # r))
     else None)"
| "parse_elems 0 s = None"
| "parse_elems (Suc n) s = (case skip_ws s of [] \<Rightarrow> None | c # r \<Rightarrow>
     if c = CHR '']'' then Some ([], r)
     else if c = CHR '','' then
       (case parse_value n r of None \<Rightarrow> None
        | Some (v, r1) \<Rightarrow> map_option (apfst (\<lambda>vs. v # vs)) (parse_elems n r1))
     else None)"
| "parse_member 0 s = None"
| "parse_member (Suc n) s = (case skip_ws s of [] \<Rightarrow> None | c # r \<Rightarrow>
     if c = dq then
       (case parse_string r of None \<Rightarrow> None | Some (k, r1) \<Rightarrow>
          (case skip_ws r1 of [] \<Rightarrow> None | e # r2 \<Rightarrow>
             if e = CHR '':'' then map_option (apfst (Pair k)) (parse_value n r2) else None))
     else None)"
| "parse_members 0 s = None"
| "parse_members (Suc n) s = (case skip_ws s of [] \<Rightarrow> None | c # r \<Rightarrow>
     if c = CHR ''}'' then Some ([], r)
     else if c = CHR '','' then
       (case parse_member n r of None \<Rightarrow> None
        | Some (m, r1) \<Rightarrow> map_option (apfst (\<lambda>ms. m # ms)) (parse_members n r1))
     else None)"

text \<open>
  \<^verbatim>\<open>json.Unmarshal\<close> accepts one value with white space around it; \<^verbatim>\<open>Decoder.Decode\<close> reads one
  value and leaves the rest of the stream.
\<close>

definition unmarshal :: "string \<Rightarrow> json option" where
  "unmarshal s = (case parse_value (Suc (length s)) s of
     Some (j, r) \<Rightarrow> if skip_ws r = [] then Some j else None | None \<Rightarrow> None)"

definition decode :: "string \<Rightarrow> json option" where
  "decode s = map_option fst (parse_value (Suc (length s)) s)"

section \<open>The round trip\<close>

text \<open>What a value becomes when it is written and read back.\<close>

fun coerced :: "json \<Rightarrow> json" where
  "coerced (JStr s) = JStr (utf8_coerce s)"
| "coerced (JArr vs) = JArr (map coerced vs)"
| "coerced (JObj ms) = JObj (map (\<lambda>(k, v). (utf8_coerce k, coerced v)) ms)"
| "coerced j = j"

fun wf_json :: "json \<Rightarrow> bool" where
  "wf_json (JNum t) = (valid_number t \<and> list_all num_char t)"
| "wf_json (JArr vs) = list_all wf_json vs"
| "wf_json (JObj ms) = list_all (\<lambda>(k, v). wf_json v) ms"
| "wf_json j = True"

lemma skip_ws_append: "list_all is_ws w \<Longrightarrow> skip_ws (w @ s) = skip_ws s"
  by (induction w) (auto simp: skip_ws_def)

lemma skip_ws_stop [simp]: "\<not> is_ws c \<Longrightarrow> skip_ws (c # s) = c # s"
  by (simp add: skip_ws_def)

lemma skip_ws_Nil [simp]: "skip_ws [] = []"
  by (simp add: skip_ws_def)

lemma parse_value_ws: "list_all is_ws w \<Longrightarrow> parse_value n (w @ s) = parse_value n s"
  by (cases n) (simp_all add: skip_ws_append)

lemma parse_member_ws: "list_all is_ws w \<Longrightarrow> parse_member n (w @ s) = parse_member n s"
  by (cases n) (simp_all add: skip_ws_append)

lemma not_ws [simp]:
  "\<not> is_ws dq" "\<not> is_ws CHR ''[''" "\<not> is_ws CHR '']''" "\<not> is_ws CHR ''{''" "\<not> is_ws CHR ''}''"
  "\<not> is_ws CHR '',''" "\<not> is_ws CHR '':''" "\<not> is_ws CHR ''n''" "\<not> is_ws CHR ''t''" "\<not> is_ws CHR ''f''"
  by (simp_all add: is_ws_def)

lemma num_char_not_ws: "num_char c \<Longrightarrow> \<not> is_ws c"
  by (auto simp: num_char_def is_ws_def is_digit_def)

definition num_end :: "string \<Rightarrow> bool" where
  "num_end r \<longleftrightarrow> (case r of [] \<Rightarrow> True | c # _ \<Rightarrow> \<not> num_char c)"

lemma num_end_ws: "list_all is_ws w \<Longrightarrow> num_end r \<Longrightarrow> num_end (w @ r)"
  using num_char_not_ws by (cases w) (auto simp: num_end_def)

lemma num_end_punct [simp]:
  "num_end (CHR '','' # r)" "num_end (CHR '']'' # r)" "num_end (CHR ''}'' # r)" "num_end []"
  by (simp_all add: num_end_def num_char_def is_digit_def)

lemma takeWhile_num:
  assumes "list_all num_char t" and "num_end r"
  shows "takeWhile num_char (t @ r) = t" "dropWhile num_char (t @ r) = r"
  using assms by (auto simp: list_all_iff num_end_def split: list.splits)

lemma HasPrefix_hd: "HasPrefix (c # r) (a # b) \<Longrightarrow> c = a"
  by (simp add: HasPrefix_def)

lemma parse_number:
  assumes "valid_number t" and "list_all num_char t" and "num_end r"
  shows "parse_value (Suc n) (t @ r) = Some (JNum t, r)"
proof -
  obtain c s where t: "t = c # s" using assms(1) by (cases t) (auto simp: valid_number_def)
  have c: "num_char c" using assms(2) t by simp
  then have ne: "c \<noteq> dq" "c \<noteq> CHR ''[''" "c \<noteq> CHR ''{''" "c \<noteq> CHR ''n''" "c \<noteq> CHR ''t''" "c \<noteq> CHR ''f''"
    by (auto simp: num_char_def is_digit_def)
  have np: "\<not> HasPrefix (c # s @ r) ''null''" "\<not> HasPrefix (c # s @ r) ''true''"
    "\<not> HasPrefix (c # s @ r) ''false''"
    using ne by (auto dest: HasPrefix_hd)
  show ?thesis
    using np ne num_char_not_ws [OF c] takeWhile_num [OF assms(2,3)] assms(1)
    by (simp add: t)
qed

lemma render_hd:
  assumes "wf_json v"
  shows "\<exists>c r. render nl sp d v = c # r \<and> \<not> is_ws c \<and> c \<noteq> CHR '']''"
proof (cases v)
  case (JNum t)
  then obtain c r where t: "t = c # r" using assms by (cases t) (auto simp: valid_number_def)
  with assms JNum have "num_char c" by simp
  moreover from this have "c \<noteq> CHR '']''" by (auto simp: num_char_def is_digit_def)
  ultimately show ?thesis using JNum t num_char_not_ws by simp
next
  case (JArr vs)
  then show ?thesis by (cases vs) auto
next
  case (JObj ms)
  then show ?thesis by (cases ms) (auto simp: quote_def)
qed (auto simp: quote_def)

lemma parse_quote: "parse_string (escape k @ dq # t) = Some (utf8_coerce k, t)"
  by (rule parse_escape)

lemma parse_member_render:
  assumes "list_all is_ws sp" and "parse_value n (render nl sp d v @ rest) = Some (j, rest)"
  shows "parse_member (Suc n) (quote k @ CHR '':'' # sp @ render nl sp d v @ rest)
    = Some ((utf8_coerce k, j), rest)"
  using assms by (simp add: quote_def parse_quote parse_value_ws)

lemma parse_render_aux:
  shows "(\<And>d. list_all is_ws (nl d)) \<Longrightarrow> list_all is_ws sp \<Longrightarrow> wf_json j \<Longrightarrow> num_end rest \<Longrightarrow>
      length (render nl sp d j) < n \<Longrightarrow>
      parse_value n (render nl sp d j @ rest) = Some (coerced j, rest)"
    and "(\<And>d. list_all is_ws (nl d)) \<Longrightarrow> list_all is_ws sp \<Longrightarrow> list_all wf_json vs \<Longrightarrow>
      length (render_elems nl sp d vs) < n \<Longrightarrow>
      num_end (render_elems nl sp d vs @ rest) \<and>
      parse_elems n (render_elems nl sp d vs @ rest) = Some (map coerced vs, rest)"
    and "(\<And>d. list_all is_ws (nl d)) \<Longrightarrow> list_all is_ws sp \<Longrightarrow> list_all (\<lambda>(k, v). wf_json v) ms \<Longrightarrow>
      length (render_members nl sp d ms) < n \<Longrightarrow>
      num_end (render_members nl sp d ms @ rest) \<and>
      parse_members n (render_members nl sp d ms @ rest)
        = Some (map (\<lambda>(k, v). (utf8_coerce k, coerced v)) ms, rest)"
proof (induction nl sp d j and nl sp d vs and nl sp d ms arbitrary: n rest and n rest and n rest
    rule: render_render_elems_render_members.induct)
  case (1 nl sp d)
  then show ?case by (cases n) (auto simp: HasPrefix_def)
next
  case (2 nl sp d b)
  then show ?case by (cases n) (auto simp: HasPrefix_def)
next
  case (3 nl sp d t)
  then show ?case by (cases n) (auto simp: parse_number simp del: parse_value.simps(2))
next
  case (4 nl sp d s)
  then show ?case by (cases n) (auto simp: quote_def parse_quote)
next
  case (5 nl sp d)
  then show ?case by (cases n) auto
next
  case (6 nl sp d v vs)
  obtain m where n: "n = Suc m" using 6 by (cases n) auto
  obtain c r where c: "render nl sp (Suc d) v = c # r" "\<not> is_ws c" "c \<noteq> CHR '']''"
    using render_hd [of v nl sp "Suc d"] 6 by auto
  have E: "num_end (render_elems nl sp d vs @ rest)"
     "parse_elems m (render_elems nl sp d vs @ rest) = Some (map coerced vs, rest)"
    using "6.IH"(2) [of m rest] 6 n by auto
  have V: "parse_value m (c # r @ render_elems nl sp d vs @ rest)
      = Some (coerced v, render_elems nl sp d vs @ rest)"
    using "6.IH"(1) [of "render_elems nl sp d vs @ rest" m] 6 n c E by auto
  show ?case using "6.prems" V E c by (simp add: n skip_ws_append)
next
  case (7 nl sp d)
  then show ?case by (cases n) auto
next
  case (8 nl sp d k v ms)
  obtain m where n: "n = Suc (Suc m)" using 8 by (cases n; cases "n - 1") auto
  have E: "num_end (render_members nl sp d ms @ rest)"
     "parse_members (Suc m) (render_members nl sp d ms @ rest)
        = Some (map (\<lambda>(k, v). (utf8_coerce k, coerced v)) ms, rest)"
    using "8.IH"(2) [of "Suc m" rest] 8 n by auto
  have V: "parse_value m (render nl sp (Suc d) v @ render_members nl sp d ms @ rest)
      = Some (coerced v, render_members nl sp d ms @ rest)"
    using "8.IH"(1) [of "render_members nl sp d ms @ rest" m] 8 n E by (auto simp: quote_def)
  show ?case
    using "8.prems" E parse_member_render [OF "8.prems"(2) V, of k]
    by (simp add: n skip_ws_append quote_def del: parse_member.simps)
next
  case (9 nl sp d)
  then show ?case by (cases n) (auto simp: skip_ws_append num_end_ws)
next
  case (10 nl sp d v vs)
  obtain m where n: "n = Suc m" using 10 by (cases n) auto
  have E: "num_end (render_elems nl sp d vs @ rest)"
     "parse_elems m (render_elems nl sp d vs @ rest) = Some (map coerced vs, rest)"
    using "10.IH"(2) [of m rest] 10 n by auto
  have "parse_value m (render nl sp (Suc d) v @ render_elems nl sp d vs @ rest)
      = Some (coerced v, render_elems nl sp d vs @ rest)"
    using "10.IH"(1) [of "render_elems nl sp d vs @ rest" m] 10 n E by auto
  with "10.prems" E show ?case by (simp add: n parse_value_ws)
next
  case (11 nl sp d)
  then show ?case by (cases n) (auto simp: skip_ws_append num_end_ws)
next
  case (12 nl sp d k v ms)
  obtain m where n: "n = Suc (Suc m)" using 12 by (cases n; cases "n - 1") auto
  have E: "num_end (render_members nl sp d ms @ rest)"
     "parse_members (Suc m) (render_members nl sp d ms @ rest)
        = Some (map (\<lambda>(k, v). (utf8_coerce k, coerced v)) ms, rest)"
    using "12.IH"(2) [of "Suc m" rest] 12 n by auto
  have V: "parse_value m (render nl sp (Suc d) v @ render_members nl sp d ms @ rest)
      = Some (coerced v, render_members nl sp d ms @ rest)"
    using "12.IH"(1) [of "render_members nl sp d ms @ rest" m] 12 n E by (auto simp: quote_def)
  show ?case
    using "12.prems" E parse_member_render [OF "12.prems"(2) V, of k]
    by (simp add: n parse_member_ws del: parse_member.simps)
qed

theorem parse_render:
  assumes "\<And>d. list_all is_ws (nl d)" "list_all is_ws sp" "wf_json j" "num_end rest"
    and "length (render nl sp d j) < n"
  shows "parse_value n (render nl sp d j @ rest) = Some (coerced j, rest)"
  using parse_render_aux(1) assms by blast

lemma decode_marshal [codec_simps]:
  "wf_json j \<Longrightarrow> num_end rest \<Longrightarrow> decode (marshal j @ rest) = Some (coerced j)"
  unfolding decode_def marshal_def by (subst parse_render) simp_all

lemma unmarshal_marshal [codec_simps]: "wf_json j \<Longrightarrow> unmarshal (marshal j) = Some (coerced j)"
  using parse_render [of "\<lambda>_. []" "[]" j "[]" 0 "Suc (length (marshal j))"]
  by (simp add: unmarshal_def marshal_def)

lemma unmarshal_marshal_indent [codec_simps]:
  assumes "wf_json j" and "list_all is_ws ind"
  shows "unmarshal (marshal_indent ind j) = Some (coerced j)"
proof -
  have "list_all is_ws (CHR 0x0A # concat (replicate d ind))" for d
    using assms(2) by (induction d) (auto simp: is_ws_def)
  then show ?thesis
    using parse_render [of "\<lambda>d. CHR 0x0A # concat (replicate d ind)" "'' ''" j "[]" 0
        "Suc (length (marshal_indent ind j))"] assms(1)
    by (simp add: unmarshal_def marshal_indent_def is_ws_def)
qed

section \<open>Numbers and byte slices as JSON\<close>

definition json_uint :: "u64 \<Rightarrow> json" where
  "json_uint x = JNum (FormatUint x)"

text \<open>A \<^verbatim>\<open>[]byte\<close> is a base64 string, a nil one \<^verbatim>\<open>null\<close>.\<close>

definition json_bytes :: "bytes \<Rightarrow> json" where
  "json_bytes b = (case b of None \<Rightarrow> JNull | Some s \<Rightarrow> JStr (b64_enc s))"

lemma dec_of_nat_hd: "10 \<le> n \<Longrightarrow> code (hd (dec_of_nat n)) \<noteq> 48"
proof (induction n rule: dec_of_nat.induct)
  case (1 n)
  show ?case
  proof (cases "n < 100")
    case True
    then have "0 < n div 10" "n div 10 < 10" using "1.prems" by linarith+
    with 1 show ?thesis
      by (simp add: dec_of_nat.simps [of n] dec_of_nat.simps [of "n div 10"] code_digit_char)
  next
    case False
    with 1 show ?thesis by (simp add: dec_of_nat.simps [of n])
  qed
qed

lemma dec_of_nat_number:
  "valid_number (dec_of_nat n)" "list_all num_char (dec_of_nat n)"
proof -
  have d: "list_all is_digit (dec_of_nat n)" by (rule dec_of_nat_digits)
  then have tw: "takeWhile is_digit (dec_of_nat n) = dec_of_nat n" "dropWhile is_digit (dec_of_nat n) = []"
    by (simp_all add: list_all_iff takeWhile_eq_all_conv dropWhile_eq_Nil_conv)
  obtain c r where c: "dec_of_nat n = c # r" by (cases "dec_of_nat n") auto
  have "is_digit c" using d c by simp
  then have "c \<noteq> CHR ''-''" by (auto simp: is_digit_def)
  moreover have "c = CHR ''0'' \<Longrightarrow> r = []"
    using dec_of_nat_hd [of n] c dec_of_nat.simps [of n] by (cases "n < 10") auto
  ultimately show "valid_number (dec_of_nat n)"
    using tw c by (simp add: valid_number_def valid_frac_def split: if_splits)
  show "list_all num_char (dec_of_nat n)"
    using d by (auto simp: list_all_iff num_char_def)
qed

lemma json_uint_wf [simp]: "wf_json (json_uint x)" "coerced (json_uint x) = json_uint x"
  by (simp_all add: json_uint_def FormatUint_def dec_of_nat_number)

lemma json_bytes_wf [simp]: "wf_json (json_bytes b)" "coerced (json_bytes b) = json_bytes b"
  by (simp_all add: json_bytes_def utf8_coerce_valid utf8_valid_ascii b64_enc_ascii split: option.splits)

section \<open>Decoding into struct fields\<close>

text \<open>
  A struct field is found by its name under Unicode simple case folding; the two non-ASCII
  runes that fold to ASCII letters are the Kelvin sign and the long s. A JSON null leaves a
  string or number field as it was and makes a slice nil; a value of the wrong type is an
  error. An unknown member is ignored.
\<close>

definition lower_char :: "char \<Rightarrow> char" where
  "lower_char c = (if between 65 90 c then char_of (code c + 32) else c)"

fun fold_name :: "string \<Rightarrow> string" where
  "fold_name [] = []"
| "fold_name (a # r) =
     (if a = CHR 0xE2 \<and> take 2 r = [CHR 0x84, CHR 0xAA] then CHR ''k'' # fold_name (drop 2 r)
      else if a = CHR 0xC5 \<and> take 1 r = [CHR 0xBF] then CHR ''s'' # fold_name (drop 1 r)
      else lower_char a # fold_name r)"

definition field_name :: "string \<Rightarrow> string \<Rightarrow> bool" where
  "field_name k f \<longleftrightarrow> fold_name k = f"

definition set_string :: "string \<Rightarrow> json \<Rightarrow> string option" where
  "set_string old j = (case j of JStr s \<Rightarrow> Some s | JNull \<Rightarrow> Some old | _ \<Rightarrow> None)"

definition set_uint :: "u64 \<Rightarrow> json \<Rightarrow> u64 option" where
  "set_uint old j = (case j of JNum t \<Rightarrow> ParseUint t | JNull \<Rightarrow> Some old | _ \<Rightarrow> None)"

definition byte_elem :: "json \<Rightarrow> char option" where
  "byte_elem j = (case j of JNull \<Rightarrow> Some CHR 0x00
     | JNum t \<Rightarrow> (case ParseUint t of Some x \<Rightarrow> if unat x < 256 then Some (char_of (unat x)) else None
                    | None \<Rightarrow> None)
     | _ \<Rightarrow> None)"

definition set_bytes :: "json \<Rightarrow> bytes option" where
  "set_bytes j = (case j of JNull \<Rightarrow> Some None
     | JStr s \<Rightarrow> map_option Some (b64_dec s)
     | JArr vs \<Rightarrow> map_option Some (those (map byte_elem vs))
     | _ \<Rightarrow> None)"

fun decode_members :: "(string \<Rightarrow> json \<Rightarrow> 'r \<Rightarrow> 'r option) \<Rightarrow> (string \<times> json) list \<Rightarrow> 'r \<Rightarrow> 'r option" where
  "decode_members f [] r = Some r"
| "decode_members f ((k, v) # ms) r =
     (case f k v r of None \<Rightarrow> None | Some r' \<Rightarrow> decode_members f ms r')"

definition decode_struct :: "(string \<Rightarrow> json \<Rightarrow> 'r \<Rightarrow> 'r option) \<Rightarrow> json \<Rightarrow> 'r \<Rightarrow> 'r option" where
  "decode_struct f j r =
     (case j of JObj ms \<Rightarrow> decode_members f ms r | JNull \<Rightarrow> Some r | _ \<Rightarrow> None)"

lemma set_string_JStr [simp]: "set_string old (JStr s) = Some s"
  by (simp add: set_string_def)

lemma set_uint_json [simp]: "set_uint old (json_uint x) = Some x"
  by (simp add: set_uint_def json_uint_def codec_simps)

lemma set_bytes_json [simp]: "set_bytes (json_bytes b) = Some b"
  by (simp add: set_bytes_def json_bytes_def codec_simps split: option.splits)

lemma decode_struct_JObj [simp]: "decode_struct f (JObj ms) r = decode_members f ms r"
  by (simp add: decode_struct_def)

text \<open>
  A pointer becomes nil at a null; otherwise the value is decoded into what it points to, a
  new zero value if it was nil. The elements of an array are decoded over those the slice
  already has, which matters only when a member occurs twice.
\<close>

definition set_ptr :: "('a \<Rightarrow> json \<Rightarrow> 'a option) \<Rightarrow> 'a \<Rightarrow> 'a option \<Rightarrow> json \<Rightarrow> 'a option option" where
  "set_ptr f z old j = (if j = JNull then Some None
     else map_option Some (f (case old of None \<Rightarrow> z | Some x \<Rightarrow> x) j))"

fun decode_slice :: "('a \<Rightarrow> json \<Rightarrow> 'a option) \<Rightarrow> 'a \<Rightarrow> 'a list \<Rightarrow> json list \<Rightarrow> 'a list option" where
  "decode_slice f z olds [] = Some []"
| "decode_slice f z olds (j # js) =
     (case f (case olds of [] \<Rightarrow> z | old # _ \<Rightarrow> old) j of None \<Rightarrow> None
      | Some x \<Rightarrow> map_option ((#) x) (decode_slice f z (tl olds) js))"

definition set_slice :: "('a \<Rightarrow> json \<Rightarrow> 'a option) \<Rightarrow> 'a \<Rightarrow> 'a list \<Rightarrow> json \<Rightarrow> 'a list option" where
  "set_slice f z olds j = (case j of JNull \<Rightarrow> Some [] | JArr vs \<Rightarrow> decode_slice f z olds vs | _ \<Rightarrow> None)"

lemma decode_slice_map:
  "(\<And>x. x \<in> set xs \<Longrightarrow> f z (enc x) = Some (dec x)) \<Longrightarrow> decode_slice f z [] (map enc xs) = Some (map dec xs)"
  by (induction xs) auto

end
