(* ===== verification/Store_Types.thy ===== *)
theory Store_Types
  imports Go_Json
begin

text \<open>
  \<^verbatim>\<open>store/store.go\<close>: the configuration entry, the result of a put, and the JSON text under
  which an entry is kept. An entry reads back from its text as itself, except that a key
  that is not valid UTF-8 comes back with the replacement rune (\<open>norm_entry\<close>).
\<close>

section \<open>Entry and PutResult\<close>

record Entry =
  eKey :: string
  eValue :: bytes
  eRevision :: u64
  eCreateRevision :: u64
  eModRevision :: u64
  eVersion :: u64

definition zeroEntry :: Entry where
  "zeroEntry = \<lparr>eKey = [], eValue = None, eRevision = 0, eCreateRevision = 0,
     eModRevision = 0, eVersion = 0\<rparr>"

record PutResult =
  prEntry :: "Entry option"
  prPrevEntry :: "Entry option"

section \<open>JSON of an entry\<close>

definition entry_json :: "Entry \<Rightarrow> json" where
  "entry_json e = JObj
     [(''key'', JStr (eKey e)), (''value'', json_bytes (eValue e)),
      (''revision'', json_uint (eRevision e)), (''create_revision'', json_uint (eCreateRevision e)),
      (''mod_revision'', json_uint (eModRevision e)), (''version'', json_uint (eVersion e))]"

definition set_entry_field :: "string \<Rightarrow> json \<Rightarrow> Entry \<Rightarrow> Entry option" where
  "set_entry_field k j e =
     (if field_name k ''key'' then map_option (\<lambda>x. e\<lparr>eKey := x\<rparr>) (set_string (eKey e) j)
      else if field_name k ''value'' then map_option (\<lambda>x. e\<lparr>eValue := x\<rparr>) (set_bytes j)
      else if field_name k ''revision'' then map_option (\<lambda>x. e\<lparr>eRevision := x\<rparr>) (set_uint (eRevision e) j)
      else if field_name k ''create_revision'' then
        map_option (\<lambda>x. e\<lparr>eCreateRevision := x\<rparr>) (set_uint (eCreateRevision e) j)
      else if field_name k ''mod_revision'' then
        map_option (\<lambda>x. e\<lparr>eModRevision := x\<rparr>) (set_uint (eModRevision e) j)
      else if field_name k ''version'' then map_option (\<lambda>x. e\<lparr>eVersion := x\<rparr>) (set_uint (eVersion e) j)
      else Some e)"

definition json_entry :: "json \<Rightarrow> Entry option" where
  "json_entry j = decode_struct set_entry_field j zeroEntry"

definition marshal_entry :: "Entry \<Rightarrow> string" where
  "marshal_entry e = marshal (entry_json e)"

definition unmarshal_entry :: "string \<Rightarrow> err + Entry" where
  "unmarshal_entry s = (case unmarshal s of None \<Rightarrow> Inl ErrJson
     | Some j \<Rightarrow> (case json_entry j of None \<Rightarrow> Inl ErrJson | Some e \<Rightarrow> Inr e))"

text \<open>An entry as it is after one trip through its JSON text.\<close>

definition norm_entry :: "Entry \<Rightarrow> Entry" where
  "norm_entry e = e\<lparr>eKey := utf8_coerce (eKey e)\<rparr>"

lemma entry_names [simp]:
  "fold_name ''key'' = ''key''" "fold_name ''value'' = ''value''" "fold_name ''revision'' = ''revision''"
  "fold_name ''create_revision'' = ''create_revision''" "fold_name ''mod_revision'' = ''mod_revision''"
  "fold_name ''version'' = ''version''"
  by (simp_all add: lower_char_def between_def)

lemma entry_json_wf [simp]: "wf_json (entry_json e)"
  by (simp add: entry_json_def)

lemma utf8_coerce_ascii: "list_all (\<lambda>c. code c < 0x80) s \<Longrightarrow> utf8_coerce s = s"
  by (simp add: utf8_coerce_valid utf8_valid_ascii)

lemma coerce_names [simp]:
  "utf8_coerce ''key'' = ''key''" "utf8_coerce ''value'' = ''value''"
  "utf8_coerce ''revision'' = ''revision''" "utf8_coerce ''create_revision'' = ''create_revision''"
  "utf8_coerce ''mod_revision'' = ''mod_revision''" "utf8_coerce ''version'' = ''version''"
  by (rule utf8_coerce_ascii, simp)+

lemma norm_entry_simps [simp]:
  "eValue (norm_entry e) = eValue e" "eRevision (norm_entry e) = eRevision e"
  "eCreateRevision (norm_entry e) = eCreateRevision e" "eModRevision (norm_entry e) = eModRevision e"
  "eVersion (norm_entry e) = eVersion e" "eKey (norm_entry e) = utf8_coerce (eKey e)"
  by (simp_all add: norm_entry_def)

lemma coerced_entry_json: "coerced (entry_json e) = entry_json (norm_entry e)"
  by (simp add: entry_json_def)

lemma set_entry_field_simps [simp]:
  "set_entry_field ''key'' (JStr x) e = Some (e\<lparr>eKey := x\<rparr>)"
  "set_entry_field ''value'' (json_bytes b) e = Some (e\<lparr>eValue := b\<rparr>)"
  "set_entry_field ''revision'' (json_uint n) e = Some (e\<lparr>eRevision := n\<rparr>)"
  "set_entry_field ''create_revision'' (json_uint n) e = Some (e\<lparr>eCreateRevision := n\<rparr>)"
  "set_entry_field ''mod_revision'' (json_uint n) e = Some (e\<lparr>eModRevision := n\<rparr>)"
  "set_entry_field ''version'' (json_uint n) e = Some (e\<lparr>eVersion := n\<rparr>)"
  by (simp_all add: set_entry_field_def field_name_def del: fold_name.simps)

lemma json_entry_json [codec_simps]: "json_entry (entry_json e) = Some e"
  by (simp add: json_entry_def entry_json_def zeroEntry_def)

lemma unmarshal_entry_marshal [codec_simps]:
  "unmarshal_entry (marshal_entry e) = Inr (norm_entry e)"
  by (simp add: unmarshal_entry_def marshal_entry_def unmarshal_marshal coerced_entry_json json_entry_json)

lemma norm_entry_valid: "utf8_valid (eKey e) \<Longrightarrow> norm_entry e = e"
  by (simp add: norm_entry_def utf8_coerce_valid)

end
