(* ===== verification/Kv_Spec.thy ===== *)
theory Kv_Spec
  imports Store_Types
begin

text \<open>
  What the \<^verbatim>\<open>Store\<close> interface of \<^verbatim>\<open>store/store.go\<close> promises. \<open>kv\<close> is the abstract versioned map, a
  finite map from keys to entries and the global revision, with one pure function per
  operation. A Go value of the interface type is the record \<open>Store\<close> of its methods; the
  locale \<open>kv_store\<close> is the contract between an implementation and its clients: on every
  branch, what the method returns and what the abstract map becomes.
\<close>

section \<open>The abstract versioned map\<close>

record kv =
  kv_map :: "string \<Rightarrow> Entry option"
  kv_rev :: u64

definition kv_empty :: kv where
  "kv_empty = \<lparr>kv_map = (\<lambda>_. None), kv_rev = 0\<rparr>"

text \<open>The entry a put creates: it keeps the creation revision and counts the versions.\<close>

definition kv_next :: "kv \<Rightarrow> string \<Rightarrow> bytes \<Rightarrow> Entry" where
  "kv_next s k v = (let r = kv_rev s + 1 in
     \<lparr>eKey = k, eValue = v, eRevision = r,
      eCreateRevision = (case kv_map s k of None \<Rightarrow> r | Some p \<Rightarrow> eCreateRevision p),
      eModRevision = r,
      eVersion = (case kv_map s k of None \<Rightarrow> 1 | Some p \<Rightarrow> eVersion p + 1)\<rparr>)"

definition kv_put :: "kv \<Rightarrow> string \<Rightarrow> bytes \<Rightarrow> kv" where
  "kv_put s k v = \<lparr>kv_map = (kv_map s)(k \<mapsto> norm_entry (kv_next s k v)), kv_rev = kv_rev s + 1\<rparr>"

definition kv_delete :: "kv \<Rightarrow> string \<Rightarrow> kv" where
  "kv_delete s k = \<lparr>kv_map = (kv_map s)(k := None), kv_rev = kv_rev s + 1\<rparr>"

definition kv_list :: "kv \<Rightarrow> string \<Rightarrow> Entry list" where
  "kv_list s p = map (\<lambda>k. the (kv_map s k))
     (sorted_list_of_set {k. kv_map s k \<noteq> None \<and> HasPrefix k p})"

section \<open>The interface and its contract\<close>

record 's Store =
  st_Put :: "'s \<Rightarrow> string \<Rightarrow> bytes \<Rightarrow> (err + PutResult) \<times> 's"
  st_Get :: "'s \<Rightarrow> string \<Rightarrow> err + Entry"
  st_Delete :: "'s \<Rightarrow> string \<Rightarrow> (err + Entry) \<times> 's"
  st_List :: "'s \<Rightarrow> string \<Rightarrow> err + Entry list"
  st_Rev :: "'s \<Rightarrow> u64"

text \<open>
  \<open>max_rev\<close> is the largest 64-bit revision: below it the counter does not wrap.
  An operation that fails may still have advanced the revision, never the entries.
\<close>

definition max_rev :: u64 where
  "max_rev = 0xFFFFFFFFFFFFFFFF"

locale kv_store =
  fixes S :: "'s Store" and abs :: "'s \<Rightarrow> kv" and invar :: "'s \<Rightarrow> bool"
  assumes put_ok: "invar s \<Longrightarrow> kv_rev (abs s) < max_rev \<Longrightarrow> st_Put S s k v = (Inr res, s') \<Longrightarrow>
      invar s' \<and> abs s' = kv_put (abs s) k v \<and>
      res = \<lparr>prEntry = Some (kv_next (abs s) k v), prPrevEntry = kv_map (abs s) k\<rparr>"
    and put_err: "invar s \<Longrightarrow> kv_rev (abs s) < max_rev \<Longrightarrow> st_Put S s k v = (Inl er, s') \<Longrightarrow>
      invar s' \<and> kv_map (abs s') = kv_map (abs s) \<and> kv_rev (abs s') \<in> {kv_rev (abs s), kv_rev (abs s) + 1}"
    and delete_ok: "invar s \<Longrightarrow> kv_rev (abs s) < max_rev \<Longrightarrow> st_Delete S s k = (Inr d, s') \<Longrightarrow>
      invar s' \<and> abs s' = kv_delete (abs s) k \<and>
      (\<exists>p. kv_map (abs s) k = Some p \<and> d = p\<lparr>eRevision := kv_rev (abs s) + 1\<rparr>)"
    and delete_err: "invar s \<Longrightarrow> kv_rev (abs s) < max_rev \<Longrightarrow> st_Delete S s k = (Inl er, s') \<Longrightarrow>
      invar s' \<and> kv_map (abs s') = kv_map (abs s) \<and> kv_rev (abs s') \<in> {kv_rev (abs s), kv_rev (abs s) + 1}"
    and delete_missing: "invar s \<Longrightarrow> kv_map (abs s) k = None \<Longrightarrow>
      st_Delete S s k = (Inl ErrKeyNotFound, s)"
    and get_spec: "invar s \<Longrightarrow> st_Get S s k =
      (case kv_map (abs s) k of None \<Rightarrow> Inl ErrKeyNotFound | Some e \<Rightarrow> Inr e)"
    and list_spec: "invar s \<Longrightarrow> st_List S s p = Inr (kv_list (abs s) p)"
    and rev_spec: "st_Rev S s = kv_rev (abs s)"
    and keys_ok: "invar s \<Longrightarrow> kv_map (abs s) k = Some e \<Longrightarrow>
      eKey e = utf8_coerce k \<and> eRevision e = eModRevision e \<and> eModRevision e \<le> kv_rev (abs s)"
    and finite_keys: "invar s \<Longrightarrow> finite {k. kv_map (abs s) k \<noteq> None}"
begin

text \<open>Read-your-writes: what a successful put wrote is what the next get returns.\<close>

lemma get_after_put:
  assumes "invar s" "kv_rev (abs s) < max_rev" "st_Put S s k v = (Inr res, s')"
  shows "st_Get S s' k = Inr (norm_entry (kv_next (abs s) k v))"
    and "k' \<noteq> k \<Longrightarrow> st_Get S s' k' = st_Get S s k'"
  using put_ok [OF assms] assms(1) by (auto simp: get_spec kv_put_def)

lemma get_after_delete:
  assumes "invar s" "kv_rev (abs s) < max_rev" "st_Delete S s k = (Inr d, s')"
  shows "st_Get S s' k = Inl ErrKeyNotFound"
    and "k' \<noteq> k \<Longrightarrow> st_Get S s' k' = st_Get S s k'"
  using delete_ok [OF assms] assms(1) by (auto simp: get_spec kv_delete_def)

text \<open>A successful write moves the revision by exactly one, a failing one at most by one.\<close>

lemma rev_after_put:
  assumes "invar s" "kv_rev (abs s) < max_rev"
  shows "st_Put S s k v = (Inr res, s') \<Longrightarrow> st_Rev S s' = st_Rev S s + 1"
    and "st_Put S s k v = (Inl e, s') \<Longrightarrow> st_Rev S s' \<in> {st_Rev S s, st_Rev S s + 1}"
  using put_ok [OF assms] put_err [OF assms] by (auto simp: rev_spec kv_put_def)

lemma mem_list:
  assumes "invar s"
  shows "\<exists>es. st_List S s p = Inr es \<and> set es = {e. \<exists>k. kv_map (abs s) k = Some e \<and> HasPrefix k p}"
proof -
  have "finite {k. kv_map (abs s) k \<noteq> None \<and> HasPrefix k p}"
    by (rule finite_subset [OF _ finite_keys [OF assms]]) auto
  then have "set (kv_list (abs s) p) = {e. \<exists>k. kv_map (abs s) k = Some e \<and> HasPrefix k p}"
    by (force simp: kv_list_def)
  with list_spec [OF assms, of p] show ?thesis by auto
qed

end

lemma strict_sorted_list_of_set_keys: "sorted_wrt (<) (sorted_list_of_set (K :: string set))"
  by (simp add: strict_sorted_iff)

text \<open>A strictly sorted list of keys is determined by its set.\<close>

lemma strict_sorted_list_of_set:
  fixes ks :: "string list"
  assumes "sorted_wrt (<) ks"
  shows "ks = sorted_list_of_set (set ks)"
  using assms sorted_list_of_set.idem_if_sorted_distinct strict_sorted_iff by metis

end
