(* ===== verification/Bolt_Store.thy ===== *)
theory Bolt_Store
  imports Kv_Spec
begin

text \<open>
  \<^verbatim>\<open>store/bolt.go\<close>: the versioned store over bbolt. The bbolt library is a parameter, the record
  \<open>bolt\<close> of the calls the code makes on a transaction; the locale \<open>bolt_api\<close> states its
  documented behaviour. The operations follow the Go methods (each runs under the store's
  mutex, so each is one atomic step), including the places where they can fail: a rejected
  key, a commit that does not reach the disk. \<open>bs_wf\<close> is the invariant that every operation
  keeps whatever fails; \<open>bs_synced\<close> is the agreement of the cached revision with the disk.
\<close>

section \<open>The bbolt interface\<close>

text \<open>
  A transaction is a private copy \<open>'db\<close> of the database: reads and writes inside
  \<^verbatim>\<open>db.Update(fn)\<close> go to it, and \<open>tx_commit\<close> makes it the database or fails, in which case
  the transaction is rolled back. \<open>tx_seek\<close> lists the pairs a cursor yields from \<^verbatim>\<open>Seek\<close>
  onwards.
\<close>

record 'db bolt =
  tx_create :: "'db \<Rightarrow> string \<Rightarrow> err + 'db"
  tx_get :: "'db \<Rightarrow> string \<Rightarrow> string \<Rightarrow> string option"
  tx_put :: "'db \<Rightarrow> string \<Rightarrow> string \<Rightarrow> string \<Rightarrow> err + 'db"
  tx_delete :: "'db \<Rightarrow> string \<Rightarrow> string \<Rightarrow> err + 'db"
  tx_seek :: "'db \<Rightarrow> string \<Rightarrow> string \<Rightarrow> (string \<times> string) list"
  tx_commit :: "'db \<Rightarrow> err + 'db"
  db_close :: "'db \<Rightarrow> err option"

locale bolt_api =
  fixes B :: "'db bolt"
  assumes create_get: "tx_create B d b = Inr d' \<Longrightarrow> tx_get B d' b' k = tx_get B d b' k"
    and put_get: "tx_put B d b k v = Inr d' \<Longrightarrow>
      tx_get B d' b' k' = (if b' = b \<and> k' = k then Some v else tx_get B d b' k')"
    and put_blank: "tx_put B d b [] v = Inl (ErrLib ''key required'')"
    and delete_get: "tx_delete B d b k = Inr d' \<Longrightarrow>
      tx_get B d' b' k' = (if b' = b \<and> k' = k then None else tx_get B d b' k')"
    and commit_get: "tx_commit B d = Inr d' \<Longrightarrow> tx_get B d' b k = tx_get B d b k"
    and seek_set: "set (tx_seek B d b p) = {(k, v). tx_get B d b k = Some v \<and> p \<le> k}"
    and seek_sorted: "sorted_wrt (<) (map fst (tx_seek B d b p))"

section \<open>State and operations\<close>

definition bucketData :: string where "bucketData = ''data''"
definition bucketMeta :: string where "bucketMeta = ''meta''"
definition keyRev :: string where "keyRev = ''rev''"

lemma buckets_differ [simp]: "bucketData \<noteq> bucketMeta" "bucketMeta \<noteq> bucketData"
  by (simp_all add: bucketData_def bucketMeta_def)

record 'db BoltStore =
  bs_db :: 'db
  bs_rev :: u64

text \<open>
  \<^verbatim>\<open>NewBoltStore\<close>: its argument is what \<^verbatim>\<open>bolt.Open\<close> returned. The two buckets are created in
  one transaction; the revision is read from the meta bucket, where a value of fewer than
  eight bytes makes \<^verbatim>\<open>binary.BigEndian.Uint64\<close> panic.
\<close>

definition NewBoltStore :: "'db bolt \<Rightarrow> err + 'db \<Rightarrow> err + 'db BoltStore" where
  "NewBoltStore B opened =
     (case opened of Inl e \<Rightarrow> Inl (Wrap ''open bolt db'' e) | Inr db \<Rightarrow>
       (case tx_create B db bucketData of Inl e \<Rightarrow> Inl e | Inr tx1 \<Rightarrow>
         (case tx_create B tx1 bucketMeta of Inl e \<Rightarrow> Inl e | Inr tx2 \<Rightarrow>
           (case tx_commit B tx2 of Inl e \<Rightarrow> Inl e | Inr db' \<Rightarrow>
             (case tx_get B db' bucketMeta keyRev of
                None \<Rightarrow> Inr \<lparr>bs_db = db', bs_rev = 0\<rparr>
              | Some v \<Rightarrow> (case Uint64 v of
                    None \<Rightarrow> Inl (Panic ''index out of range'')
                  | Some r \<Rightarrow> Inr \<lparr>bs_db = db', bs_rev = r\<rparr>))))))"

text \<open>The entry that \<^verbatim>\<open>Put\<close> writes at a new revision, from the previous one if any.\<close>

definition put_entry :: "string \<Rightarrow> bytes \<Rightarrow> u64 \<Rightarrow> Entry option \<Rightarrow> Entry" where
  "put_entry key val newRev prev =
     (case prev of
        Some p \<Rightarrow> \<lparr>eKey = key, eValue = val, eRevision = newRev,
          eCreateRevision = eCreateRevision p, eModRevision = newRev, eVersion = eVersion p + 1\<rparr>
      | None \<Rightarrow> \<lparr>eKey = key, eValue = val, eRevision = newRev,
          eCreateRevision = newRev, eModRevision = newRev, eVersion = 1\<rparr>)"

text \<open>The previous entry under a key, as the transaction of \<^verbatim>\<open>Put\<close> reads it.\<close>

definition read_prev :: "'db bolt \<Rightarrow> 'db \<Rightarrow> string \<Rightarrow> err + Entry option" where
  "read_prev B tx key =
     (case tx_get B tx bucketData key of None \<Rightarrow> Inr None
      | Some raw \<Rightarrow> (case unmarshal_entry raw of
            Inl e \<Rightarrow> Inl (Wrap ''unmarshal prev entry'' e) | Inr e \<Rightarrow> Inr (Some e)))"

text \<open>
  The function that \<^verbatim>\<open>Put\<close> passes to \<^verbatim>\<open>db.Update\<close>: the transaction after it, the revision it
  assigns to \<^verbatim>\<open>s.rev\<close>, and the result.
\<close>

definition bs_put_tx ::
  "'db bolt \<Rightarrow> 'db \<Rightarrow> u64 \<Rightarrow> string \<Rightarrow> bytes \<Rightarrow> err + 'db \<times> u64 \<times> PutResult" where
  "bs_put_tx B tx rv key val =
     (case read_prev B tx key of Inl e \<Rightarrow> Inl e | Inr prev \<Rightarrow>
       (let newRev = rv + 1; entry = put_entry key val newRev prev in
        (case tx_put B tx bucketData key (marshal_entry entry) of Inl e \<Rightarrow> Inl e | Inr tx1 \<Rightarrow>
          (case tx_put B tx1 bucketMeta keyRev (PutUint64 newRev) of Inl e \<Rightarrow> Inl e | Inr tx2 \<Rightarrow>
            Inr (tx2, newRev, \<lparr>prEntry = Some entry, prPrevEntry = prev\<rparr>)))))"

text \<open>
  \<^verbatim>\<open>Put\<close>. The function assigns \<^verbatim>\<open>s.rev\<close> before \<^verbatim>\<open>db.Update\<close> commits, so a failing commit
  leaves the new revision in memory. (On an error the Go method also returns its partly
  filled result, which no caller reads.)
\<close>

definition bs_Put ::
  "'db bolt \<Rightarrow> 'db BoltStore \<Rightarrow> string \<Rightarrow> bytes \<Rightarrow> (err + PutResult) \<times> 'db BoltStore" where
  "bs_Put B s key val =
     (case bs_put_tx B (bs_db s) (bs_rev s) key val of
        Inl e \<Rightarrow> (Inl e, s)
      | Inr (tx, newRev, res) \<Rightarrow> (case tx_commit B tx of
            Inl e \<Rightarrow> (Inl e, s\<lparr>bs_rev := newRev\<rparr>)
          | Inr db' \<Rightarrow> (Inr res, \<lparr>bs_db = db', bs_rev = newRev\<rparr>)))"

definition bs_Get :: "'db bolt \<Rightarrow> 'db BoltStore \<Rightarrow> string \<Rightarrow> err + Entry" where
  "bs_Get B s key = (case tx_get B (bs_db s) bucketData key of
      None \<Rightarrow> Inl ErrKeyNotFound | Some raw \<Rightarrow> unmarshal_entry raw)"

definition bs_delete_tx :: "'db bolt \<Rightarrow> 'db \<Rightarrow> u64 \<Rightarrow> string \<Rightarrow> err + 'db \<times> u64 \<times> Entry" where
  "bs_delete_tx B tx rv key =
     (case tx_get B tx bucketData key of None \<Rightarrow> Inl ErrKeyNotFound | Some raw \<Rightarrow>
       (case unmarshal_entry raw of Inl e \<Rightarrow> Inl e | Inr deleted \<Rightarrow>
         (case tx_delete B tx bucketData key of Inl e \<Rightarrow> Inl e | Inr tx1 \<Rightarrow>
           (let newRev = rv + 1 in
            (case tx_put B tx1 bucketMeta keyRev (PutUint64 newRev) of Inl e \<Rightarrow> Inl e | Inr tx2 \<Rightarrow>
              Inr (tx2, newRev, deleted\<lparr>eRevision := newRev\<rparr>))))))"

definition bs_Delete ::
  "'db bolt \<Rightarrow> 'db BoltStore \<Rightarrow> string \<Rightarrow> (err + Entry) \<times> 'db BoltStore" where
  "bs_Delete B s key =
     (case bs_delete_tx B (bs_db s) (bs_rev s) key of
        Inl e \<Rightarrow> (Inl e, s)
      | Inr (tx, newRev, deleted) \<Rightarrow> (case tx_commit B tx of
            Inl e \<Rightarrow> (Inl e, s\<lparr>bs_rev := newRev\<rparr>)
          | Inr db' \<Rightarrow> (Inr deleted, \<lparr>bs_db = db', bs_rev = newRev\<rparr>)))"

text \<open>
  The cursor loop of \<^verbatim>\<open>List\<close>: it stops at the first key without the prefix, and an entry that
  does not decode ends it with an error.
\<close>

fun list_loop :: "string \<Rightarrow> (string \<times> string) list \<Rightarrow> err + Entry list" where
  "list_loop prefix [] = Inr []"
| "list_loop prefix ((k, v) # rest) =
     (if HasPrefix k prefix then
        (case unmarshal_entry v of Inl e \<Rightarrow> Inl e
         | Inr entry \<Rightarrow> (case list_loop prefix rest of Inl e \<Rightarrow> Inl e | Inr es \<Rightarrow> Inr (entry # es)))
      else Inr [])"

definition bs_List :: "'db bolt \<Rightarrow> 'db BoltStore \<Rightarrow> string \<Rightarrow> err + Entry list" where
  "bs_List B s prefix = list_loop prefix (tx_seek B (bs_db s) bucketData prefix)"

definition bs_Rev :: "'db BoltStore \<Rightarrow> u64" where
  "bs_Rev s = bs_rev s"

definition bs_Close :: "'db bolt \<Rightarrow> 'db BoltStore \<Rightarrow> err option" where
  "bs_Close B s = db_close B (bs_db s)"

section \<open>Well-formed states\<close>

text \<open>What the operations maintain about an entry stored under its key, at revision \<open>r\<close>.\<close>

definition entry_ok :: "u64 \<Rightarrow> Entry \<Rightarrow> bool" where
  "entry_ok r e \<longleftrightarrow> eRevision e = eModRevision e \<and> 0 < eCreateRevision e \<and>
     eCreateRevision e \<le> eModRevision e \<and> eModRevision e \<le> r \<and> 0 < eVersion e \<and>
     unat (eVersion e) \<le> unat (eModRevision e) - unat (eCreateRevision e) + 1"

definition disk_rev :: "'db bolt \<Rightarrow> 'db \<Rightarrow> u64 option" where
  "disk_rev B db = (case tx_get B db bucketMeta keyRev of None \<Rightarrow> Some 0 | Some v \<Rightarrow> Uint64 v)"

text \<open>What a store holds: the entries by key, each as it reads back.\<close>

definition bs_entries :: "'db bolt \<Rightarrow> 'db BoltStore \<Rightarrow> string \<Rightarrow> Entry option" where
  "bs_entries B s k = (case tx_get B (bs_db s) bucketData k of None \<Rightarrow> None
     | Some raw \<Rightarrow> (case unmarshal_entry raw of Inl _ \<Rightarrow> None | Inr e \<Rightarrow> Some e))"

definition bs_wf :: "'db bolt \<Rightarrow> 'db BoltStore \<Rightarrow> bool" where
  "bs_wf B s \<longleftrightarrow>
     (\<exists>r. disk_rev B (bs_db s) = Some r \<and> r \<le> bs_rev s \<and>
        (\<forall>k raw. tx_get B (bs_db s) bucketData k = Some raw \<longrightarrow>
           (\<exists>e. raw = marshal_entry e \<and> eKey e = k \<and> entry_ok r e))) \<and>
     (\<forall>k k' e e'. bs_entries B s k = Some e \<and> bs_entries B s k' = Some e' \<and>
        eModRevision e = eModRevision e' \<longrightarrow> k = k')"

definition bs_synced :: "'db bolt \<Rightarrow> 'db BoltStore \<Rightarrow> bool" where
  "bs_synced B s \<longleftrightarrow> bs_wf B s \<and> disk_rev B (bs_db s) = Some (bs_rev s)"

definition bs_abs :: "'db bolt \<Rightarrow> 'db BoltStore \<Rightarrow> kv" where
  "bs_abs B s = \<lparr>kv_map = bs_entries B s, kv_rev = bs_rev s\<rparr>"

lemma bs_abs_simps [simp]: "kv_map (bs_abs B s) = bs_entries B s" "kv_rev (bs_abs B s) = bs_rev s"
  by (simp_all add: bs_abs_def)

section \<open>Revisions that do not wrap\<close>

lemma below_max: "r < max_rev \<Longrightarrow> unat (r + 1) = unat r + 1"
  by (rule unat_Suc_u64) (simp add: max_rev_def word_less_nat_alt)

lemma below_max_less: "r < max_rev \<Longrightarrow> r < r + 1"
  by (simp add: word_less_nat_alt below_max)

lemma entry_ok_mono: "entry_ok r e \<Longrightarrow> r \<le> r' \<Longrightarrow> entry_ok r' e"
  by (auto simp: entry_ok_def)

lemma entry_ok_norm [simp]: "entry_ok r (norm_entry e) = entry_ok r e"
  by (simp add: entry_ok_def)

lemma entry_ok_version: "entry_ok r e \<Longrightarrow> r < max_rev \<Longrightarrow> unat (eVersion e + 1) = unat (eVersion e) + 1"
proof -
  assume ok: "entry_ok r e" and "r < max_rev"
  have "unat (eModRevision e) \<le> unat r" "0 < unat (eCreateRevision e)"
    using ok by (auto simp: entry_ok_def word_le_nat_alt word_less_nat_alt)
  then have "eVersion e \<le> r" using ok by (auto simp: entry_ok_def word_le_nat_alt)
  then have "eVersion e < max_rev" using \<open>r < max_rev\<close> by (rule le_less_trans)
  then show ?thesis by (rule below_max)
qed

lemma put_entry_ok:
  assumes "r < max_rev" and "\<And>p. prev = Some p \<Longrightarrow> entry_ok r p"
  shows "entry_ok (r + 1) (put_entry k v (r + 1) prev)"
proof (cases prev)
  case None
  then show ?thesis
    using below_max_less [OF assms(1)]
    by (auto simp: put_entry_def entry_ok_def word_less_nat_alt word_le_nat_alt)
next
  case (Some p)
  then have ok: "entry_ok r p" using assms(2) by simp
  have v: "unat (eVersion p + 1) = unat (eVersion p) + 1"
    using ok assms(1) by (rule entry_ok_version)
  show ?thesis
    using Some ok v below_max [OF assms(1)]
    by (auto simp: put_entry_def entry_ok_def word_less_nat_alt word_le_nat_alt)
qed

section \<open>Correctness against the bbolt contract\<close>

context bolt_api
begin

lemma wf_raw:
  assumes "bs_wf B s" and "tx_get B (bs_db s) bucketData k = Some raw"
  obtains e where "raw = marshal_entry e" "eKey e = k" "entry_ok (bs_rev s) e"
    "unmarshal_entry raw = Inr (norm_entry e)" "bs_entries B s k = Some (norm_entry e)"
proof -
  obtain e where "raw = marshal_entry e" "eKey e = k" "entry_ok (bs_rev s) e"
    using assms unfolding bs_wf_def by (meson entry_ok_mono)
  then show ?thesis
    using that [of e] assms(2) by (simp add: bs_entries_def unmarshal_entry_marshal)
qed

lemma wf_raw_later: "bs_wf B s \<Longrightarrow> tx_get B (bs_db s) bucketData k = Some raw \<Longrightarrow> bs_rev s \<le> r \<Longrightarrow>
    \<exists>e. raw = marshal_entry e \<and> eKey e = k \<and> entry_ok r e"
  by (metis wf_raw entry_ok_mono)

lemma wf_get_iff: "bs_wf B s \<Longrightarrow> bs_entries B s k = None \<longleftrightarrow> tx_get B (bs_db s) bucketData k = None"
  by (cases "tx_get B (bs_db s) bucketData k") (auto simp: bs_entries_def elim: wf_raw)

lemma wf_entry: "bs_wf B s \<Longrightarrow> bs_entries B s k = Some e \<Longrightarrow>
    entry_ok (bs_rev s) e \<and> eKey e = utf8_coerce k"
  by (cases "tx_get B (bs_db s) bucketData k") (auto simp: bs_entries_def dest: wf_get_iff elim!: wf_raw)

lemma wf_mod_le: "bs_wf B s \<Longrightarrow> bs_entries B s k = Some e \<Longrightarrow> eModRevision e \<le> bs_rev s"
  using wf_entry unfolding entry_ok_def by blast

lemma wf_mod_inj: "bs_wf B s \<Longrightarrow> bs_entries B s k1 = Some e1 \<Longrightarrow> bs_entries B s k2 = Some e2 \<Longrightarrow>
    eModRevision e1 = eModRevision e2 \<Longrightarrow> k1 = k2"
  unfolding bs_wf_def by blast

lemma read_prev_wf: "bs_wf B s \<Longrightarrow> read_prev B (bs_db s) k = Inr (bs_entries B s k)"
  by (cases "tx_get B (bs_db s) bucketData k") (auto simp: read_prev_def bs_entries_def elim: wf_raw)

lemma bs_Get_wf: "bs_wf B s \<Longrightarrow>
    bs_Get B s k = (case bs_entries B s k of None \<Rightarrow> Inl ErrKeyNotFound | Some e \<Rightarrow> Inr e)"
  by (cases "tx_get B (bs_db s) bucketData k") (auto simp: bs_Get_def bs_entries_def elim: wf_raw)

text \<open>The two transactions, by what can be read after them.\<close>

lemma bs_put_tx_ok:
  assumes "bs_wf B s" and "bs_put_tx B (bs_db s) (bs_rev s) k v = Inr (tx, newRev, res)"
  shows "newRev = bs_rev s + 1"
    and "res = \<lparr>prEntry = Some (put_entry k v newRev (bs_entries B s k)), prPrevEntry = bs_entries B s k\<rparr>"
    and "tx_get B tx b k' =
      (if b = bucketMeta \<and> k' = keyRev then Some (PutUint64 newRev)
       else if b = bucketData \<and> k' = k then Some (marshal_entry (put_entry k v newRev (bs_entries B s k)))
       else tx_get B (bs_db s) b k')"
  using assms(2)
  by (auto simp: bs_put_tx_def read_prev_wf [OF assms(1)] Let_def put_get split: sum.splits)

lemma bs_delete_tx_ok:
  assumes "bs_wf B s" and "bs_delete_tx B (bs_db s) (bs_rev s) k = Inr (tx, newRev, d)"
  shows "newRev = bs_rev s + 1"
    and "\<exists>p. bs_entries B s k = Some p \<and> d = p\<lparr>eRevision := newRev\<rparr>"
    and "tx_get B tx b k' =
      (if b = bucketMeta \<and> k' = keyRev then Some (PutUint64 newRev)
       else if b = bucketData \<and> k' = k then None
       else tx_get B (bs_db s) b k')"
  using assms(2)
  by (auto simp: bs_delete_tx_def bs_entries_def Let_def put_get delete_get
      split: sum.splits option.splits)

text \<open>A database whose reads differ by one written or removed entry and the new revision.\<close>

lemma written_wf:
  assumes wf: "bs_wf B s" and r: "bs_rev s < max_rev"
    and get: "\<And>b k'. tx_get B d b k' =
      (if b = bucketMeta \<and> k' = keyRev then Some (PutUint64 (bs_rev s + 1))
       else if b = bucketData \<and> k' = k
         then Some (marshal_entry (put_entry k v (bs_rev s + 1) (bs_entries B s k)))
       else tx_get B (bs_db s) b k')"
  defines "s' \<equiv> \<lparr>bs_db = d, bs_rev = bs_rev s + 1\<rparr>"
    and "e \<equiv> put_entry k v (bs_rev s + 1) (bs_entries B s k)"
  shows "bs_entries B s' = (bs_entries B s)(k \<mapsto> norm_entry e)" and "bs_synced B s'"
proof -
  show ent: "bs_entries B s' = (bs_entries B s)(k \<mapsto> norm_entry e)"
    by (auto simp: fun_eq_iff bs_entries_def s'_def e_def get unmarshal_entry_marshal)
  have less: "bs_rev s \<le> bs_rev s + 1" "\<not> bs_rev s + 1 \<le> bs_rev s"
    using below_max_less [OF r] by auto
  have e: "entry_ok (bs_rev s + 1) e" "eKey e = k" "eModRevision e = bs_rev s + 1"
    using put_entry_ok [OF r] wf_entry [OF wf] by (auto simp: e_def put_entry_def split: option.splits)
  have "tx_get B d bucketData k' = Some raw \<Longrightarrow>
      \<exists>e'. raw = marshal_entry e' \<and> eKey e' = k' \<and> entry_ok (bs_rev s + 1) e'" for k' raw
    using wf_raw_later [OF wf _ less(1)] e by (auto simp: get e_def split: if_splits)
  moreover have "bs_entries B s' k1 = Some e1 \<Longrightarrow> bs_entries B s' k2 = Some e2 \<Longrightarrow>
      eModRevision e1 = eModRevision e2 \<Longrightarrow> k1 = k2" for k1 k2 e1 e2
    using wf_mod_inj [OF wf] wf_mod_le [OF wf] e(3) less(2)
    by (simp add: ent split: if_splits) (metis norm_entry_simps(4))+
  moreover have "disk_rev B d = Some (bs_rev s + 1)"
    by (simp add: disk_rev_def get Uint64_PutUint64)
  ultimately show "bs_synced B s'"
    unfolding bs_synced_def bs_wf_def s'_def by auto
qed

lemma removed_wf:
  assumes wf: "bs_wf B s" and r: "bs_rev s < max_rev"
    and get: "\<And>b k'. tx_get B d b k' =
      (if b = bucketMeta \<and> k' = keyRev then Some (PutUint64 (bs_rev s + 1))
       else if b = bucketData \<and> k' = k then None else tx_get B (bs_db s) b k')"
  defines "s' \<equiv> \<lparr>bs_db = d, bs_rev = bs_rev s + 1\<rparr>"
  shows "bs_entries B s' = (bs_entries B s)(k := None)" and "bs_synced B s'"
proof -
  show ent: "bs_entries B s' = (bs_entries B s)(k := None)"
    by (auto simp: fun_eq_iff bs_entries_def s'_def get)
  have less: "bs_rev s \<le> bs_rev s + 1" using below_max_less [OF r] by auto
  have "tx_get B d bucketData k' = Some raw \<Longrightarrow>
      \<exists>e'. raw = marshal_entry e' \<and> eKey e' = k' \<and> entry_ok (bs_rev s + 1) e'" for k' raw
    using wf_raw_later [OF wf _ less] by (auto simp: get split: if_splits)
  moreover have "bs_entries B s' k1 = Some e1 \<Longrightarrow> bs_entries B s' k2 = Some e2 \<Longrightarrow>
      eModRevision e1 = eModRevision e2 \<Longrightarrow> k1 = k2" for k1 k2 e1 e2
    using wf_mod_inj [OF wf] by (simp add: ent split: if_splits)
  moreover have "disk_rev B d = Some (bs_rev s + 1)"
    by (simp add: disk_rev_def get Uint64_PutUint64)
  ultimately show "bs_synced B s'"
    unfolding bs_synced_def bs_wf_def s'_def by auto
qed

text \<open>Advancing only the cached revision, which is what a failed commit does.\<close>

lemma bumped_wf:
  assumes "bs_wf B s" and "bs_rev s < max_rev"
  shows "bs_wf B (s\<lparr>bs_rev := bs_rev s + 1\<rparr>)" and "bs_entries B (s\<lparr>bs_rev := bs_rev s + 1\<rparr>) = bs_entries B s"
proof -
  show ent: "bs_entries B (s\<lparr>bs_rev := bs_rev s + 1\<rparr>) = bs_entries B s"
    by (simp add: fun_eq_iff bs_entries_def)
  have "bs_rev s \<le> bs_rev s + 1" using below_max_less [OF assms(2)] by auto
  then show "bs_wf B (s\<lparr>bs_rev := bs_rev s + 1\<rparr>)"
    using assms(1) unfolding bs_wf_def ent by simp (meson order_trans)
qed

lemma bs_Put_cases:
  assumes wf: "bs_wf B s"
  obtains (tx_fails) er where "bs_put_tx B (bs_db s) (bs_rev s) k v = Inl er" "bs_Put B s k v = (Inl er, s)"
  | (commit_fails) er where "bs_Put B s k v = (Inl er, s\<lparr>bs_rev := bs_rev s + 1\<rparr>)"
  | (ok) tx d where "tx_commit B tx = Inr d"
      "bs_put_tx B (bs_db s) (bs_rev s) k v = Inr (tx, bs_rev s + 1,
         \<lparr>prEntry = Some (put_entry k v (bs_rev s + 1) (bs_entries B s k)), prPrevEntry = bs_entries B s k\<rparr>)"
      "bs_Put B s k v = (Inr \<lparr>prEntry = Some (put_entry k v (bs_rev s + 1) (bs_entries B s k)),
         prPrevEntry = bs_entries B s k\<rparr>, \<lparr>bs_db = d, bs_rev = bs_rev s + 1\<rparr>)"
proof (cases "bs_put_tx B (bs_db s) (bs_rev s) k v")
  case (Inl er)
  then show ?thesis using tx_fails by (simp add: bs_Put_def)
next
  case (Inr x)
  then obtain tx r res where x: "bs_put_tx B (bs_db s) (bs_rev s) k v = Inr (tx, r, res)"
    by (cases x) auto
  show ?thesis
    using commit_fails ok x bs_put_tx_ok(1,2) [OF wf x]
    by (cases "tx_commit B tx") (auto simp: bs_Put_def)
qed

lemma bs_Put_ok:
  assumes wf: "bs_wf B s" and r: "bs_rev s < max_rev" and put: "bs_Put B s k v = (Inr res, s')"
  shows "bs_synced B s'" and "bs_abs B s' = kv_put (bs_abs B s) k v"
    and "res = \<lparr>prEntry = Some (kv_next (bs_abs B s) k v), prPrevEntry = bs_entries B s k\<rparr>"
proof -
  have next_eq: "kv_next (bs_abs B s) k v = put_entry k v (bs_rev s + 1) (bs_entries B s k)"
    by (auto simp: kv_next_def put_entry_def Let_def split: option.splits)
  obtain tx d where d: "tx_commit B tx = Inr d"
    and tx: "bs_put_tx B (bs_db s) (bs_rev s) k v = Inr (tx, bs_rev s + 1, res)"
    and res: "res = \<lparr>prEntry = Some (kv_next (bs_abs B s) k v), prPrevEntry = bs_entries B s k\<rparr>"
    and s': "s' = \<lparr>bs_db = d, bs_rev = bs_rev s + 1\<rparr>"
    using put by (cases rule: bs_Put_cases [OF wf, of k v]) (auto simp: next_eq)
  have "tx_get B d b k' = (if b = bucketMeta \<and> k' = keyRev then Some (PutUint64 (bs_rev s + 1))
       else if b = bucketData \<and> k' = k
         then Some (marshal_entry (put_entry k v (bs_rev s + 1) (bs_entries B s k)))
       else tx_get B (bs_db s) b k')" for b k'
    using bs_put_tx_ok(3) [OF wf tx] commit_get [OF d] by simp
  from written_wf [OF wf r this] res
  show "bs_synced B s'" "bs_abs B s' = kv_put (bs_abs B s) k v"
    "res = \<lparr>prEntry = Some (kv_next (bs_abs B s) k v), prPrevEntry = bs_entries B s k\<rparr>"
    by (simp_all add: s' next_eq bs_abs_def [of B "\<lparr>bs_db = d, bs_rev = bs_rev s + 1\<rparr>"] kv_put_def)
qed

lemma bs_Put_err:
  assumes wf: "bs_wf B s" and r: "bs_rev s < max_rev" and put: "bs_Put B s k v = (Inl er, s')"
  shows "bs_wf B s'" and "bs_entries B s' = bs_entries B s" and "bs_rev s' \<in> {bs_rev s, bs_rev s + 1}"
  using put wf bumped_wf [OF wf r] by (cases rule: bs_Put_cases [OF wf, of k v]; auto)+

lemma bs_Delete_cases:
  assumes wf: "bs_wf B s"
  obtains (tx_fails) er where "bs_delete_tx B (bs_db s) (bs_rev s) k = Inl er" "bs_Delete B s k = (Inl er, s)"
  | (commit_fails) er where "bs_Delete B s k = (Inl er, s\<lparr>bs_rev := bs_rev s + 1\<rparr>)"
  | (ok) tx d p where "tx_commit B tx = Inr d" "bs_entries B s k = Some p"
      "bs_delete_tx B (bs_db s) (bs_rev s) k = Inr (tx, bs_rev s + 1, p\<lparr>eRevision := bs_rev s + 1\<rparr>)"
      "bs_Delete B s k = (Inr (p\<lparr>eRevision := bs_rev s + 1\<rparr>), \<lparr>bs_db = d, bs_rev = bs_rev s + 1\<rparr>)"
proof (cases "bs_delete_tx B (bs_db s) (bs_rev s) k")
  case (Inl er)
  then show ?thesis using tx_fails by (simp add: bs_Delete_def)
next
  case (Inr x)
  then obtain tx r del where x: "bs_delete_tx B (bs_db s) (bs_rev s) k = Inr (tx, r, del)"
    by (cases x) auto
  show ?thesis
    using commit_fails ok x bs_delete_tx_ok(1,2) [OF wf x]
    by (cases "tx_commit B tx") (auto simp: bs_Delete_def)
qed

lemma bs_Delete_ok:
  assumes wf: "bs_wf B s" and r: "bs_rev s < max_rev" and del: "bs_Delete B s k = (Inr e, s')"
  shows "bs_synced B s'" and "bs_abs B s' = kv_delete (bs_abs B s) k"
    and "\<exists>p. bs_entries B s k = Some p \<and> e = p\<lparr>eRevision := bs_rev s + 1\<rparr>"
proof -
  obtain tx d p where d: "tx_commit B tx = Inr d"
    and p: "bs_entries B s k = Some p" "e = p\<lparr>eRevision := bs_rev s + 1\<rparr>"
    and tx: "bs_delete_tx B (bs_db s) (bs_rev s) k = Inr (tx, bs_rev s + 1, e)"
    and s': "s' = \<lparr>bs_db = d, bs_rev = bs_rev s + 1\<rparr>"
    using del by (cases rule: bs_Delete_cases [OF wf, of k]) auto
  have "tx_get B d b k' = (if b = bucketMeta \<and> k' = keyRev then Some (PutUint64 (bs_rev s + 1))
       else if b = bucketData \<and> k' = k then None else tx_get B (bs_db s) b k')" for b k'
    using bs_delete_tx_ok(3) [OF wf tx] commit_get [OF d] by simp
  from removed_wf [OF wf r this] p
  show "bs_synced B s'" "bs_abs B s' = kv_delete (bs_abs B s) k"
    "\<exists>p. bs_entries B s k = Some p \<and> e = p\<lparr>eRevision := bs_rev s + 1\<rparr>"
    by (simp_all add: s' bs_abs_def [of B "\<lparr>bs_db = d, bs_rev = bs_rev s + 1\<rparr>"] kv_delete_def)
qed

lemma bs_Delete_err:
  assumes wf: "bs_wf B s" and r: "bs_rev s < max_rev" and del: "bs_Delete B s k = (Inl er, s')"
  shows "bs_wf B s'" and "bs_entries B s' = bs_entries B s" and "bs_rev s' \<in> {bs_rev s, bs_rev s + 1}"
  using del wf bumped_wf [OF wf r] by (cases rule: bs_Delete_cases [OF wf, of k]; auto)+

lemma bs_Delete_missing:
  assumes "bs_wf B s" and "bs_entries B s k = None"
  shows "bs_Delete B s k = (Inl ErrKeyNotFound, s)"
  using assms wf_get_iff by (simp add: bs_Delete_def bs_delete_tx_def)

text \<open>The cursor loop yields the entries under a prefix, in key order.\<close>

lemma list_loop_filter:
  assumes "bs_wf B s" and "\<And>k v. (k, v) \<in> set ps \<Longrightarrow> tx_get B (bs_db s) bucketData k = Some v \<and> p \<le> k"
    and "sorted_wrt (<) (map fst ps)"
  shows "list_loop p ps = Inr (map (\<lambda>k. the (bs_entries B s k)) (filter (\<lambda>k. HasPrefix k p) (map fst ps)))"
  using assms(2,3)
proof (induction ps)
  case (Cons kv ps)
  obtain k v where kv: "kv = (k, v)" by (cases kv)
  have g: "tx_get B (bs_db s) bucketData k = Some v" "p \<le> k" using Cons.prems(1) kv by auto
  obtain e where e: "unmarshal_entry v = Inr e" "bs_entries B s k = Some e"
    using wf_raw [OF assms(1) g(1)] by metis
  have later: "k \<le> k'" if "k' \<in> set (map fst ps)" for k'
    using Cons.prems(2) that kv by (auto intro: less_imp_le)
  have IH: "list_loop p ps = Inr (map (\<lambda>k. the (bs_entries B s k)) (filter (\<lambda>k. HasPrefix k p) (map fst ps)))"
    by (rule Cons.IH) (use Cons.prems in auto)
  show ?case
  proof (cases "HasPrefix k p")
    case True
    then show ?thesis using IH e kv by simp
  next
    case False
    then have "filter (\<lambda>k. HasPrefix k p) (map fst ps) = []"
      using later HasPrefix_between [OF g(2)] by (auto simp: filter_empty_conv)
    then show ?thesis using False kv by simp
  qed
qed simp

lemma finite_entries: "finite {k. bs_entries B s k \<noteq> None}"
proof -
  have "{k. bs_entries B s k \<noteq> None} \<subseteq> fst ` set (tx_seek B (bs_db s) bucketData [])"
    by (force simp: seek_set bs_entries_def image_iff split: option.splits)
  then show ?thesis by (rule finite_subset) simp
qed

lemma bs_List_spec:
  assumes "bs_wf B s"
  shows "bs_List B s p = Inr (kv_list (bs_abs B s) p)"
proof -
  let ?ks = "map fst (tx_seek B (bs_db s) bucketData p)"
  have "sorted_wrt (<) (filter (\<lambda>k. HasPrefix k p) ?ks)"
    using seek_sorted sorted_wrt_filter by blast
  moreover have "set (filter (\<lambda>k. HasPrefix k p) ?ks) = {k. bs_entries B s k \<noteq> None \<and> HasPrefix k p}"
    using wf_get_iff [OF assms] by (force simp: seek_set HasPrefix_le)
  ultimately have "filter (\<lambda>k. HasPrefix k p) ?ks
      = sorted_list_of_set {k. bs_entries B s k \<noteq> None \<and> HasPrefix k p}"
    using strict_sorted_list_of_set by metis
  then show ?thesis
    using list_loop_filter [OF assms, of "tx_seek B (bs_db s) bucketData p" p] seek_sorted
    by (simp add: bs_List_def kv_list_def seek_set)
qed

text \<open>
  Opening the file again: the store has the entries that were committed, the revision is the
  one on disk, and it is in step with the disk even if a commit had failed before.
\<close>

lemma NewBoltStore_reopen:
  assumes wf: "bs_wf B s" and same: "\<And>b k. tx_get B d b k = tx_get B (bs_db s) b k"
    and "tx_create B d bucketData = Inr t1" "tx_create B t1 bucketMeta = Inr t2" "tx_commit B t2 = Inr d'"
  obtains s' where "NewBoltStore B (Inr d) = Inr s'" "bs_synced B s'" "bs_entries B s' = bs_entries B s"
    "disk_rev B (bs_db s) = Some (bs_rev s')" "bs_rev s' \<le> bs_rev s"
proof -
  obtain r where r: "disk_rev B (bs_db s) = Some r" "r \<le> bs_rev s"
    and ents: "\<And>k raw. tx_get B (bs_db s) bucketData k = Some raw \<Longrightarrow>
      \<exists>e. raw = marshal_entry e \<and> eKey e = k \<and> entry_ok r e"
    using wf unfolding bs_wf_def by blast
  have get: "tx_get B d' b k = tx_get B (bs_db s) b k" for b k
    using assms(3-5) same by (simp add: commit_get create_get)
  let ?s = "\<lparr>bs_db = d', bs_rev = r\<rparr>"
  have dr: "disk_rev B d' = Some r" using r(1) by (simp add: disk_rev_def get)
  have ent: "bs_entries B ?s = bs_entries B s" by (simp add: fun_eq_iff bs_entries_def get)
  have "bs_synced B ?s"
    using ents wf_mod_inj [OF wf] unfolding bs_synced_def bs_wf_def ent by (simp add: dr get)
  moreover have "NewBoltStore B (Inr d) = Inr ?s"
    using assms(3-5) dr by (auto simp: NewBoltStore_def disk_rev_def split: option.splits)
  ultimately show ?thesis using that [of ?s] ent r by simp
qed

lemma empty_synced:
  assumes "\<And>b k. tx_get B d b k = None"
  shows "bs_synced B \<lparr>bs_db = d, bs_rev = 0\<rparr>"
  using assms by (simp add: bs_synced_def bs_wf_def disk_rev_def bs_entries_def)

end

section \<open>The store interface\<close>

text \<open>\<^verbatim>\<open>BoltStore\<close> as a value of the Go interface \<^verbatim>\<open>Store\<close>, and its proof of the contract.\<close>

definition bolt_ops :: "'db bolt \<Rightarrow> 'db BoltStore Store" where
  "bolt_ops B = \<lparr>st_Put = bs_Put B, st_Get = bs_Get B, st_Delete = bs_Delete B,
     st_List = bs_List B, st_Rev = bs_Rev\<rparr>"

lemma bolt_ops_simps [simp]:
  "st_Put (bolt_ops B) = bs_Put B" "st_Get (bolt_ops B) = bs_Get B" "st_Delete (bolt_ops B) = bs_Delete B"
  "st_List (bolt_ops B) = bs_List B" "st_Rev (bolt_ops B) = bs_Rev"
  by (simp_all add: bolt_ops_def)

sublocale bolt_api \<subseteq> bs: kv_store "bolt_ops B" "bs_abs B" "bs_wf B"
proof unfold_locales
  fix s k v res s' er d p e
  show "bs_wf B s \<Longrightarrow> kv_rev (bs_abs B s) < max_rev \<Longrightarrow> st_Put (bolt_ops B) s k v = (Inr res, s') \<Longrightarrow>
      bs_wf B s' \<and> bs_abs B s' = kv_put (bs_abs B s) k v \<and>
      res = \<lparr>prEntry = Some (kv_next (bs_abs B s) k v), prPrevEntry = kv_map (bs_abs B s) k\<rparr>"
    using bs_Put_ok by (auto simp: bs_synced_def)
  show "bs_wf B s \<Longrightarrow> kv_rev (bs_abs B s) < max_rev \<Longrightarrow> st_Put (bolt_ops B) s k v = (Inl er, s') \<Longrightarrow>
      bs_wf B s' \<and> kv_map (bs_abs B s') = kv_map (bs_abs B s) \<and>
      kv_rev (bs_abs B s') \<in> {kv_rev (bs_abs B s), kv_rev (bs_abs B s) + 1}"
    using bs_Put_err by auto
  show "bs_wf B s \<Longrightarrow> kv_rev (bs_abs B s) < max_rev \<Longrightarrow> st_Delete (bolt_ops B) s k = (Inr d, s') \<Longrightarrow>
      bs_wf B s' \<and> bs_abs B s' = kv_delete (bs_abs B s) k \<and>
      (\<exists>p. kv_map (bs_abs B s) k = Some p \<and> d = p\<lparr>eRevision := kv_rev (bs_abs B s) + 1\<rparr>)"
    using bs_Delete_ok by (auto simp: bs_synced_def)
  show "bs_wf B s \<Longrightarrow> kv_rev (bs_abs B s) < max_rev \<Longrightarrow> st_Delete (bolt_ops B) s k = (Inl er, s') \<Longrightarrow>
      bs_wf B s' \<and> kv_map (bs_abs B s') = kv_map (bs_abs B s) \<and>
      kv_rev (bs_abs B s') \<in> {kv_rev (bs_abs B s), kv_rev (bs_abs B s) + 1}"
    using bs_Delete_err by auto
  show "bs_wf B s \<Longrightarrow> kv_map (bs_abs B s) k = None \<Longrightarrow> st_Delete (bolt_ops B) s k = (Inl ErrKeyNotFound, s)"
    using bs_Delete_missing by simp
  show "bs_wf B s \<Longrightarrow> kv_map (bs_abs B s) k = Some e \<Longrightarrow>
      eKey e = utf8_coerce k \<and> eRevision e = eModRevision e \<and> eModRevision e \<le> kv_rev (bs_abs B s)"
    using wf_entry by (auto simp: entry_ok_def)
qed (simp_all add: bs_Get_wf bs_List_spec bs_Rev_def finite_entries [simplified])

end
