(* ===== verification/Mem_Bolt.thy ===== *)
theory Mem_Bolt
  imports Bolt_Store
begin

text \<open>
  An executable database with bbolt's documented behaviour, on which the contract
  \<open>bolt_api\<close> is interpreted and the concrete runs of the development are evaluated. Buckets are
  association lists, a cursor walks the keys in byte order, \<^verbatim>\<open>Put\<close> rejects a blank key (the
  limits on sizes are left out), and a commit fails when the data outgrows the space left on
  the device.
\<close>

record mem_db =
  mem_bucket :: "string \<Rightarrow> (string \<times> string) list"
  mem_quota :: nat

definition without :: "'k \<Rightarrow> ('k \<times> 'v) list \<Rightarrow> ('k \<times> 'v) list" where
  "without k xs = filter (\<lambda>(k', _). k' \<noteq> k) xs"

definition mem_put :: "mem_db \<Rightarrow> string \<Rightarrow> string \<Rightarrow> string \<Rightarrow> err + mem_db" where
  "mem_put d b k v =
     (if k = [] then Inl (ErrLib ''key required'')
      else Inr (d\<lparr>mem_bucket := (mem_bucket d)(b := (k, v) # without k (mem_bucket d b))\<rparr>))"

definition mem_delete :: "mem_db \<Rightarrow> string \<Rightarrow> string \<Rightarrow> err + mem_db" where
  "mem_delete d b k =
     Inr (d\<lparr>mem_bucket := (mem_bucket d)(b := without k (mem_bucket d b))\<rparr>)"

definition mem_seek :: "mem_db \<Rightarrow> string \<Rightarrow> string \<Rightarrow> (string \<times> string) list" where
  "mem_seek d b p = map (\<lambda>k. (k, the (map_of (mem_bucket d b) k)))
     (sort (remdups (filter (\<lambda>k. p \<le> k) (map fst (mem_bucket d b)))))"

definition mem_commit :: "mem_db \<Rightarrow> err + mem_db" where
  "mem_commit d = (if length (mem_bucket d bucketData) \<le> mem_quota d then Inr d
     else Inl (ErrLib ''no space left on device''))"

definition mem_bolt :: "mem_db bolt" where
  "mem_bolt = \<lparr>tx_create = (\<lambda>d b. Inr d), tx_get = (\<lambda>d b k. map_of (mem_bucket d b) k),
     tx_put = mem_put, tx_delete = mem_delete, tx_seek = mem_seek, tx_commit = mem_commit,
     db_close = (\<lambda>_. None)\<rparr>"

definition mem_empty :: "nat \<Rightarrow> mem_db" where
  "mem_empty q = \<lparr>mem_bucket = (\<lambda>_. []), mem_quota = q\<rparr>"

lemma mem_bolt_simps [simp]:
  "tx_create mem_bolt d b = Inr d" "tx_get mem_bolt d b k = map_of (mem_bucket d b) k"
  "tx_put mem_bolt = mem_put" "tx_delete mem_bolt = mem_delete" "tx_seek mem_bolt = mem_seek"
  "tx_commit mem_bolt = mem_commit" "db_close mem_bolt d = None"
  by (simp_all add: mem_bolt_def)

lemma map_of_without: "map_of (without k xs) k' = (if k' = k then None else map_of xs k')"
  by (induction xs) (auto simp: without_def)

lemma length_without: "length (without k xs) \<le> length xs"
  by (simp add: without_def)

lemma mem_bolt_api: "bolt_api mem_bolt"
proof unfold_locales
  fix d b p
  have "set (mem_seek d b p) = {(k, v). map_of (mem_bucket d b) k = Some v \<and> p \<le> k}"
    by (force simp: mem_seek_def weak_map_of_SomeI dest: map_of_SomeD)
  then show "set (tx_seek mem_bolt d b p) = {(k, v). tx_get mem_bolt d b k = Some v \<and> p \<le> k}"
    by simp
  show "sorted_wrt (<) (map fst (tx_seek mem_bolt d b p))"
    by (simp add: mem_seek_def comp_def strict_sorted_iff)
qed (auto simp: mem_put_def mem_delete_def mem_commit_def map_of_without split: if_splits)

interpretation mem: bolt_api mem_bolt
  by (rule mem_bolt_api)

definition mem_store :: "nat \<Rightarrow> mem_db BoltStore" where
  "mem_store q = \<lparr>bs_db = mem_empty q, bs_rev = 0\<rparr>"

lemma mem_store_synced: "bs_synced mem_bolt (mem_store q)"
  unfolding mem_store_def by (rule mem.empty_synced) (simp add: mem_empty_def)

text \<open>Writes on this database succeed as long as the key is not blank and there is space left.\<close>

definition mem_room :: "nat \<Rightarrow> mem_db BoltStore \<Rightarrow> bool" where
  "mem_room n s \<longleftrightarrow> length (mem_bucket (bs_db s) bucketData) + n \<le> mem_quota (bs_db s)"

lemma mem_room_store [simp]: "mem_room n (mem_store q) \<longleftrightarrow> n \<le> q"
  by (simp add: mem_room_def mem_store_def mem_empty_def)

lemma mem_Put_progress:
  assumes "bs_wf mem_bolt s" and "k \<noteq> []" and "mem_room (Suc n) s"
  shows "\<exists>res s'. bs_Put mem_bolt s k v = (Inr res, s') \<and> mem_room n s'"
  using assms(2,3) length_without [of k "mem_bucket (bs_db s) bucketData"]
  by (auto simp: bs_Put_def bs_put_tx_def mem.read_prev_wf [OF assms(1)] Let_def mem_put_def
      keyRev_def mem_commit_def mem_room_def)

lemma mem_Delete_progress:
  assumes "bs_wf mem_bolt s" and "bs_entries mem_bolt s k \<noteq> None" and "mem_room n s"
  shows "\<exists>d s'. bs_Delete mem_bolt s k = (Inr d, s') \<and> mem_room n s'"
proof -
  obtain raw where raw: "map_of (mem_bucket (bs_db s) bucketData) k = Some raw"
    using assms(2) mem.wf_get_iff [OF assms(1), of k] by auto
  then obtain e where e: "unmarshal_entry raw = Inr e"
    using mem.wf_raw [OF assms(1), of k raw] by (metis mem_bolt_simps(2))
  have "length (without k (mem_bucket (bs_db s) bucketData)) + n \<le> mem_quota (bs_db s)"
    using assms(3) length_without [of k "mem_bucket (bs_db s) bucketData"] by (simp add: mem_room_def)
  then show ?thesis
    by (simp add: bs_Delete_def bs_delete_tx_def raw e Let_def mem_put_def mem_delete_def
        keyRev_def mem_commit_def mem_room_def)
qed

section \<open>Properties of the bbolt store\<close>

text \<open>C1: a successful put is the abstract put. The entry written and returned carries the next
  global revision, keeps the creation revision of the key and counts its versions, the
  previous entry is returned with it; the next get under the key reads the entry back and
  every other key reads as before; the cached and the persisted revision agree. A failing
  put leaves every entry as it was.\<close>

theorem put_refines:
  assumes "bolt_api B" and "bs_wf B s" and "bs_rev s < max_rev" and "bs_Put B s k v = (r, s')"
  shows "case r of
      Inr res \<Rightarrow> bs_abs B s' = kv_put (bs_abs B s) k v \<and> bs_synced B s' \<and>
        res = \<lparr>prEntry = Some (kv_next (bs_abs B s) k v), prPrevEntry = kv_map (bs_abs B s) k\<rparr> \<and>
        bs_Get B s' k = Inr (norm_entry (kv_next (bs_abs B s) k v)) \<and>
        (\<forall>k'. k' \<noteq> k \<longrightarrow> bs_Get B s' k' = bs_Get B s k')
    | Inl e \<Rightarrow> bs_wf B s' \<and> (\<forall>k'. bs_Get B s' k' = bs_Get B s k')"
proof (cases r)
  case (Inr res)
  then have put: "bs_Put B s k v = (Inr res, s')" using assms(4) by simp
  note ok = bolt_api.bs_Put_ok [OF assms(1-3) put]
  have wf': "bs_wf B s'" using ok(1) by (simp add: bs_synced_def)
  have "bs_entries B s' = (bs_entries B s)(k \<mapsto> norm_entry (kv_next (bs_abs B s) k v))"
    using arg_cong [OF ok(2), of kv_map] by (simp add: kv_put_def)
  then show ?thesis
    using Inr ok wf' assms(1,2) by (simp add: bolt_api.bs_Get_wf)
next
  case (Inl e)
  then show ?thesis
    using assms bolt_api.bs_Put_err [OF assms(1-3)] by (simp add: bolt_api.bs_Get_wf)
qed

lemma mem_store_wf: "bs_wf mem_bolt (mem_store q)"
  using mem_store_synced by (simp add: bs_synced_def)

definition demo_put :: "(err + PutResult) \<times> mem_db BoltStore" where
  "demo_put = bs_Put mem_bolt (mem_store 8) ''app/db'' (Some ''v1'')"

lemma demo_put_ok:
  obtains res s' where "demo_put = (Inr res, s')" "mem_room 7 s'" "bs_rev (mem_store 8) < max_rev"
proof -
  have "bs_rev (mem_store 8) < max_rev" by (simp add: mem_store_def max_rev_def)
  then show ?thesis
    using mem_Put_progress [OF mem_store_wf, of "''app/db''" 7 8] that by (force simp: demo_put_def)
qed

theorem put_refines_witness:
  "bs_wf mem_bolt (mem_store 8) \<and> bs_rev (mem_store 8) < max_rev \<and>
   bs_Get mem_bolt (snd demo_put) ''app/db''
     = Inr (norm_entry (kv_next (bs_abs mem_bolt (mem_store 8)) ''app/db'' (Some ''v1'')))"
proof -
  obtain res s' where d: "demo_put = (Inr res, s')" and "bs_rev (mem_store 8) < max_rev"
    by (rule demo_put_ok)
  then show ?thesis
    using put_refines [OF mem_bolt_api mem_store_wf, of 8 "''app/db''" "Some ''v1''" "Inr res" s'] d mem_store_wf
    by (simp add: demo_put_def)
qed

text \<open>C2: a successful delete removes exactly the named key, advances the revision by one and
  returns the removed entry stamped with the new revision; deleting a missing key is
  \<^verbatim>\<open>ErrKeyNotFound\<close> and changes nothing; any other failure leaves the entries as they were.\<close>

theorem delete_refines:
  assumes "bolt_api B" and "bs_wf B s" and "bs_rev s < max_rev" and "bs_Delete B s k = (r, s')"
  shows "case r of
      Inr d \<Rightarrow> bs_abs B s' = kv_delete (bs_abs B s) k \<and> bs_synced B s' \<and>
        (\<exists>p. bs_Get B s k = Inr p \<and> d = p\<lparr>eRevision := bs_rev s + 1\<rparr>) \<and>
        bs_Get B s' k = Inl ErrKeyNotFound \<and> (\<forall>k'. k' \<noteq> k \<longrightarrow> bs_Get B s' k' = bs_Get B s k')
    | Inl e \<Rightarrow> bs_wf B s' \<and> (\<forall>k'. bs_Get B s' k' = bs_Get B s k') \<and>
        (bs_Get B s k = Inl ErrKeyNotFound \<longrightarrow> e = ErrKeyNotFound \<and> s' = s)"
proof (cases r)
  case (Inr d)
  then have del: "bs_Delete B s k = (Inr d, s')" using assms(4) by simp
  note ok = bolt_api.bs_Delete_ok [OF assms(1-3) del]
  have wf': "bs_wf B s'" using ok(1) by (simp add: bs_synced_def)
  have "bs_entries B s' = (bs_entries B s)(k := None)"
    using arg_cong [OF ok(2), of kv_map] by (simp add: kv_delete_def)
  then show ?thesis
    using Inr ok wf' assms(1,2) by (auto simp: bolt_api.bs_Get_wf)
next
  case (Inl e)
  have "bs_entries B s k = None \<Longrightarrow> e = ErrKeyNotFound \<and> s' = s"
    using bolt_api.bs_Delete_missing [OF assms(1,2)] assms(4) Inl by auto
  then show ?thesis
    using Inl assms bolt_api.bs_Delete_err [OF assms(1-3)]
    by (auto simp: bolt_api.bs_Get_wf split: option.splits)
qed

definition demo_delete :: "(err + Entry) \<times> mem_db BoltStore" where
  "demo_delete = bs_Delete mem_bolt (snd demo_put) ''app/db''"

lemma demo_put_state:
  "bs_synced mem_bolt (snd demo_put)" "mem_room 7 (snd demo_put)" "bs_rev (snd demo_put) = 1"
  "bs_entries mem_bolt (snd demo_put) ''app/db'' \<noteq> None"
proof -
  obtain res s' where d: "demo_put = (Inr res, s')" "mem_room 7 s'" "bs_rev (mem_store 8) < max_rev"
    by (rule demo_put_ok)
  note ok = mem.bs_Put_ok [OF mem_store_wf d(3) d(1) [unfolded demo_put_def]]
  show "bs_synced mem_bolt (snd demo_put)" "mem_room 7 (snd demo_put)" using d(2) ok(1) by (simp_all add: d(1))
  show "bs_rev (snd demo_put) = 1"
    using arg_cong [OF ok(2), of kv_rev] by (simp add: d(1) kv_put_def mem_store_def)
  show "bs_entries mem_bolt (snd demo_put) ''app/db'' \<noteq> None"
    using arg_cong [OF ok(2), of kv_map] by (simp add: d(1) kv_put_def)
qed

lemma demo_put_wf: "bs_wf mem_bolt (snd demo_put)"
  using demo_put_state(1) by (simp add: bs_synced_def)

theorem delete_refines_witness:
  "bs_wf mem_bolt (snd demo_put) \<and> bs_rev (snd demo_put) < max_rev \<and>
   bs_Get mem_bolt (snd demo_delete) ''app/db'' = Inl ErrKeyNotFound"
proof -
  obtain d s' where d: "demo_delete = (Inr d, s')"
    using mem_Delete_progress [OF demo_put_wf demo_put_state(4,2)] unfolding demo_delete_def by blast
  have "bs_rev (snd demo_put) < max_rev" using demo_put_state(3) by (simp add: max_rev_def)
  then show ?thesis
    using delete_refines [OF mem_bolt_api demo_put_wf, of "''app/db''" "Inr d" s'] d demo_put_wf
    by (simp add: demo_delete_def)
qed

text \<open>C18: \<^verbatim>\<open>List\<close> never fails on a well-formed store and returns exactly the entries whose key has
  the prefix, in strictly ascending byte order of the keys; the cursor's early stop at the
  first other key loses none.\<close>

theorem store_list_spec:
  assumes "bolt_api B" and "bs_wf B s"
  shows "\<exists>ks. bs_List B s p = Inr (map (\<lambda>k. the (bs_entries B s k)) ks) \<and> sorted_wrt (<) ks \<and>
    set ks = {k. bs_entries B s k \<noteq> None \<and> HasPrefix k p}"
proof -
  let ?K = "{k. bs_entries B s k \<noteq> None \<and> HasPrefix k p}"
  have "finite ?K"
    by (rule finite_subset [OF _ bolt_api.finite_entries [OF assms(1), of s]]) auto
  then have "set (sorted_list_of_set ?K) = ?K" by (rule set_sorted_list_of_set)
  moreover have "bs_List B s p = Inr (map (\<lambda>k. the (bs_entries B s k)) (sorted_list_of_set ?K))"
    using bolt_api.bs_List_spec [OF assms, of p] by (simp only: kv_list_def bs_abs_simps)
  moreover have "sorted_wrt (<) (sorted_list_of_set ?K)" by (rule strict_sorted_list_of_set_keys)
  ultimately show ?thesis by blast
qed

theorem store_list_spec_witness:
  "\<exists>ks. bs_List mem_bolt (snd demo_put) ''app/'' = Inr (map (\<lambda>k. the (bs_entries mem_bolt (snd demo_put) k)) ks)
     \<and> sorted_wrt (<) ks \<and>
     set ks = {k. bs_entries mem_bolt (snd demo_put) k \<noteq> None \<and> HasPrefix k ''app/''}"
  by (rule store_list_spec [OF mem_bolt_api demo_put_wf])

text \<open>Durability. Closing and opening the file again gives a store with the same entries,
  whose revision is the persisted one and never ahead of the closed store's, and equal to it
  unless a commit had failed. The panic of a short revision value cannot happen.\<close>

lemma reopen_durable:
  assumes "bolt_api B" and "bs_wf B s" and "\<And>b k. tx_get B d b k = tx_get B (bs_db s) b k"
    and "NewBoltStore B (Inr d) = r" and "\<not> isl (tx_create B d bucketData)"
    and "\<not> isl (tx_create B (projr (tx_create B d bucketData)) bucketMeta)"
    and "\<not> isl (tx_commit B (projr (tx_create B (projr (tx_create B d bucketData)) bucketMeta)))"
  shows "\<exists>s'. r = Inr s' \<and> bs_synced B s' \<and> bs_entries B s' = bs_entries B s \<and>
    bs_rev s' \<le> bs_rev s \<and> (bs_synced B s \<longrightarrow> bs_rev s' = bs_rev s)"
proof -
  obtain t1 t2 d' where t: "tx_create B d bucketData = Inr t1" "tx_create B t1 bucketMeta = Inr t2"
      "tx_commit B t2 = Inr d'"
    using assms(5-7) by (metis sum.collapse(2))
  obtain s' where "NewBoltStore B (Inr d) = Inr s'" "bs_synced B s'" "bs_entries B s' = bs_entries B s"
    "disk_rev B (bs_db s) = Some (bs_rev s')" "bs_rev s' \<le> bs_rev s"
    by (rule bolt_api.NewBoltStore_reopen [OF assms(1,2) assms(3) t])
  then show ?thesis using assms(4) by (auto simp: bs_synced_def)
qed

text \<open>C33: when the commit of a put fails, the caller gets the error and nothing is written, but
  the cached revision has already been advanced: it no longer agrees with the disk, although
  the code reads the revision of every later write from it.\<close>

theorem failed_commit_skews_revision:
  assumes "bolt_api B" and "bs_synced B s" and "bs_rev s < max_rev"
    and "bs_put_tx B (bs_db s) (bs_rev s) k v = Inr (tx, newRev, res)" and "tx_commit B tx = Inl e"
  shows "bs_Put B s k v = (Inl e, s\<lparr>bs_rev := bs_rev s + 1\<rparr>) \<and>
    bs_entries B (s\<lparr>bs_rev := bs_rev s + 1\<rparr>) = bs_entries B s \<and>
    \<not> bs_synced B (s\<lparr>bs_rev := bs_rev s + 1\<rparr>)"
proof -
  have wf: "bs_wf B s" using assms(2) by (simp add: bs_synced_def)
  have "newRev = bs_rev s + 1" using bolt_api.bs_put_tx_ok(1) [OF assms(1) wf assms(4)] .
  then have "bs_Put B s k v = (Inl e, s\<lparr>bs_rev := bs_rev s + 1\<rparr>)"
    using assms(4,5) by (simp add: bs_Put_def)
  moreover have "bs_rev s \<noteq> bs_rev s + 1" using below_max_less [OF assms(3)] by simp
  ultimately show ?thesis
    using assms(2) bolt_api.bumped_wf(2) [OF assms(1) wf assms(3)] by (simp add: bs_synced_def)
qed

definition demo_full :: "err + mem_db \<times> u64 \<times> PutResult" where
  "demo_full = bs_put_tx mem_bolt (bs_db (mem_store 0)) (bs_rev (mem_store 0)) ''a'' (Some ''v'')"

lemma demo_full_ok: "\<not> isl demo_full \<and> isl (tx_commit mem_bolt (fst (projr demo_full)))"
  by code_simp

theorem failed_commit_skews_revision_witness:
  "\<exists>e. bs_Put mem_bolt (mem_store 0) ''a'' (Some ''v'')
      = (Inl e, (mem_store 0)\<lparr>bs_rev := bs_rev (mem_store 0) + 1\<rparr>) \<and>
    \<not> bs_synced mem_bolt ((mem_store 0)\<lparr>bs_rev := bs_rev (mem_store 0) + 1\<rparr>)"
proof -
  obtain tx r res where d: "demo_full = Inr (tx, r, res)"
    using demo_full_ok by (metis sum.collapse(2) prod_cases3)
  obtain e where e: "tx_commit mem_bolt tx = Inl e"
    using demo_full_ok by (auto simp: isl_def d)
  have "bs_rev (mem_store 0) < max_rev" by (simp add: mem_store_def max_rev_def)
  from failed_commit_skews_revision [OF mem_bolt_api mem_store_synced this d [unfolded demo_full_def] e]
  show ?thesis by blast
qed

end
