(* ===== verification/Watch_Cache.thy ===== *)
theory Watch_Cache
  imports Store_Types
begin

text \<open>
  \<^verbatim>\<open>store/watch.go\<close>: the ring buffer of recent events. \<open>wc_log\<close> relates the buffer to the list of
  all events ever appended: the buffer holds the last \<open>capacity\<close> of them, at index modulo
  capacity. Everything the cache answers is then a function of that list. A Go panic (an
  empty buffer's modulo by zero, a nil entry) is \<^term>\<open>None\<close>; the lemmas show it does not occur.
\<close>

section \<open>Events and the ring buffer\<close>

datatype EventType = EventPut | EventDelete

definition EventType_String :: "EventType \<Rightarrow> string" where
  "EventType_String t = (case t of EventPut \<Rightarrow> ''PUT'' | EventDelete \<Rightarrow> ''DELETE'')"

record Event =
  evType :: EventType
  evEntry :: "Entry option"
  evPrevEntry :: "Entry option"

definition zeroEvent :: Event where
  "zeroEvent = \<lparr>evType = EventPut, evEntry = None, evPrevEntry = None\<rparr>"

text \<open>The number of appended events is a Go \<^verbatim>\<open>int\<close>; it is kept without a bound, as 2^63 appends are out of reach.\<close>

record WatchCache =
  wc_buf :: "Event list"
  wc_capacity :: nat
  wc_count :: nat
  wc_closed :: bool

definition NewWatchCache :: "nat \<Rightarrow> WatchCache" where
  "NewWatchCache capacity = \<lparr>wc_buf = replicate capacity zeroEvent, wc_capacity = capacity,
     wc_count = 0, wc_closed = False\<rparr>"

definition wc_Append :: "WatchCache \<Rightarrow> Event \<Rightarrow> WatchCache option" where
  "wc_Append wc event =
     (if wc_capacity wc = 0 then None
      else let pos = wc_count wc mod wc_capacity wc in
        Some (wc\<lparr>wc_buf := (wc_buf wc)[pos := event], wc_count := wc_count wc + 1\<rparr>))"

text \<open>The loop of \<^verbatim>\<open>getEventsLocked\<close> over the indices \<^verbatim>\<open>i = oldest .. count-1\<close>.\<close>

function events_from :: "WatchCache \<Rightarrow> u64 \<Rightarrow> string \<Rightarrow> nat \<Rightarrow> Event list option" where
  "events_from wc afterRev prefix i =
     (if i < wc_count wc then
        (let ev = wc_buf wc ! (i mod wc_capacity wc) in
         (case evEntry ev of None \<Rightarrow> None
          | Some entry \<Rightarrow>
              if eRevision entry \<le> afterRev then events_from wc afterRev prefix (i + 1)
              else if prefix \<noteq> [] \<and> \<not> HasPrefix (eKey entry) prefix
                then events_from wc afterRev prefix (i + 1)
              else map_option ((#) ev) (events_from wc afterRev prefix (i + 1))))
      else Some [])"
  by pat_completeness auto
termination
  by (relation "measure (\<lambda>(wc, a, p, i). wc_count wc - i)") auto

declare events_from.simps [simp del]

definition getEventsLocked :: "WatchCache \<Rightarrow> u64 \<Rightarrow> string \<Rightarrow> Event list option" where
  "getEventsLocked wc afterRev prefix =
     (if wc_count wc = 0 then Some []
      else let oldest = (if wc_count wc > wc_capacity wc then wc_count wc - wc_capacity wc else 0)
        in events_from wc afterRev prefix oldest)"

definition wc_Len :: "WatchCache \<Rightarrow> nat" where
  "wc_Len wc = (if wc_count wc < wc_capacity wc then wc_count wc else wc_capacity wc)"

definition wc_Close :: "WatchCache \<Rightarrow> WatchCache" where
  "wc_Close wc = wc\<lparr>wc_closed := True\<rparr>"

section \<open>The buffer as the tail of the event log\<close>

definition wc_log :: "WatchCache \<Rightarrow> Event list \<Rightarrow> bool" where
  "wc_log wc log \<longleftrightarrow>
     0 < wc_capacity wc \<and> length (wc_buf wc) = wc_capacity wc \<and> wc_count wc = length log \<and>
     (\<forall>i < length log. length log \<le> i + wc_capacity wc \<longrightarrow>
        wc_buf wc ! (i mod wc_capacity wc) = log ! i) \<and>
     (\<forall>ev \<in> set log. evEntry ev \<noteq> None)"

text \<open>The events a watcher asks for: newer than a revision, under a prefix.\<close>

definition wanted :: "u64 \<Rightarrow> string \<Rightarrow> Event \<Rightarrow> bool" where
  "wanted afterRev prefix ev \<longleftrightarrow> (case evEntry ev of None \<Rightarrow> False
     | Some entry \<Rightarrow> afterRev < eRevision entry \<and> HasPrefix (eKey entry) prefix)"

text \<open>The last \<open>n\<close> elements of a list.\<close>

definition last_n :: "nat \<Rightarrow> 'a list \<Rightarrow> 'a list" where
  "last_n n xs = drop (length xs - n) xs"

lemma mod_neq_within:
  assumes "i < (n::nat)" "n \<le> i + c" "i mod c = n mod c" "0 < c"
  shows "i + c = n"
proof -
  have "c dvd n - i" using assms(1,3) by (metis mod_eq_dvd_iff_nat less_imp_le)
  moreover have "0 < n - i" "n - i \<le> c" using assms by auto
  ultimately show ?thesis using assms(1) by (auto dest: dvd_imp_le)
qed

lemma NewWatchCache_log: "0 < capacity \<Longrightarrow> wc_log (NewWatchCache capacity) []"
  by (simp add: wc_log_def NewWatchCache_def)

lemma wc_Append_log:
  assumes "wc_log wc log" and "evEntry ev \<noteq> None"
  shows "\<exists>wc'. wc_Append wc ev = Some wc' \<and> wc_log wc' (log @ [ev]) \<and>
    wc_capacity wc' = wc_capacity wc \<and> wc_closed wc' = wc_closed wc"
proof -
  let ?c = "wc_capacity wc" and ?n = "length log"
  let ?wc = "wc\<lparr>wc_buf := (wc_buf wc)[?n mod ?c := ev], wc_count := ?n + 1\<rparr>"
  have c: "0 < ?c" and len: "length (wc_buf wc) = ?c" using assms(1) by (simp_all add: wc_log_def)
  have "wc_buf ?wc ! (i mod ?c) = (log @ [ev]) ! i" if i: "i < ?n + 1" "?n + 1 \<le> i + ?c" for i
  proof (cases "i = ?n")
    case True
    then show ?thesis using c len by simp
  next
    case False
    with i mod_neq_within [of i ?n ?c] c have "i mod ?c \<noteq> ?n mod ?c" by auto
    with False i assms(1) show ?thesis by (simp add: wc_log_def nth_append)
  qed
  with assms c len have "wc_log ?wc (log @ [ev])" by (auto simp: wc_log_def)
  then show ?thesis using c assms(1) by (simp add: wc_Append_def wc_log_def Let_def)
qed

lemma events_from_log:
  assumes "wc_log wc log" and "length log \<le> i + wc_capacity wc"
  shows "events_from wc afterRev prefix i = Some (filter (wanted afterRev prefix) (drop i log))"
  using assms(2)
proof (induction "length log - i" arbitrary: i)
  case 0
  then show ?case using assms(1) by (simp add: events_from.simps [of wc _ _ i] wc_log_def)
next
  case (Suc n)
  then have i: "i < length log" by simp
  have IH: "events_from wc afterRev prefix (i + 1)
      = Some (filter (wanted afterRev prefix) (drop (Suc i) log))"
    using Suc by simp
  have ev: "wc_buf wc ! (i mod wc_capacity wc) = log ! i" "wc_count wc = length log"
    using assms(1) i Suc.prems by (simp_all add: wc_log_def)
  obtain e where e: "evEntry (log ! i) = Some e"
    using assms(1) i by (force simp: wc_log_def)
  have "drop i log = log ! i # drop (Suc i) log" using i by (simp add: Cons_nth_drop_Suc)
  then show ?case
    using IH i e by (auto simp: events_from.simps [of wc _ _ i] ev wanted_def)
qed

text \<open>The cache answers from the last \<open>capacity\<close> events, and never meets a nil entry.\<close>

lemma getEventsLocked_log:
  assumes "wc_log wc log"
  shows "getEventsLocked wc afterRev prefix
    = Some (filter (wanted afterRev prefix) (last_n (wc_capacity wc) log))"
proof -
  have n: "wc_count wc = length log" using assms by (simp add: wc_log_def)
  show ?thesis
    using events_from_log [OF assms] by (auto simp: getEventsLocked_def n last_n_def Let_def)
qed

lemma wc_Len_log: "wc_log wc log \<Longrightarrow> wc_Len wc = length (last_n (wc_capacity wc) log)"
  by (auto simp: wc_Len_def wc_log_def last_n_def)

lemma wc_Close_log: "wc_log wc log \<Longrightarrow> wc_log (wc_Close wc) log"
  by (simp add: wc_log_def wc_Close_def)

section \<open>What a watcher misses\<close>

text \<open>
  \<open>log_revs\<close>: the log's events carry strictly increasing revisions, as they do when the events
  are appended in the order of the writes.
\<close>

definition ev_rev :: "Event \<Rightarrow> u64" where
  "ev_rev ev = (case evEntry ev of None \<Rightarrow> 0 | Some e \<Rightarrow> eRevision e)"

definition log_revs :: "Event list \<Rightarrow> bool" where
  "log_revs log \<longleftrightarrow> sorted_wrt (<) (map ev_rev log)"

lemma wanted_rev: "wanted a p ev \<Longrightarrow> a < ev_rev ev"
  by (auto simp: wanted_def ev_rev_def split: option.splits)

text \<open>
  If every event that fell out of the buffer is at or below the watcher's revision, the answer
  is every event of the whole log that the watcher wants.
\<close>

lemma getEventsLocked_complete:
  assumes "wc_log wc log"
    and "\<forall>ev \<in> set (take (length log - wc_capacity wc) log). ev_rev ev \<le> afterRev"
  shows "getEventsLocked wc afterRev prefix = Some (filter (wanted afterRev prefix) log)"
proof -
  let ?k = "length log - wc_capacity wc"
  have "filter (wanted afterRev prefix) (take ?k log) = []"
    using assms(2) by (metis filter_False wanted_rev not_le)
  then have "filter (wanted afterRev prefix) log = filter (wanted afterRev prefix) (drop ?k log)"
    by (metis append_Nil append_take_drop_id filter_append)
  then show ?thesis using getEventsLocked_log [OF assms(1)] by (simp add: last_n_def)
qed

section \<open>Properties of the ring buffer\<close>

text \<open>A sequence of appends, ending at the first panic.\<close>

fun append_all :: "WatchCache \<Rightarrow> Event list \<Rightarrow> WatchCache option" where
  "append_all wc [] = Some wc"
| "append_all wc (ev # evs) = (case wc_Append wc ev of None \<Rightarrow> None | Some wc' \<Rightarrow> append_all wc' evs)"

lemma append_all_log:
  "wc_log wc log \<Longrightarrow> \<forall>ev \<in> set evs. evEntry ev \<noteq> None \<Longrightarrow>
    \<exists>wc'. append_all wc evs = Some wc' \<and> wc_log wc' (log @ evs) \<and> wc_capacity wc' = wc_capacity wc"
proof (induction evs arbitrary: wc log)
  case (Cons ev evs)
  then obtain wc1 where "wc_Append wc ev = Some wc1" "wc_log wc1 (log @ [ev])"
      "wc_capacity wc1 = wc_capacity wc"
    using wc_Append_log [of wc log ev] by auto
  with Cons.IH [of wc1 "log @ [ev]"] Cons.prems(2) show ?case by simp
qed simp

text \<open>The ring buffer is the tail of the event log. After any sequence of appends to a new
  cache of positive capacity, nothing panics, the length is that of the last \<open>capacity\<close>
  events, and a query returns exactly those of them that are newer than the given revision
  and have the given prefix, in the order of the appends.\<close>

lemma ring_is_log_tail:
  assumes "0 < capacity" and "\<forall>ev \<in> set log. evEntry ev \<noteq> None"
  shows "\<exists>wc. append_all (NewWatchCache capacity) log = Some wc \<and>
    wc_Len wc = min capacity (length log) \<and>
    (\<forall>a p. getEventsLocked wc a p = Some (filter (wanted a p) (last_n capacity log)))"
proof -
  obtain wc where wc: "append_all (NewWatchCache capacity) log = Some wc" "wc_log wc log"
      "wc_capacity wc = capacity"
    using append_all_log [OF NewWatchCache_log [OF assms(1)] assms(2)] by (auto simp: NewWatchCache_def)
  then show ?thesis using getEventsLocked_log [OF wc(2)] by (auto simp: wc_Len_def wc_log_def)
qed


end
