(* ===== verification/Watch_Wait.thy ===== *)
theory Watch_Wait
  imports Watch_Cache
begin

text \<open>
  \<^verbatim>\<open>WatchCache.WaitForEvents\<close> of \<^verbatim>\<open>store/watch.go\<close> as a step relation: one waiting goroutine, its
  timer goroutine, and the goroutines that append to or close the cache, interleaved. The
  waiter holds the mutex from the check of the buffer until \<^verbatim>\<open>cond.Wait\<close> has put it on the
  notify list; appending and closing need the mutex; the timer's \<^verbatim>\<open>Broadcast\<close> does not.
  The results: a waiter never sleeps over an event it wants, what it returns is what the cache
  answers to its question, and the timer's wake-up is lost when it fires before the waiter is registered.
\<close>

section \<open>The machine\<close>

text \<open>
  \<open>Entering\<close> and \<open>Woken\<close> wait for the mutex, \<open>Locked\<close> is the top of the loop with the mutex
  held, \<open>Arming\<close> is between starting the timer goroutine and the registration in \<^verbatim>\<open>cond.Wait\<close>,
  \<open>Waiting\<close> is asleep with the mutex released, \<open>Returned es\<close> is after the return.
\<close>

datatype wpc = Entering | Locked | Arming | Waiting | Woken | Returned "Event list"

datatype timer = NoTimer | Armed | Fired

record waiter =
  w_cache :: WatchCache
  w_now :: int
  w_deadline :: int
  w_after :: u64
  w_prefix :: string
  w_pc :: wpc
  w_timer :: timer

definition WaitForEvents_init :: "WatchCache \<Rightarrow> int \<Rightarrow> u64 \<Rightarrow> string \<Rightarrow> int \<Rightarrow> waiter" where
  "WaitForEvents_init wc now afterRev prefix timeout =
     \<lparr>w_cache = wc, w_now = now, w_deadline = now + timeout, w_after = afterRev,
      w_prefix = prefix, w_pc = Entering, w_timer = NoTimer\<rparr>"

text \<open>\<^verbatim>\<open>cond.Broadcast\<close> wakes the goroutines that are on the notify list.\<close>

definition broadcast :: "waiter \<Rightarrow> waiter" where
  "broadcast w = (if w_pc w = Waiting then w\<lparr>w_pc := Woken\<rparr> else w)"

definition mutex_free :: "waiter \<Rightarrow> bool" where
  "mutex_free w \<longleftrightarrow> w_pc w \<noteq> Locked \<and> w_pc w \<noteq> Arming"

inductive wait_step :: "waiter \<Rightarrow> waiter \<Rightarrow> bool" where
  lock: "w_pc w = Entering \<Longrightarrow> wait_step w (w\<lparr>w_pc := Locked\<rparr>)"
| closed: "w_pc w = Locked \<Longrightarrow> wc_closed (w_cache w) \<Longrightarrow> wait_step w (w\<lparr>w_pc := Returned []\<rparr>)"
| deliver: "w_pc w = Locked \<Longrightarrow> \<not> wc_closed (w_cache w) \<Longrightarrow>
    getEventsLocked (w_cache w) (w_after w) (w_prefix w) = Some events \<Longrightarrow> events \<noteq> [] \<Longrightarrow>
    wait_step w (w\<lparr>w_pc := Returned events\<rparr>)"
| expire: "w_pc w = Locked \<Longrightarrow> \<not> wc_closed (w_cache w) \<Longrightarrow>
    getEventsLocked (w_cache w) (w_after w) (w_prefix w) = Some [] \<Longrightarrow> w_deadline w \<le> w_now w \<Longrightarrow>
    wait_step w (w\<lparr>w_pc := Returned []\<rparr>)"
| arm: "w_pc w = Locked \<Longrightarrow> \<not> wc_closed (w_cache w) \<Longrightarrow>
    getEventsLocked (w_cache w) (w_after w) (w_prefix w) = Some [] \<Longrightarrow> w_now w < w_deadline w \<Longrightarrow>
    wait_step w (w\<lparr>w_pc := Arming, w_timer := Armed\<rparr>)"
| wait: "w_pc w = Arming \<Longrightarrow> wait_step w (w\<lparr>w_pc := Waiting\<rparr>)"
| relock: "w_pc w = Woken \<Longrightarrow> wait_step w (w\<lparr>w_pc := Locked, w_timer := NoTimer\<rparr>)"
| fire: "w_timer w = Armed \<Longrightarrow> w_deadline w \<le> w_now w \<Longrightarrow>
    wait_step w (broadcast (w\<lparr>w_timer := Fired\<rparr>))"
| tick: "wait_step w (w\<lparr>w_now := w_now w + 1\<rparr>)"

text \<open>
  The other goroutines: \<^verbatim>\<open>Append\<close> and \<^verbatim>\<open>Close\<close>, each one critical section, and the broadcasts of the timer
  goroutines of other waits and of earlier turns of this one.
\<close>

inductive env_step :: "waiter \<Rightarrow> waiter \<Rightarrow> bool" where
  append: "mutex_free w \<Longrightarrow> evEntry ev \<noteq> None \<Longrightarrow> wc_Append (w_cache w) ev = Some wc \<Longrightarrow>
    env_step w (broadcast (w\<lparr>w_cache := wc\<rparr>))"
| close: "mutex_free w \<Longrightarrow> env_step w (broadcast (w\<lparr>w_cache := wc_Close (w_cache w)\<rparr>))"
| stray: "env_step w (broadcast w)"

inductive wait_reach :: "waiter \<Rightarrow> waiter \<Rightarrow> bool" for w0 where
  start: "wait_reach w0 w0"
| own: "wait_reach w0 w \<Longrightarrow> wait_step w w' \<Longrightarrow> wait_reach w0 w'"
| env: "wait_reach w0 w \<Longrightarrow> env_step w w' \<Longrightarrow> wait_reach w0 w'"

section \<open>Invariant\<close>

definition nothing_wanted :: "waiter \<Rightarrow> bool" where
  "nothing_wanted w \<longleftrightarrow> \<not> wc_closed (w_cache w) \<and>
     getEventsLocked (w_cache w) (w_after w) (w_prefix w) = Some []"

text \<open>
  What a return promises: nothing from a closed cache; otherwise all events that the waiter asked
  for among those in the buffer at some moment of the call, and none only when the time was up.
  \<open>log\<close> are the events before the call, \<open>new\<close> those that were appended up to that moment.
\<close>

definition good_return :: "Event list \<Rightarrow> waiter \<Rightarrow> Event list \<Rightarrow> bool" where
  "good_return log w es \<longleftrightarrow>
     (if es = [] then wc_closed (w_cache w) \<or> w_deadline w \<le> w_now w
      else \<exists>new later. wc_log (w_cache w) (log @ new @ later) \<and>
        es = filter (wanted (w_after w) (w_prefix w)) (last_n (wc_capacity (w_cache w)) (log @ new)))"

definition wait_inv :: "Event list \<Rightarrow> waiter \<Rightarrow> bool" where
  "wait_inv log w \<longleftrightarrow> (\<exists>new. wc_log (w_cache w) (log @ new)) \<and>
     (w_pc w \<in> {Arming, Waiting} \<longrightarrow> nothing_wanted w) \<and>
     (\<forall>es. w_pc w = Returned es \<longrightarrow> good_return log w es) \<and>
     (w_pc w \<in> {Entering, Locked} \<longrightarrow> w_timer w = NoTimer)"

lemma broadcast_simps [simp]:
  "w_cache (broadcast w) = w_cache w" "w_after (broadcast w) = w_after w"
  "w_prefix (broadcast w) = w_prefix w" "w_timer (broadcast w) = w_timer w"
  "w_now (broadcast w) = w_now w" "w_deadline (broadcast w) = w_deadline w"
  "w_pc (broadcast w) = (if w_pc w = Waiting then Woken else w_pc w)"
  by (simp_all add: broadcast_def)

lemma wait_inv_init:
  "wc_log wc log \<Longrightarrow> wait_inv log (WaitForEvents_init wc now afterRev prefix timeout)"
  by (auto simp: wait_inv_def WaitForEvents_init_def intro: exI [of _ "[]"])

text \<open>A query with the lock held is complete.\<close>

lemma query_complete:
  assumes "wait_inv log w" and "getEventsLocked (w_cache w) (w_after w) (w_prefix w) = Some es"
  obtains new where "wc_log (w_cache w) (log @ new)"
    "es = filter (wanted (w_after w) (w_prefix w)) (last_n (wc_capacity (w_cache w)) (log @ new))"
  using assms getEventsLocked_log by (fastforce simp: wait_inv_def)

lemma good_return_keep:
  assumes "good_return log w es" and "w_cache w' = w_cache w" "w_after w' = w_after w" "w_prefix w' = w_prefix w"
    "w_deadline w' = w_deadline w" "w_now w \<le> w_now w'"
  shows "good_return log w' es"
  using assms by (auto simp: good_return_def split: if_splits)

lemma wait_step_inv: "wait_step w w' \<Longrightarrow> wait_inv log w \<Longrightarrow> wait_inv log w'"
proof (induction rule: wait_step.induct)
  case (deliver w events)
  obtain new where "wc_log (w_cache w) (log @ new)"
    "events = filter (wanted (w_after w) (w_prefix w)) (last_n (wc_capacity (w_cache w)) (log @ new))"
    by (rule query_complete [OF deliver.prems deliver.hyps(3)])
  then have "good_return log (w\<lparr>w_pc := Returned events\<rparr>) events"
    using deliver.hyps(4) unfolding good_return_def
    by (simp only: if_False) (intro exI [of _ new] exI [of _ "[]"], simp)
  then show ?case using deliver.prems by (simp add: wait_inv_def)
next
  case (tick w)
  then show ?case using good_return_keep [of log w _ "w\<lparr>w_now := w_now w + 1\<rparr>"] by (auto simp: wait_inv_def nothing_wanted_def)
next
  case (fire w)
  then show ?case using good_return_keep [of log w _ "broadcast (w\<lparr>w_timer := Fired\<rparr>)"]
    by (auto simp: wait_inv_def nothing_wanted_def)
qed (auto simp: wait_inv_def nothing_wanted_def good_return_def)

lemma good_return_append:
  assumes "good_return log w es" and "wc_log (w_cache w) (log @ new)" and "wc_Append (w_cache w) ev = Some wc" "evEntry ev \<noteq> None"
  shows "good_return log (broadcast (w\<lparr>w_cache := wc\<rparr>)) es"
proof -
  have app: "wc_log wc (l @ [ev])" "wc_capacity wc = wc_capacity (w_cache w)" "wc_closed wc = wc_closed (w_cache w)"
    if "wc_log (w_cache w) l" for l
    using wc_Append_log [OF that assms(4)] assms(3) by auto
  show ?thesis
  proof (cases "es = []")
    case True
    then show ?thesis using assms(1) app(3) [OF assms(2)] by (simp add: good_return_def)
  next
    case False
    then obtain n1 later where "wc_log (w_cache w) (log @ n1 @ later)"
      "es = filter (wanted (w_after w) (w_prefix w)) (last_n (wc_capacity (w_cache w)) (log @ n1))"
      using assms(1) by (auto simp: good_return_def)
    moreover from app(1,2) [OF this(1)] have "wc_log wc (log @ n1 @ (later @ [ev]))" "wc_capacity wc = wc_capacity (w_cache w)" by simp_all
    ultimately show ?thesis using False unfolding good_return_def by (metis (no_types, lifting) broadcast_simps(1,2,3) waiter.select_convs(1,4,5) waiter.update_convs(1) waiter.surjective)
  qed
qed

lemma env_step_inv: "env_step w w' \<Longrightarrow> wait_inv log w \<Longrightarrow> wait_inv log w'"
proof (induction rule: env_step.induct)
  case (append w ev wc)
  then obtain new where new: "wc_log (w_cache w) (log @ new)" by (auto simp: wait_inv_def)
  with append have "wc_log wc (log @ (new @ [ev]))" using wc_Append_log by fastforce
  then show ?case using append good_return_append [OF _ new append.hyps(3,2)] by (auto simp: wait_inv_def mutex_free_def)
next
  case (close w)
  have "good_return log (broadcast (w\<lparr>w_cache := wc_Close (w_cache w)\<rparr>)) es" if "good_return log w es" for es
    using that wc_Close_log [of "w_cache w"] by (auto simp: good_return_def wc_Close_def split: if_splits)
  then show ?case using close by (auto simp: wait_inv_def mutex_free_def dest: wc_Close_log)
next
  case (stray w)
  then show ?case using good_return_keep [of log w _ "broadcast w"] by (auto simp: wait_inv_def nothing_wanted_def)
qed

lemma wait_reach_inv: "wait_reach w0 w \<Longrightarrow> wait_inv log w0 \<Longrightarrow> wait_inv log w"
  by (induction rule: wait_reach.induct) (auto dest: wait_step_inv env_step_inv)

text \<open>The arguments of the call do not change.\<close>

lemma wait_reach_args:
  "wait_reach w0 w \<Longrightarrow> w_after w = w_after w0 \<and> w_prefix w = w_prefix w0 \<and> w_deadline w = w_deadline w0"
  by (induction rule: wait_reach.induct) (auto elim!: wait_step.cases env_step.cases)

text \<open>No state of the loop is stuck but an unnotified sleeper.\<close>

lemma wait_progress:
  assumes "wait_inv log0 w" and "w_pc w \<noteq> Waiting" and "\<And>es. w_pc w \<noteq> Returned es"
  shows "\<exists>w'. wait_step w w' \<and> w_pc w' \<noteq> w_pc w"
proof -
  obtain log where log: "wc_log (w_cache w) log" using assms(1) by (auto simp: wait_inv_def)
  define es where "es = filter (wanted (w_after w) (w_prefix w)) (last_n (wc_capacity (w_cache w)) log)"
  have g: "getEventsLocked (w_cache w) (w_after w) (w_prefix w) = Some es"
    by (simp add: es_def getEventsLocked_log [OF log])
  show ?thesis
  proof (cases "w_pc w")
    case Locked
    consider "wc_closed (w_cache w)" | "\<not> wc_closed (w_cache w)" "es \<noteq> []"
      | "\<not> wc_closed (w_cache w)" "es = []" "w_deadline w \<le> w_now w"
      | "\<not> wc_closed (w_cache w)" "es = []" "w_now w < w_deadline w" by fastforce
    then show ?thesis
      by cases (use Locked g in \<open>force intro: wait_step.intros\<close>)+
  qed (use assms in \<open>force intro: wait_step.intros\<close>)+
qed

section \<open>The timer\<close>

text \<open>
  A sleeper whose timer has not fired yet returns once the deadline is reached, by its own
  steps alone.
\<close>

lemma ticks: "wait_step\<^sup>*\<^sup>* w (w\<lparr>w_now := w_now w + int n\<rparr>)"
proof (induction n)
  case (Suc n)
  have "wait_step (w\<lparr>w_now := w_now w + int n\<rparr>) (w\<lparr>w_now := w_now w + int n + 1\<rparr>)"
    using wait_step.tick [of "w\<lparr>w_now := w_now w + int n\<rparr>"] by simp
  with Suc show ?case by (simp add: algebra_simps)
qed simp

lemma armed_sleeper_returns:
  assumes "w_pc w = Waiting" and "w_timer w = Armed" and "nothing_wanted w"
  shows "\<exists>w'. wait_step\<^sup>*\<^sup>* w w' \<and> w_pc w' = Returned []"
proof -
  let ?t = "w\<lparr>w_now := w_now w + int (nat (w_deadline w - w_now w))\<rparr>"
  let ?f = "broadcast (?t\<lparr>w_timer := Fired\<rparr>)"
  let ?l = "?f\<lparr>w_pc := Locked, w_timer := NoTimer\<rparr>"
  have "wait_step\<^sup>*\<^sup>* w ?t" by (rule ticks)
  also have "wait_step ?t ?f" by (rule wait_step.fire) (use assms in auto)
  also (rtranclp.rtrancl_into_rtrancl) have "wait_step ?f ?l"
    by (rule wait_step.relock) (use assms in simp)
  also (rtranclp.rtrancl_into_rtrancl) have "wait_step ?l (?l\<lparr>w_pc := Returned []\<rparr>)"
    by (rule wait_step.expire) (use assms in \<open>auto simp: nothing_wanted_def\<close>)
  finally (rtranclp.rtrancl_into_rtrancl) show ?thesis
    by (rule exI [where x = "?l\<lparr>w_pc := Returned []\<rparr>", OF conjI]) simp
qed

text \<open>
  A sleeper whose timer has fired stays asleep under every step of its own: only another
  goroutine's \<^verbatim>\<open>Append\<close>, \<^verbatim>\<open>Close\<close> or broadcast can wake it.
\<close>

lemma fired_sleeper_stays:
  "wait_step\<^sup>*\<^sup>* w w' \<Longrightarrow> w_pc w = Waiting \<Longrightarrow> w_timer w = Fired \<Longrightarrow>
    w_pc w' = Waiting \<and> w_timer w' = Fired"
  by (induction rule: rtranclp.induct) (auto elim: wait_step.cases)

section \<open>Properties of the wait\<close>

text \<open>C19: in every interleaving of \<^verbatim>\<open>WaitForEvents\<close> with appends, closes, stray broadcasts, timer and
  clock, a goroutine that is asleep on the condition variable has nothing to deliver: the cache
  is open and holds no event it asked for, so no append is slept over. The step that returns
  returns exactly the answer of the cache at that moment: nothing when it is closed, and
  otherwise what the query finds, where an empty answer is returned only when the time is up.
  So a non-empty return is every event newer than the revision and under the prefix that was in
  the buffer at a moment of the call: none is dropped and none is added.\<close>

theorem wait_safe:
  assumes "wc_log wc log" and "wait_reach (WaitForEvents_init wc now afterRev prefix timeout) w"
  shows "(w_pc w = Waiting \<longrightarrow> \<not> wc_closed (w_cache w) \<and>
      getEventsLocked (w_cache w) afterRev prefix = Some []) \<and>
    (\<forall>w' es. wait_step w w' \<and> w_pc w \<noteq> w_pc w' \<and> w_pc w' = Returned es \<longrightarrow>
      (if wc_closed (w_cache w) then es = []
       else getEventsLocked (w_cache w) afterRev prefix = Some es \<and> (es = [] \<longrightarrow> now + timeout \<le> w_now w))) \<and>
    (\<forall>es. w_pc w = Returned es \<and> es \<noteq> [] \<longrightarrow> (\<exists>new later. wc_log (w_cache w) (log @ new @ later) \<and>
      es = filter (wanted afterRev prefix) (last_n (wc_capacity (w_cache w)) (log @ new))))"
proof -
  have inv: "wait_inv log w" by (rule wait_reach_inv [OF assms(2) wait_inv_init [OF assms(1)]])
  have args: "w_after w = afterRev" "w_prefix w = prefix" "w_deadline w = now + timeout"
    using wait_reach_args [OF assms(2)] by (simp_all add: WaitForEvents_init_def)
  have "if wc_closed (w_cache w) then es = []
      else getEventsLocked (w_cache w) afterRev prefix = Some es \<and> (es = [] \<longrightarrow> now + timeout \<le> w_now w)"
    if "wait_step w w'" "w_pc w \<noteq> w_pc w'" "w_pc w' = Returned es" for w' es
    using that by (cases rule: wait_step.cases) (auto simp: args split: if_splits)
  then show ?thesis using inv by (auto simp: wait_inv_def nothing_wanted_def good_return_def args)
qed

definition demo_wait :: "wpc \<Rightarrow> timer \<Rightarrow> int \<Rightarrow> waiter" where
  "demo_wait pc t n = (WaitForEvents_init (NewWatchCache 4) 0 0 [] 1)\<lparr>w_pc := pc, w_timer := t, w_now := n\<rparr>"

lemma demo_empty: "getEventsLocked (NewWatchCache 4) 0 [] = Some []" "\<not> wc_closed (NewWatchCache 4)"
  by (simp_all add: getEventsLocked_def NewWatchCache_def)

lemma demo_arming: "wait_reach (WaitForEvents_init (NewWatchCache 4) 0 0 [] 1) (demo_wait Arming Armed 0)"
proof -
  let ?w0 = "WaitForEvents_init (NewWatchCache 4) 0 0 [] 1"
  have "wait_reach ?w0 (?w0\<lparr>w_pc := Locked\<rparr>)"
    by (rule wait_reach.own [OF wait_reach.start wait_step.lock]) (simp add: WaitForEvents_init_def)
  moreover have "wait_step (?w0\<lparr>w_pc := Locked\<rparr>) (?w0\<lparr>w_pc := Locked, w_pc := Arming, w_timer := Armed\<rparr>)"
    by (rule wait_step.arm) (simp_all add: WaitForEvents_init_def demo_empty)
  ultimately show ?thesis by (auto simp: demo_wait_def WaitForEvents_init_def intro: wait_reach.own)
qed

lemma demo_waiting: "wait_reach (WaitForEvents_init (NewWatchCache 4) 0 0 [] 1) (demo_wait Waiting Armed 0)"
proof -
  have "wait_step (demo_wait Arming Armed 0) (demo_wait Waiting Armed 0)"
    using wait_step.wait [of "demo_wait Arming Armed 0"] by (simp add: demo_wait_def WaitForEvents_init_def)
  with demo_arming show ?thesis by (rule wait_reach.own)
qed

theorem wait_safe_witness:
  "wc_log (NewWatchCache 4) [] \<and> w_pc (demo_wait Waiting Armed 0) = Waiting \<and>
   getEventsLocked (w_cache (demo_wait Waiting Armed 0)) 0 [] = Some []"
proof -
  have log: "wc_log (NewWatchCache 4) []" by (rule NewWatchCache_log) simp
  show ?thesis
    using wait_safe [OF log demo_waiting] log by (simp add: demo_wait_def WaitForEvents_init_def)
qed

text \<open>C34: the timeout of \<^verbatim>\<open>WaitForEvents\<close> can be lost. The timer goroutine broadcasts without
  the mutex, so it can fire between its start and the registration in \<^verbatim>\<open>cond.Wait\<close>; the
  goroutine then sleeps after its deadline, and no step of the wait itself ever ends the
  sleep, although the method is documented to block until the timeout expires.\<close>

theorem timeout_wakeup_lost:
  "\<exists>w. wait_reach (WaitForEvents_init (NewWatchCache 4) 0 0 [] 1) w \<and> w_deadline w \<le> w_now w \<and>
     {w'. wait_step\<^sup>*\<^sup>* w w'} \<subseteq> {w'. w_pc w' = Waiting}"
proof -
  let ?w0 = "WaitForEvents_init (NewWatchCache 4) 0 0 [] 1"
  have s1: "wait_step (demo_wait Arming Armed 0) (demo_wait Arming Armed 1)"
    using wait_step.tick [of "demo_wait Arming Armed 0"]
    by (simp add: demo_wait_def WaitForEvents_init_def)
  have s2: "wait_step (demo_wait Arming Armed 1) (demo_wait Arming Fired 1)"
    using wait_step.fire [of "demo_wait Arming Armed 1"]
    by (simp add: demo_wait_def WaitForEvents_init_def broadcast_def)
  have s3: "wait_step (demo_wait Arming Fired 1) (demo_wait Waiting Fired 1)"
    using wait_step.wait [of "demo_wait Arming Fired 1"]
    by (simp add: demo_wait_def WaitForEvents_init_def)
  have "wait_reach ?w0 (demo_wait Waiting Fired 1)"
    using demo_arming s1 s2 s3 by (blast intro: wait_reach.own)
  moreover have "{w'. wait_step\<^sup>*\<^sup>* (demo_wait Waiting Fired 1) w'} \<subseteq> {w'. w_pc w' = Waiting}"
    using fired_sleeper_stays by (auto simp: demo_wait_def)
  ultimately show ?thesis
    by (intro exI [of _ "demo_wait Waiting Fired 1"]) (simp add: demo_wait_def WaitForEvents_init_def)
qed

text \<open>C20: when the timer fires after the goroutine is registered, the wait ends: from a sleep
  with the timer still armed, the steps of the wait alone (clock, timer, wake-up) lead to the
  empty return.\<close>

theorem armed_wait_returns:
  assumes "wc_log wc log" and "wait_reach (WaitForEvents_init wc now afterRev prefix timeout) w"
    and "w_pc w = Waiting" and "w_timer w = Armed"
  shows "\<exists>w'. wait_step\<^sup>*\<^sup>* w w' \<and> w_pc w' = Returned []"
proof -
  have "nothing_wanted w"
    using wait_reach_inv [OF assms(2) wait_inv_init [OF assms(1)]] assms(3) by (simp add: wait_inv_def)
  with assms(3,4) show ?thesis by (rule armed_sleeper_returns)
qed

theorem armed_wait_returns_witness:
  "\<exists>w'. wait_step\<^sup>*\<^sup>* (demo_wait Waiting Armed 0) w' \<and> w_pc w' = Returned []"
proof -
  have "wc_log (NewWatchCache 4) []" by (rule NewWatchCache_log) simp
  then show ?thesis by (rule armed_wait_returns [OF _ demo_waiting]) (simp_all add: demo_wait_def)
qed

end
