(* ===== verification/Watchable_Store.thy ===== *)
theory Watchable_Store
  imports Mem_Bolt Watch_Wait
begin

text \<open>
  \<^verbatim>\<open>store/watchable.go\<close>: the store that also emits an event for every successful write. The
  sequential operations are composed from those of \<open>Bolt_Store\<close> and \<open>Watch_Cache\<close> as the Go
  methods compose them. The main facts: after any sequence of writes the cache holds the tail
  of the history with strictly increasing revisions, and replaying the events after a
  revision on the values of that revision gives the current values.
\<close>

section \<open>State and operations\<close>

record 'db WatchableStore =
  ws_bs :: "'db BoltStore"
  ws_wc :: WatchCache

definition defaultWatchCacheSize :: nat where
  "defaultWatchCacheSize = 4096"

definition NewWatchableStore :: "'db BoltStore \<Rightarrow> 'db WatchableStore" where
  "NewWatchableStore bs = \<lparr>ws_bs = bs, ws_wc = NewWatchCache defaultWatchCacheSize\<rparr>"

text \<open>
  A write is two critical sections: the commit under the mutex of \<^verbatim>\<open>BoltStore\<close>, then, after that mutex
  is released, the append under the mutex of the cache. \<open>ws_Put\<close> and \<open>ws_Delete\<close> are the two in
  sequence, which is what the replicated store does, where \<^verbatim>\<open>FSM.Apply\<close> runs one entry at a time.
  Concurrent writers of a standalone server may append in another order than they committed:
  see \<open>late_append_missed\<close> below.
\<close>

definition ws_Put_commit ::
  "'db bolt \<Rightarrow> 'db WatchableStore \<Rightarrow> string \<Rightarrow> bytes \<Rightarrow> (err + PutResult) \<times> 'db WatchableStore" where
  "ws_Put_commit B ws key val = (case bs_Put B (ws_bs ws) key val of (r, bs) \<Rightarrow> (r, ws\<lparr>ws_bs := bs\<rparr>))"

definition ws_Delete_commit ::
  "'db bolt \<Rightarrow> 'db WatchableStore \<Rightarrow> string \<Rightarrow> (err + Entry) \<times> 'db WatchableStore" where
  "ws_Delete_commit B ws key = (case bs_Delete B (ws_bs ws) key of (r, bs) \<Rightarrow> (r, ws\<lparr>ws_bs := bs\<rparr>))"

definition ws_append :: "'db WatchableStore \<Rightarrow> Event \<Rightarrow> 'db WatchableStore option" where
  "ws_append ws ev = map_option (\<lambda>wc. ws\<lparr>ws_wc := wc\<rparr>) (wc_Append (ws_wc ws) ev)"

definition put_emits :: "PutResult \<Rightarrow> Event" where
  "put_emits result = \<lparr>evType = EventPut, evEntry = prEntry result, evPrevEntry = prPrevEntry result\<rparr>"

definition delete_emits :: "Entry \<Rightarrow> Event" where
  "delete_emits deleted = \<lparr>evType = EventDelete, evEntry = Some deleted, evPrevEntry = None\<rparr>"

definition ws_Put ::
  "'db bolt \<Rightarrow> 'db WatchableStore \<Rightarrow> string \<Rightarrow> bytes \<Rightarrow> (err + PutResult) \<times> 'db WatchableStore" where
  "ws_Put B ws key val =
     (case ws_Put_commit B ws key val of
        (Inl e, ws1) \<Rightarrow> (Inl e, ws1)
      | (Inr result, ws1) \<Rightarrow>
          (case ws_append ws1 (put_emits result) of
             None \<Rightarrow> (Inl (Panic ''integer divide by zero''), ws1)
           | Some ws2 \<Rightarrow> (Inr result, ws2)))"

definition ws_Delete ::
  "'db bolt \<Rightarrow> 'db WatchableStore \<Rightarrow> string \<Rightarrow> (err + Entry) \<times> 'db WatchableStore" where
  "ws_Delete B ws key =
     (case ws_Delete_commit B ws key of
        (Inl e, ws1) \<Rightarrow> (Inl e, ws1)
      | (Inr deleted, ws1) \<Rightarrow>
          (case ws_append ws1 (delete_emits deleted) of
             None \<Rightarrow> (Inl (Panic ''integer divide by zero''), ws1)
           | Some ws2 \<Rightarrow> (Inr deleted, ws2)))"

text \<open>The methods inherited from the embedded \<^verbatim>\<open>BoltStore\<close>, and \<^verbatim>\<open>Close\<close>.\<close>

definition ws_Get :: "'db bolt \<Rightarrow> 'db WatchableStore \<Rightarrow> string \<Rightarrow> err + Entry" where
  "ws_Get B ws key = bs_Get B (ws_bs ws) key"

definition ws_List :: "'db bolt \<Rightarrow> 'db WatchableStore \<Rightarrow> string \<Rightarrow> err + Entry list" where
  "ws_List B ws prefix = bs_List B (ws_bs ws) prefix"

definition ws_Rev :: "'db WatchableStore \<Rightarrow> u64" where
  "ws_Rev ws = bs_Rev (ws_bs ws)"

definition ws_Close :: "'db bolt \<Rightarrow> 'db WatchableStore \<Rightarrow> err option \<times> 'db WatchableStore" where
  "ws_Close B ws = (bs_Close B (ws_bs ws), ws\<lparr>ws_wc := wc_Close (ws_wc ws)\<rparr>)"

definition watchable_ops :: "'db bolt \<Rightarrow> 'db WatchableStore Store" where
  "watchable_ops B = \<lparr>st_Put = ws_Put B, st_Get = ws_Get B, st_Delete = ws_Delete B,
     st_List = ws_List B, st_Rev = ws_Rev\<rparr>"

lemma watchable_ops_simps [simp]:
  "st_Put (watchable_ops B) = ws_Put B" "st_Get (watchable_ops B) = ws_Get B"
  "st_Delete (watchable_ops B) = ws_Delete B" "st_List (watchable_ops B) = ws_List B"
  "st_Rev (watchable_ops B) = ws_Rev"
  by (simp_all add: watchable_ops_def)

text \<open>The two sections in one equation, for the sequential proofs.\<close>

lemma ws_Put_serial:
  "ws_Put B ws key val =
     (case bs_Put B (ws_bs ws) key val of
        (Inl e, bs) \<Rightarrow> (Inl e, ws\<lparr>ws_bs := bs\<rparr>)
      | (Inr result, bs) \<Rightarrow> (case wc_Append (ws_wc ws) (put_emits result) of
          None \<Rightarrow> (Inl (Panic ''integer divide by zero''), ws\<lparr>ws_bs := bs\<rparr>)
        | Some wc \<Rightarrow> (Inr result, \<lparr>ws_bs = bs, ws_wc = wc\<rparr>)))"
  by (cases ws) (auto simp: ws_Put_def ws_Put_commit_def ws_append_def split: prod.splits sum.splits option.splits)

lemma ws_Delete_serial:
  "ws_Delete B ws key =
     (case bs_Delete B (ws_bs ws) key of
        (Inl e, bs) \<Rightarrow> (Inl e, ws\<lparr>ws_bs := bs\<rparr>)
      | (Inr deleted, bs) \<Rightarrow> (case wc_Append (ws_wc ws) (delete_emits deleted) of
          None \<Rightarrow> (Inl (Panic ''integer divide by zero''), ws\<lparr>ws_bs := bs\<rparr>)
        | Some wc \<Rightarrow> (Inr deleted, \<lparr>ws_bs = bs, ws_wc = wc\<rparr>)))"
  by (cases ws) (auto simp: ws_Delete_def ws_Delete_commit_def ws_append_def split: prod.splits sum.splits option.splits)

section \<open>The history behind the cache\<close>

text \<open>
  \<open>ws_hist B ws log\<close>: \<open>log\<close> is a possible history of the events of this store. Its events are
  what the buffer's tail shows, their revisions increase strictly and do not exceed the
  store's.
\<close>

definition ws_hist :: "'db bolt \<Rightarrow> 'db WatchableStore \<Rightarrow> Event list \<Rightarrow> bool" where
  "ws_hist B ws log \<longleftrightarrow> bs_wf B (ws_bs ws) \<and> wc_log (ws_wc ws) log \<and> log_revs log \<and>
     (\<forall>ev \<in> set log. ev_rev ev \<le> bs_rev (ws_bs ws))"

definition ws_wf :: "'db bolt \<Rightarrow> 'db WatchableStore \<Rightarrow> bool" where
  "ws_wf B ws \<longleftrightarrow> (\<exists>log. ws_hist B ws log)"

abbreviation ws_abs :: "'db bolt \<Rightarrow> 'db WatchableStore \<Rightarrow> kv" where
  "ws_abs B ws \<equiv> bs_abs B (ws_bs ws)"

text \<open>The events of a put and of a delete on an abstract state.\<close>

definition put_event :: "kv \<Rightarrow> string \<Rightarrow> bytes \<Rightarrow> Event" where
  "put_event s k v = \<lparr>evType = EventPut, evEntry = Some (kv_next s k v), evPrevEntry = kv_map s k\<rparr>"

definition delete_event :: "kv \<Rightarrow> Entry \<Rightarrow> Event" where
  "delete_event s p = \<lparr>evType = EventDelete, evEntry = Some (p\<lparr>eRevision := kv_rev s + 1\<rparr>), evPrevEntry = None\<rparr>"

lemma event_revs [simp]:
  "ev_rev (put_event s k v) = kv_rev s + 1" "ev_rev (delete_event s p) = kv_rev s + 1"
  "evEntry (put_event s k v) \<noteq> None" "evEntry (delete_event s p) \<noteq> None"
  by (simp_all add: ev_rev_def put_event_def delete_event_def kv_next_def Let_def)

lemma hist_append:
  assumes hist: "ws_hist B ws log" and r: "bs_rev (ws_bs ws) < max_rev"
    and bs: "bs_wf B bs" "bs_rev bs = bs_rev (ws_bs ws) + 1"
    and ev: "evEntry ev \<noteq> None" "ev_rev ev = bs_rev (ws_bs ws) + 1"
  obtains wc where "wc_Append (ws_wc ws) ev = Some wc" "wc_capacity wc = wc_capacity (ws_wc ws)"
    "ws_hist B \<lparr>ws_bs = bs, ws_wc = wc\<rparr> (log @ [ev])"
proof -
  obtain wc where wc: "wc_Append (ws_wc ws) ev = Some wc" "wc_log wc (log @ [ev])"
      "wc_capacity wc = wc_capacity (ws_wc ws)"
    using wc_Append_log [of "ws_wc ws" log ev] hist ev(1) by (auto simp: ws_hist_def)
  have le: "e \<le> bs_rev (ws_bs ws) \<Longrightarrow> e < bs_rev (ws_bs ws) + 1" for e
    using below_max_less [OF r] by auto
  have "log_revs (log @ [ev])" "\<forall>x \<in> set (log @ [ev]). ev_rev x \<le> bs_rev bs"
    using hist ev(2) bs(2) le by (auto simp: ws_hist_def log_revs_def sorted_wrt_append intro: less_imp_le)
  with wc bs(1) show ?thesis using that by (simp add: ws_hist_def)
qed

lemma hist_same:
  assumes "ws_hist B ws log" and "bs_wf B bs" and "bs_rev (ws_bs ws) \<le> bs_rev bs"
  shows "ws_hist B (ws\<lparr>ws_bs := bs\<rparr>) log"
  using assms by (auto simp: ws_hist_def intro: order_trans)

context bolt_api
begin

lemma ws_Put_bs_ok:
  assumes hist: "ws_hist B ws log" and r: "bs_rev (ws_bs ws) < max_rev"
    and bs: "bs_Put B (ws_bs ws) k v = (Inr res, bs)"
  shows "\<exists>wc. ws_Put B ws k v = (Inr res, \<lparr>ws_bs = bs, ws_wc = wc\<rparr>) \<and>
    wc_capacity wc = wc_capacity (ws_wc ws) \<and>
    ws_hist B \<lparr>ws_bs = bs, ws_wc = wc\<rparr> (log @ [put_event (ws_abs B ws) k v])"
proof -
  have wf: "bs_wf B (ws_bs ws)" using hist by (simp add: ws_hist_def)
  note ok = bs_Put_ok [OF wf r bs]
  have rev: "bs_rev bs = bs_rev (ws_bs ws) + 1"
    using arg_cong [OF ok(2), of kv_rev] by (simp add: kv_put_def)
  obtain wc where wc: "wc_Append (ws_wc ws) (put_event (ws_abs B ws) k v) = Some wc"
    "wc_capacity wc = wc_capacity (ws_wc ws)"
    "ws_hist B \<lparr>ws_bs = bs, ws_wc = wc\<rparr> (log @ [put_event (ws_abs B ws) k v])"
    by (rule hist_append [OF hist r, of bs "put_event (ws_abs B ws) k v"])
      (use ok(1) rev in \<open>auto simp: bs_synced_def\<close>)
  moreover have "put_emits res = put_event (ws_abs B ws) k v"
    by (simp add: ok(3) put_event_def put_emits_def)
  ultimately show ?thesis using bs by (simp add: ws_Put_serial)
qed

lemma ws_Delete_bs_ok:
  assumes hist: "ws_hist B ws log" and r: "bs_rev (ws_bs ws) < max_rev"
    and bs: "bs_Delete B (ws_bs ws) k = (Inr d, bs)"
  shows "\<exists>wc p. ws_Delete B ws k = (Inr d, \<lparr>ws_bs = bs, ws_wc = wc\<rparr>) \<and>
    wc_capacity wc = wc_capacity (ws_wc ws) \<and> kv_map (ws_abs B ws) k = Some p \<and>
    ws_hist B \<lparr>ws_bs = bs, ws_wc = wc\<rparr> (log @ [delete_event (ws_abs B ws) p])"
proof -
  have wf: "bs_wf B (ws_bs ws)" using hist by (simp add: ws_hist_def)
  note ok = bs_Delete_ok [OF wf r bs]
  obtain p where p: "bs_entries B (ws_bs ws) k = Some p" "d = p\<lparr>eRevision := bs_rev (ws_bs ws) + 1\<rparr>"
    using ok(3) by blast
  have rev: "bs_rev bs = bs_rev (ws_bs ws) + 1"
    using arg_cong [OF ok(2), of kv_rev] by (simp add: kv_delete_def)
  obtain wc where "wc_Append (ws_wc ws) (delete_event (ws_abs B ws) p) = Some wc"
    "wc_capacity wc = wc_capacity (ws_wc ws)"
    "ws_hist B \<lparr>ws_bs = bs, ws_wc = wc\<rparr> (log @ [delete_event (ws_abs B ws) p])"
    by (rule hist_append [OF hist r, of bs "delete_event (ws_abs B ws) p"])
      (use ok(1) rev in \<open>auto simp: bs_synced_def\<close>)
  moreover have "delete_emits d = delete_event (ws_abs B ws) p"
    by (simp add: p delete_event_def delete_emits_def)
  ultimately show ?thesis using bs p by (simp add: ws_Delete_serial)
qed

lemma ws_Put_ok:
  assumes hist: "ws_hist B ws log" and r: "bs_rev (ws_bs ws) < max_rev"
    and put: "ws_Put B ws k v = (Inr res, ws')"
  shows "ws_hist B ws' (log @ [put_event (ws_abs B ws) k v]) \<and>
    ws_abs B ws' = kv_put (ws_abs B ws) k v \<and> wc_capacity (ws_wc ws') = wc_capacity (ws_wc ws) \<and>
    res = \<lparr>prEntry = Some (kv_next (ws_abs B ws) k v), prPrevEntry = kv_map (ws_abs B ws) k\<rparr>"
proof -
  have wf: "bs_wf B (ws_bs ws)" using hist by (simp add: ws_hist_def)
  obtain bs where bs: "bs_Put B (ws_bs ws) k v = (Inr res, bs)"
    using put by (auto simp: ws_Put_serial split: prod.splits sum.splits option.splits)
  then show ?thesis using ws_Put_bs_ok [OF hist r bs] bs_Put_ok [OF wf r bs] put by auto
qed

lemma ws_Put_err:
  assumes hist: "ws_hist B ws log" and r: "bs_rev (ws_bs ws) < max_rev"
    and put: "ws_Put B ws k v = (Inl er, ws')"
  shows "ws_hist B ws' log \<and> kv_map (ws_abs B ws') = kv_map (ws_abs B ws) \<and> ws_wc ws' = ws_wc ws \<and>
    kv_rev (ws_abs B ws') \<in> {kv_rev (ws_abs B ws), kv_rev (ws_abs B ws) + 1}"
proof -
  have wf: "bs_wf B (ws_bs ws)" using hist by (simp add: ws_hist_def)
  obtain x bs where x: "bs_Put B (ws_bs ws) k v = (x, bs)" by (cases "bs_Put B (ws_bs ws) k v")
  have "x = Inl er" using put x ws_Put_bs_ok [OF hist r] by (cases x) (fastforce simp: ws_Put_serial)+
  then show ?thesis
    using x put bs_Put_err [OF wf r] hist_same [OF hist] below_max_less [OF r]
    by (fastforce simp: ws_Put_serial)
qed

lemma ws_Delete_ok:
  assumes hist: "ws_hist B ws log" and r: "bs_rev (ws_bs ws) < max_rev"
    and del: "ws_Delete B ws k = (Inr d, ws')"
  shows "\<exists>p. kv_map (ws_abs B ws) k = Some p \<and> d = p\<lparr>eRevision := kv_rev (ws_abs B ws) + 1\<rparr> \<and>
    ws_hist B ws' (log @ [delete_event (ws_abs B ws) p]) \<and>
    ws_abs B ws' = kv_delete (ws_abs B ws) k \<and> wc_capacity (ws_wc ws') = wc_capacity (ws_wc ws)"
proof -
  have wf: "bs_wf B (ws_bs ws)" using hist by (simp add: ws_hist_def)
  obtain bs where bs: "bs_Delete B (ws_bs ws) k = (Inr d, bs)"
    using del by (auto simp: ws_Delete_serial split: prod.splits sum.splits option.splits)
  then show ?thesis using ws_Delete_bs_ok [OF hist r bs] bs_Delete_ok [OF wf r bs] del by auto
qed

lemma ws_Delete_err:
  assumes hist: "ws_hist B ws log" and r: "bs_rev (ws_bs ws) < max_rev"
    and del: "ws_Delete B ws k = (Inl er, ws')"
  shows "ws_hist B ws' log \<and> kv_map (ws_abs B ws') = kv_map (ws_abs B ws) \<and> ws_wc ws' = ws_wc ws \<and>
    kv_rev (ws_abs B ws') \<in> {kv_rev (ws_abs B ws), kv_rev (ws_abs B ws) + 1}"
proof -
  have wf: "bs_wf B (ws_bs ws)" using hist by (simp add: ws_hist_def)
  obtain x bs where x: "bs_Delete B (ws_bs ws) k = (x, bs)" by (cases "bs_Delete B (ws_bs ws) k")
  have "x = Inl er" using del x ws_Delete_bs_ok [OF hist r] by (cases x) (fastforce simp: ws_Delete_serial)+
  then show ?thesis
    using x del bs_Delete_err [OF wf r] hist_same [OF hist] below_max_less [OF r]
    by (fastforce simp: ws_Delete_serial)
qed

text \<open>
  Two concurrent puts. When the second to commit is the first to append, a watcher that is
  answered in between with the later event, and goes on from its revision, never gets the
  earlier one: it is appended behind a revision that the watcher has passed.
\<close>

lemma late_append_missed:
  assumes hist: "ws_hist B ws log" and r: "bs_rev (ws_bs ws) < max_rev" "bs_rev (ws_bs ws) + 1 < max_rev"
    and c1: "ws_Put_commit B ws k1 v1 = (Inr r1, a)" and c2: "ws_Put_commit B a k2 v2 = (Inr r2, b)"
  obtains c d where "ws_append b (put_emits r2) = Some c" "ws_append c (put_emits r1) = Some d"
    "wc_log (ws_wc d) (log @ [put_emits r2, put_emits r1])"
    "ev_rev (put_emits r1) < ev_rev (put_emits r2)"
    "getEventsLocked (ws_wc d) (ev_rev (put_emits r2)) prefix = Some []"
proof -
  have wf: "bs_wf B (ws_bs ws)" and wc: "wc_log (ws_wc ws) log" "log_revs log"
    and le: "\<And>ev. ev \<in> set log \<Longrightarrow> ev_rev ev \<le> bs_rev (ws_bs ws)" using hist by (auto simp: ws_hist_def)
  have p1: "bs_Put B (ws_bs ws) k1 v1 = (Inr r1, ws_bs a)" "ws_wc a = ws_wc ws"
    and p2: "bs_Put B (ws_bs a) k2 v2 = (Inr r2, ws_bs b)" "ws_wc b = ws_wc a"
    using c1 c2 by (auto simp: ws_Put_commit_def split: prod.splits)
  note ok1 = bs_Put_ok [OF wf r(1) p1(1)]
  have wfa: "bs_wf B (ws_bs a)" and reva: "bs_rev (ws_bs a) = bs_rev (ws_bs ws) + 1"
    using ok1(1) arg_cong [OF ok1(2), of kv_rev] by (simp_all add: bs_synced_def kv_put_def)
  have e1: "put_emits r1 = put_event (ws_abs B ws) k1 v1"
    using ok1(3) by (simp add: put_emits_def put_event_def)
  have e2: "put_emits r2 = put_event (ws_abs B a) k2 v2"
    using bs_Put_ok(3) [OF wfa _ p2(1)] r(2) by (simp add: put_emits_def put_event_def reva)
  have revs: "ev_rev (put_emits r1) = bs_rev (ws_bs ws) + 1" "ev_rev (put_emits r2) = bs_rev (ws_bs ws) + 1 + 1"
    by (simp_all add: e1 e2 reva)
  obtain c where c: "ws_append b (put_emits r2) = Some c" "wc_log (ws_wc c) (log @ [put_emits r2])"
    using wc_Append_log [OF wc(1), of "put_emits r2"] by (auto simp: ws_append_def p1(2) p2(2) e2)
  obtain d where d: "ws_append c (put_emits r1) = Some d" "wc_log (ws_wc d) (log @ [put_emits r2, put_emits r1])"
    using wc_Append_log [OF c(2), of "put_emits r1"] by (auto simp: ws_append_def e1)
  have less: "ev_rev (put_emits r1) < ev_rev (put_emits r2)"
    unfolding revs by (rule below_max_less [OF r(2)])
  have "bs_rev (ws_bs ws) \<le> ev_rev (put_emits r2)"
    using below_max_less [OF r(1)] below_max_less [OF r(2)] unfolding revs by order
  then have "ev_rev ev \<le> ev_rev (put_emits r2)" if "ev \<in> set (log @ [put_emits r2, put_emits r1])" for ev
    using that le [of ev] less by auto
  moreover have "wanted x prefix ev \<Longrightarrow> x < ev_rev ev" for x ev
    by (auto simp: wanted_def ev_rev_def split: option.splits)
  ultimately have "\<not> wanted (ev_rev (put_emits r2)) prefix ev" if "ev \<in> set (log @ [put_emits r2, put_emits r1])" for ev
    using that by (meson leD)
  moreover have "set (last_n n xs) \<subseteq> set xs" for n and xs :: "Event list"
    by (auto simp: last_n_def dest: in_set_dropD)
  ultimately have "filter (wanted (ev_rev (put_emits r2)) prefix)
      (last_n (wc_capacity (ws_wc d)) (log @ [put_emits r2, put_emits r1])) = []"
    unfolding filter_empty_conv by blast
  then have "getEventsLocked (ws_wc d) (ev_rev (put_emits r2)) prefix = Some []"
    using getEventsLocked_log [OF d(2)] by simp
  then show ?thesis using that c(1) d less by blast
qed

end

text \<open>\<^verbatim>\<open>WatchableStore\<close> also meets the contract of the interface.\<close>

sublocale bolt_api \<subseteq> ws: kv_store "watchable_ops B" "ws_abs B" "ws_wf B"
proof unfold_locales
  fix s k v res s' er d
  show "ws_wf B s \<Longrightarrow> kv_rev (ws_abs B s) < max_rev \<Longrightarrow> st_Put (watchable_ops B) s k v = (Inr res, s') \<Longrightarrow>
      ws_wf B s' \<and> ws_abs B s' = kv_put (ws_abs B s) k v \<and>
      res = \<lparr>prEntry = Some (kv_next (ws_abs B s) k v), prPrevEntry = kv_map (ws_abs B s) k\<rparr>"
    unfolding ws_wf_def watchable_ops_simps bs_abs_simps using ws_Put_ok by fastforce
  show "ws_wf B s \<Longrightarrow> kv_rev (ws_abs B s) < max_rev \<Longrightarrow> st_Put (watchable_ops B) s k v = (Inl er, s') \<Longrightarrow>
      ws_wf B s' \<and> kv_map (ws_abs B s') = kv_map (ws_abs B s) \<and>
      kv_rev (ws_abs B s') \<in> {kv_rev (ws_abs B s), kv_rev (ws_abs B s) + 1}"
    unfolding ws_wf_def watchable_ops_simps bs_abs_simps using ws_Put_err by fastforce
  show "ws_wf B s \<Longrightarrow> kv_rev (ws_abs B s) < max_rev \<Longrightarrow> st_Delete (watchable_ops B) s k = (Inr d, s') \<Longrightarrow>
      ws_wf B s' \<and> ws_abs B s' = kv_delete (ws_abs B s) k \<and>
      (\<exists>p. kv_map (ws_abs B s) k = Some p \<and> d = p\<lparr>eRevision := kv_rev (ws_abs B s) + 1\<rparr>)"
    unfolding ws_wf_def watchable_ops_simps bs_abs_simps using ws_Delete_ok by fastforce
  show "ws_wf B s \<Longrightarrow> kv_rev (ws_abs B s) < max_rev \<Longrightarrow> st_Delete (watchable_ops B) s k = (Inl er, s') \<Longrightarrow>
      ws_wf B s' \<and> kv_map (ws_abs B s') = kv_map (ws_abs B s) \<and>
      kv_rev (ws_abs B s') \<in> {kv_rev (ws_abs B s), kv_rev (ws_abs B s) + 1}"
    unfolding ws_wf_def watchable_ops_simps bs_abs_simps using ws_Delete_err by fastforce
  show "ws_wf B s \<Longrightarrow> kv_map (ws_abs B s) k = None \<Longrightarrow>
      st_Delete (watchable_ops B) s k = (Inl ErrKeyNotFound, s)"
    using bs_Delete_missing by (auto simp: ws_wf_def ws_hist_def ws_Delete_serial)
next
  fix s k e p
  assume "ws_wf B s"
  then have wf: "bs_wf B (ws_bs s)" by (auto simp: ws_wf_def ws_hist_def)
  show "st_Get (watchable_ops B) s k = (case kv_map (ws_abs B s) k of None \<Rightarrow> Inl ErrKeyNotFound | Some e \<Rightarrow> Inr e)"
    and "st_List (watchable_ops B) s p = Inr (kv_list (ws_abs B s) p)"
    and "finite {k. kv_map (ws_abs B s) k \<noteq> None}"
    using wf by (simp_all add: ws_Get_def ws_List_def bs_Get_wf bs_List_spec finite_entries [simplified])
  show "kv_map (ws_abs B s) k = Some e \<Longrightarrow>
      eKey e = utf8_coerce k \<and> eRevision e = eModRevision e \<and> eModRevision e \<le> kv_rev (ws_abs B s)"
    using bs.keys_ok [OF wf] by simp
qed (simp add: ws_Rev_def bs_Rev_def)

section \<open>Runs and replay\<close>

datatype wop = WPut string bytes | WDelete string

definition op_key :: "wop \<Rightarrow> string" where
  "op_key w = (case w of WPut k v \<Rightarrow> k | WDelete k \<Rightarrow> k)"

definition ws_exec :: "'db bolt \<Rightarrow> 'db WatchableStore \<Rightarrow> wop \<Rightarrow> 'db WatchableStore" where
  "ws_exec B ws w = (case w of WPut k v \<Rightarrow> snd (ws_Put B ws k v) | WDelete k \<Rightarrow> snd (ws_Delete B ws k))"

definition ws_run :: "'db bolt \<Rightarrow> 'db WatchableStore \<Rightarrow> wop list \<Rightarrow> 'db WatchableStore" where
  "ws_run B ws ops = foldl (ws_exec B) ws ops"

text \<open>What a consumer that keeps the values by key does with an event.\<close>

definition ev_apply :: "(string \<Rightarrow> bytes option) \<Rightarrow> Event \<Rightarrow> (string \<Rightarrow> bytes option)" where
  "ev_apply m ev = (case evEntry ev of None \<Rightarrow> m | Some e \<Rightarrow>
     (case evType ev of EventPut \<Rightarrow> m(eKey e \<mapsto> eValue e) | EventDelete \<Rightarrow> m(eKey e := None)))"

definition replay :: "(string \<Rightarrow> bytes option) \<Rightarrow> Event list \<Rightarrow> (string \<Rightarrow> bytes option)" where
  "replay m evs = foldl ev_apply m evs"

definition kv_values :: "kv \<Rightarrow> string \<Rightarrow> bytes option" where
  "kv_values s k = map_option eValue (kv_map s k)"

definition ev_key :: "Event \<Rightarrow> string" where
  "ev_key ev = (case evEntry ev of None \<Rightarrow> [] | Some e \<Rightarrow> eKey e)"

lemma replay_simps [simp]: "replay m [] = m" "replay m (ev # evs) = replay (ev_apply m ev) evs"
  "replay m (evs @ evs') = replay (replay m evs) evs'"
  by (simp_all add: replay_def)

lemma ev_apply_other: "k \<noteq> ev_key ev \<Longrightarrow> ev_apply m ev k = m k"
  by (auto simp: ev_apply_def ev_key_def split: option.splits EventType.splits)

lemma ev_apply_cong: "m k = m' k \<Longrightarrow> ev_apply m ev k = ev_apply m' ev k"
  by (auto simp: ev_apply_def split: option.splits EventType.splits)

text \<open>An event decides the value of its key, and of no other.\<close>

lemma replay_other: "k \<notin> ev_key ` set evs \<Longrightarrow> replay m evs k = m k"
  by (induction evs arbitrary: m) (simp_all add: ev_apply_other)

lemma replay_cong: "m k = m' k \<Longrightarrow> replay m evs k = replay m' evs k"
proof (induction evs arbitrary: m m')
  case (Cons ev evs)
  from Cons.IH [of "ev_apply m ev" "ev_apply m' ev", OF ev_apply_cong [of m k m' ev, OF Cons.prems]] show ?case by simp
qed simp

lemma replay_decides:
  assumes "k \<in> ev_key ` set evs" and "\<forall>ev \<in> set evs. evEntry ev \<noteq> None"
  shows "replay m evs k = replay m' evs k"
  using assms
proof (induction evs arbitrary: m m')
  case (Cons ev evs)
  show ?case
  proof (cases "k = ev_key ev")
    case True
    then have "ev_apply m ev k = ev_apply m' ev k"
      using Cons.prems(2) by (auto simp: ev_apply_def ev_key_def split: EventType.splits)
    from replay_cong [of "ev_apply m ev" k "ev_apply m' ev", OF this] show ?thesis by simp
  next
    case False
    then show ?thesis using Cons by simp
  qed
qed simp

text \<open>The values under a prefix depend only on the events under it.\<close>

lemma replay_filter:
  "HasPrefix k p \<Longrightarrow> m k = m' k \<Longrightarrow> replay m evs k = replay m' (filter (\<lambda>ev. HasPrefix (ev_key ev) p) evs) k"
proof (induction evs arbitrary: m m')
  case (Cons ev evs)
  show ?case
  proof (cases "HasPrefix (ev_key ev) p")
    case True
    moreover have "ev_apply m ev k = ev_apply m' ev k" using Cons.prems(2) by (rule ev_apply_cong)
    ultimately show ?thesis using Cons.IH Cons.prems(1) by simp
  next
    case False
    then have "ev_apply m ev k = m' k" using Cons.prems by (metis ev_apply_other)
    with False Cons.IH Cons.prems(1) show ?thesis by simp
  qed
qed simp

lemma values_put: "utf8_valid k \<Longrightarrow> ev_apply (kv_values s) (put_event s k v) = kv_values (kv_put s k v)"
  by (auto simp: fun_eq_iff ev_apply_def put_event_def kv_values_def kv_put_def kv_next_def Let_def)

lemma values_delete: "eKey p = k \<Longrightarrow> ev_apply (kv_values s) (delete_event s p) = kv_values (kv_delete s k)"
  by (auto simp: fun_eq_iff ev_apply_def delete_event_def kv_values_def kv_delete_def)

text \<open>What one write adds to the history: nothing when it fails, one event when it succeeds.\<close>

definition ws_grows :: "'db bolt \<Rightarrow> 'db WatchableStore \<Rightarrow> Event list \<Rightarrow> 'db WatchableStore \<Rightarrow> Event list \<Rightarrow> bool" where
  "ws_grows B ws log ws' new \<longleftrightarrow> ws_hist B ws' (log @ new) \<and> length new \<le> 1 \<and>
     (\<forall>ev \<in> set new. bs_rev (ws_bs ws) < ev_rev ev) \<and>
     replay (kv_values (ws_abs B ws)) new = kv_values (ws_abs B ws') \<and>
     wc_capacity (ws_wc ws') = wc_capacity (ws_wc ws) \<and>
     bs_rev (ws_bs ws') \<in> {bs_rev (ws_bs ws), bs_rev (ws_bs ws) + 1}"

context bolt_api
begin

lemma ws_Put_grows:
  assumes hist: "ws_hist B ws log" and r: "bs_rev (ws_bs ws) < max_rev" and k: "utf8_valid k"
  shows "\<exists>new. ws_grows B ws log (snd (ws_Put B ws k v)) new"
proof (cases "ws_Put B ws k v")
  case (Pair x s')
  show ?thesis
  proof (cases x)
    case (Inl er)
    then show ?thesis
      using ws_Put_err [OF hist r] Pair by (intro exI [of _ "[]"]) (auto simp: ws_grows_def kv_values_def fun_eq_iff)
  next
    case (Inr res)
    then have ok: "ws_hist B s' (log @ [put_event (ws_abs B ws) k v])"
        "ws_abs B s' = kv_put (ws_abs B ws) k v" "wc_capacity (ws_wc s') = wc_capacity (ws_wc ws)"
      using ws_Put_ok [OF hist r] Pair by auto
    have "bs_rev (ws_bs s') = bs_rev (ws_bs ws) + 1"
      using arg_cong [OF ok(2), of kv_rev] by (simp add: kv_put_def)
    then show ?thesis
      using ok k below_max_less [OF r]
      by (intro exI [of _ "[put_event (ws_abs B ws) k v]"]) (simp add: ws_grows_def Pair values_put)
  qed
qed

lemma ws_Delete_grows:
  assumes hist: "ws_hist B ws log" and r: "bs_rev (ws_bs ws) < max_rev" and k: "utf8_valid k"
  shows "\<exists>new. ws_grows B ws log (snd (ws_Delete B ws k)) new"
proof (cases "ws_Delete B ws k")
  case (Pair x s')
  show ?thesis
  proof (cases x)
    case (Inl er)
    then show ?thesis
      using ws_Delete_err [OF hist r] Pair by (intro exI [of _ "[]"]) (auto simp: ws_grows_def kv_values_def fun_eq_iff)
  next
    case (Inr d)
    then obtain p where p: "kv_map (ws_abs B ws) k = Some p"
      and ok: "ws_hist B s' (log @ [delete_event (ws_abs B ws) p])"
        "ws_abs B s' = kv_delete (ws_abs B ws) k" "wc_capacity (ws_wc s') = wc_capacity (ws_wc ws)"
      using ws_Delete_ok [OF hist r] Pair by blast
    have "eKey p = k"
      using bs.keys_ok [of "ws_bs ws" k p] hist p k by (simp add: ws_hist_def utf8_coerce_valid)
    moreover have "bs_rev (ws_bs s') = bs_rev (ws_bs ws) + 1"
      using arg_cong [OF ok(2), of kv_rev] by (simp add: kv_delete_def)
    ultimately show ?thesis
      using ok below_max_less [OF r]
      by (intro exI [of _ "[delete_event (ws_abs B ws) p]"]) (simp add: ws_grows_def Pair values_delete)
  qed
qed

lemma ws_exec_step:
  assumes "ws_hist B ws log" and "bs_rev (ws_bs ws) < max_rev" and "utf8_valid (op_key w)"
  obtains new where "ws_hist B (ws_exec B ws w) (log @ new)" "length new \<le> 1"
    "\<forall>ev \<in> set new. bs_rev (ws_bs ws) < ev_rev ev"
    "replay (kv_values (ws_abs B ws)) new = kv_values (ws_abs B (ws_exec B ws w))"
    "wc_capacity (ws_wc (ws_exec B ws w)) = wc_capacity (ws_wc ws)"
    "bs_rev (ws_bs (ws_exec B ws w)) \<in> {bs_rev (ws_bs ws), bs_rev (ws_bs ws) + 1}"
proof -
  have "\<exists>new. ws_grows B ws log (ws_exec B ws w) new"
    using ws_Put_grows [OF assms(1,2)] ws_Delete_grows [OF assms(1,2)] assms(3)
    by (cases w) (simp_all add: ws_exec_def op_key_def)
  then show ?thesis using that unfolding ws_grows_def by blast
qed

lemma ws_run_replay:
  assumes "ws_hist B ws log" and "unat (bs_rev (ws_bs ws)) + length ops < 2 ^ 64"
    and "\<forall>w \<in> set ops. utf8_valid (op_key w)"
  shows "\<exists>new. ws_hist B (ws_run B ws ops) (log @ new) \<and> length new \<le> length ops \<and>
    (\<forall>ev \<in> set new. bs_rev (ws_bs ws) < ev_rev ev) \<and>
    replay (kv_values (ws_abs B ws)) new = kv_values (ws_abs B (ws_run B ws ops)) \<and>
    wc_capacity (ws_wc (ws_run B ws ops)) = wc_capacity (ws_wc ws) \<and>
    bs_rev (ws_bs ws) \<le> bs_rev (ws_bs (ws_run B ws ops))"
  using assms
proof (induction ops arbitrary: ws log)
  case Nil
  then show ?case by (intro exI [of _ "[]"]) (simp add: ws_run_def)
next
  case (Cons w ops)
  let ?ws = "ws_exec B ws w"
  have r: "bs_rev (ws_bs ws) < max_rev"
    using Cons.prems(2) by (simp add: max_rev_def word_less_nat_alt)
  obtain n1 where n1: "ws_hist B ?ws (log @ n1)" "length n1 \<le> 1"
    "\<forall>ev \<in> set n1. bs_rev (ws_bs ws) < ev_rev ev"
    "replay (kv_values (ws_abs B ws)) n1 = kv_values (ws_abs B ?ws)"
    "wc_capacity (ws_wc ?ws) = wc_capacity (ws_wc ws)"
    "bs_rev (ws_bs ?ws) \<in> {bs_rev (ws_bs ws), bs_rev (ws_bs ws) + 1}"
    using ws_exec_step [OF Cons.prems(1) r, of w] Cons.prems(3) by auto
  have rev: "unat (bs_rev (ws_bs ?ws)) \<le> unat (bs_rev (ws_bs ws)) + 1" "bs_rev (ws_bs ws) \<le> bs_rev (ws_bs ?ws)"
    using n1(6) below_max [OF r] by (auto simp: word_le_nat_alt)
  obtain n2 where n2: "ws_hist B (ws_run B ?ws ops) ((log @ n1) @ n2)" "length n2 \<le> length ops"
    "\<forall>ev \<in> set n2. bs_rev (ws_bs ?ws) < ev_rev ev"
    "replay (kv_values (ws_abs B ?ws)) n2 = kv_values (ws_abs B (ws_run B ?ws ops))"
    "wc_capacity (ws_wc (ws_run B ?ws ops)) = wc_capacity (ws_wc ?ws)"
    "bs_rev (ws_bs ?ws) \<le> bs_rev (ws_bs (ws_run B ?ws ops))"
    using Cons.IH [OF n1(1)] rev(1) Cons.prems(2,3) by auto
  have "\<forall>ev \<in> set (n1 @ n2). bs_rev (ws_bs ws) < ev_rev ev"
    using n1(3) n2(3) rev(2) by (auto intro: le_less_trans)
  then show ?case
    using n1 n2 rev(2) by (intro exI [of _ "n1 @ n2"]) (auto simp: ws_run_def intro: order_trans)
qed

end

lemma wanted_new:
  assumes "\<forall>ev \<in> set new. evEntry ev \<noteq> None \<and> r < ev_rev ev" and "\<forall>ev \<in> set log. ev_rev ev \<le> r"
  shows "filter (wanted r p) (log @ new) = filter (\<lambda>ev. HasPrefix (ev_key ev) p) new"
proof -
  have "filter (wanted r p) log = []"
    using assms(2) by (fastforce simp: filter_empty_conv dest: wanted_rev)
  moreover have "filter (wanted r p) new = filter (\<lambda>ev. HasPrefix (ev_key ev) p) new"
    using assms(1) by (intro filter_cong) (auto simp: wanted_def ev_key_def ev_rev_def)
  ultimately show ?thesis by simp
qed

context bolt_api
begin

text \<open>The query of a watcher after a run, and the revision it leads to.\<close>

lemma ws_run_query:
  assumes "ws_wf B ws" and "unat (ws_Rev ws) + length ops < 2 ^ 64"
    and "\<forall>w \<in> set ops. utf8_valid (op_key w)" and "length ops \<le> wc_capacity (ws_wc ws)"
  shows "\<exists>evs. getEventsLocked (ws_wc (ws_run B ws ops)) (ws_Rev ws) prefix = Some evs \<and>
    (\<forall>k. HasPrefix k prefix \<longrightarrow>
      replay (kv_values (ws_abs B ws)) evs k = kv_values (ws_abs B (ws_run B ws ops)) k)"
proof -
  let ?r = "ws_Rev ws" and ?ws' = "ws_run B ws ops"
  obtain log where hist: "ws_hist B ws log" using assms(1) by (auto simp: ws_wf_def)
  obtain new where new: "ws_hist B ?ws' (log @ new)" "length new \<le> length ops"
    "\<forall>ev \<in> set new. ?r < ev_rev ev"
    "replay (kv_values (ws_abs B ws)) new = kv_values (ws_abs B ?ws')"
    "wc_capacity (ws_wc ?ws') = wc_capacity (ws_wc ws)"
    using ws_run_replay [OF hist _ assms(3)] assms(2)
    by (auto simp: ws_Rev_def bs_Rev_def)
  have log: "wc_log (ws_wc ?ws') (log @ new)" "\<forall>ev \<in> set new. evEntry ev \<noteq> None"
    using new(1) by (auto simp: ws_hist_def wc_log_def simp del: not_None_eq)
  have old: "\<forall>ev \<in> set log. ev_rev ev \<le> ?r"
    using hist by (simp add: ws_hist_def ws_Rev_def bs_Rev_def)
  have "set (take (length (log @ new) - wc_capacity (ws_wc ?ws')) (log @ new)) \<subseteq> set log"
    using new(2,5) assms(4) by (auto dest: in_set_takeD)
  then have "getEventsLocked (ws_wc ?ws') ?r prefix = Some (filter (wanted ?r prefix) (log @ new))"
    using old by (intro getEventsLocked_complete [OF log(1)]) auto
  also have "\<dots> = Some (filter (\<lambda>ev. HasPrefix (ev_key ev) prefix) new)"
    using new(3) log(2) old by (simp only: wanted_new ball_conj_distrib)
  finally show ?thesis
    using new(4) by (metis replay_filter)
qed

lemma ws_run_wf:
  assumes "ws_wf B ws" and "unat (ws_Rev ws) + length ops < 2 ^ 64" and "\<forall>w \<in> set ops. utf8_valid (op_key w)"
  shows "ws_wf B (ws_run B ws ops)" and "ws_Rev ws \<le> ws_Rev (ws_run B ws ops)"
proof -
  obtain log where hist: "ws_hist B ws log" using assms(1) by (auto simp: ws_wf_def)
  show "ws_wf B (ws_run B ws ops)" and "ws_Rev ws \<le> ws_Rev (ws_run B ws ops)"
    using ws_run_replay [OF hist _ assms(3)] assms(2) by (auto simp: ws_wf_def ws_Rev_def bs_Rev_def)
qed

text \<open>Any number of writes: the answer is what the buffer still holds of the new events.\<close>

lemma ws_run_tail:
  assumes "ws_wf B ws" and "unat (ws_Rev ws) + length ops < 2 ^ 64" and "\<forall>w \<in> set ops. utf8_valid (op_key w)"
  obtains lost seen where
    "getEventsLocked (ws_wc (ws_run B ws ops)) (ws_Rev ws) prefix = Some (filter (\<lambda>ev. HasPrefix (ev_key ev) prefix) seen)"
    "replay (kv_values (ws_abs B ws)) (lost @ seen) = kv_values (ws_abs B (ws_run B ws ops))"
    "length ops \<le> wc_capacity (ws_wc ws) \<Longrightarrow> lost = []" "\<forall>ev \<in> set seen. evEntry ev \<noteq> None"
proof -
  let ?r = "ws_Rev ws" and ?ws' = "ws_run B ws ops"
  obtain log where hist: "ws_hist B ws log" using assms(1) by (auto simp: ws_wf_def)
  obtain new where new: "ws_hist B ?ws' (log @ new)" "length new \<le> length ops" "\<forall>ev \<in> set new. ?r < ev_rev ev"
    "replay (kv_values (ws_abs B ws)) new = kv_values (ws_abs B ?ws')" "wc_capacity (ws_wc ?ws') = wc_capacity (ws_wc ws)"
    using ws_run_replay [OF hist _ assms(3)] assms(2) by (auto simp: ws_Rev_def bs_Rev_def)
  define i where "i = length (log @ new) - wc_capacity (ws_wc ws)"
  define seen where "seen = drop (i - length log) new"
  define lost where "lost = take (i - length log) new"
  have log: "wc_log (ws_wc ?ws') (log @ new)" "\<forall>ev \<in> set new. evEntry ev \<noteq> None"
    using new(1) by (auto simp: ws_hist_def wc_log_def simp del: not_None_eq)
  have tail: "last_n (wc_capacity (ws_wc ?ws')) (log @ new) = drop i log @ seen"
    by (simp add: last_n_def new(5) i_def seen_def)
  have entries: "\<forall>ev \<in> set seen. evEntry ev \<noteq> None"
    using log(2) by (auto simp: seen_def simp del: not_None_eq dest: in_set_dropD)
  have "\<forall>ev \<in> set seen. evEntry ev \<noteq> None \<and> ?r < ev_rev ev"
    using log(2) new(3) by (auto simp: seen_def simp del: not_None_eq dest: in_set_dropD)
  moreover have "\<forall>ev \<in> set (drop i log). ev_rev ev \<le> ?r"
    using hist by (auto simp: ws_hist_def ws_Rev_def bs_Rev_def dest: in_set_dropD)
  ultimately have "filter (wanted ?r prefix) (drop i log @ seen) = filter (\<lambda>ev. HasPrefix (ev_key ev) prefix) seen"
    by (rule wanted_new)
  then have "getEventsLocked (ws_wc ?ws') ?r prefix = Some (filter (\<lambda>ev. HasPrefix (ev_key ev) prefix) seen)"
    using getEventsLocked_log [OF log(1)] tail by simp
  moreover have "replay (kv_values (ws_abs B ws)) (lost @ seen) = kv_values (ws_abs B ?ws')"
    using new(4) unfolding lost_def seen_def append_take_drop_id .
  moreover have "length ops \<le> wc_capacity (ws_wc ws) \<Longrightarrow> lost = []"
    using new(2) by (simp add: lost_def i_def)
  ultimately show ?thesis using entries that by blast
qed

text \<open>A write leaves the other keys alone and moves the revision by one at most.\<close>

lemma ws_exec_frame:
  assumes "ws_wf B ws" and "bs_rev (ws_bs ws) < max_rev"
  shows "ws_wf B (ws_exec B ws w)" and "unat (bs_rev (ws_bs (ws_exec B ws w))) \<le> unat (bs_rev (ws_bs ws)) + 1"
    and "k \<noteq> op_key w \<Longrightarrow> kv_values (ws_abs B (ws_exec B ws w)) k = kv_values (ws_abs B ws) k"
proof -
  have r: "kv_rev (ws_abs B ws) < max_rev" using assms(2) by simp
  have rev: "ws_abs B ws' = kv_put s k v \<Longrightarrow> bs_rev (ws_bs ws') = kv_rev s + 1"
    "ws_abs B ws' = kv_delete s k \<Longrightarrow> bs_rev (ws_bs ws') = kv_rev s + 1" for ws' s k v
    using bs_abs_simps(2) [of B "ws_bs ws'"] by (simp_all add: kv_put_def kv_delete_def)
  have err: "unat (bs_rev (ws_bs ws')) \<le> unat (bs_rev (ws_bs ws)) + 1 \<and> kv_values (ws_abs B ws') k = kv_values (ws_abs B ws) k"
    if "bs_entries B (ws_bs ws') = bs_entries B (ws_bs ws)" "bs_rev (ws_bs ws') \<in> {bs_rev (ws_bs ws), bs_rev (ws_bs ws) + 1}" for ws'
    using that below_max [OF assms(2)] by (auto simp: kv_values_def)
  have ok: "unat (bs_rev (ws_bs ws')) \<le> unat (bs_rev (ws_bs ws)) + 1" if "bs_rev (ws_bs ws') = bs_rev (ws_bs ws) + 1" for ws'
    using that below_max [OF assms(2)] by simp
  have "ws_wf B (ws_exec B ws w) \<and> unat (bs_rev (ws_bs (ws_exec B ws w))) \<le> unat (bs_rev (ws_bs ws)) + 1 \<and>
      (k \<noteq> op_key w \<longrightarrow> kv_values (ws_abs B (ws_exec B ws w)) k = kv_values (ws_abs B ws) k)"
  proof (cases w)
    case (WPut k0 v)
    obtain x ws' where x: "ws_Put B ws k0 v = (x, ws')" by (cases "ws_Put B ws k0 v")
    then have "ws_exec B ws w = ws'" by (simp add: ws_exec_def WPut)
    then show ?thesis
      using x err [of ws'] ok [of ws'] ws.put_err [OF assms(1) r, of k0 v] ws.put_ok [OF assms(1) r, of k0 v] rev(1) [of ws' "ws_abs B ws" k0 v]
      by (cases x) (simp_all add: op_key_def WPut kv_values_def kv_put_def)
  next
    case (WDelete k0)
    obtain x ws' where x: "ws_Delete B ws k0 = (x, ws')" by (cases "ws_Delete B ws k0")
    then have "ws_exec B ws w = ws'" by (simp add: ws_exec_def WDelete)
    then show ?thesis
      using x err [of ws'] ok [of ws'] ws.delete_err [OF assms(1) r, of k0] ws.delete_ok [OF assms(1) r, of k0] rev(2) [of ws' "ws_abs B ws" k0]
      by (cases x) (simp_all add: op_key_def WDelete kv_values_def kv_delete_def)
  qed
  then show "ws_wf B (ws_exec B ws w)" "unat (bs_rev (ws_bs (ws_exec B ws w))) \<le> unat (bs_rev (ws_bs ws)) + 1"
    "k \<noteq> op_key w \<Longrightarrow> kv_values (ws_abs B (ws_exec B ws w)) k = kv_values (ws_abs B ws) k" by blast+
qed

lemma ws_run_frame:
  assumes "ws_wf B ws" and "unat (ws_Rev ws) + length ops < 2 ^ 64"
  shows "unat (ws_Rev (ws_run B ws ops)) \<le> unat (ws_Rev ws) + length ops \<and>
    (k \<notin> op_key ` set ops \<longrightarrow> kv_values (ws_abs B (ws_run B ws ops)) k = kv_values (ws_abs B ws) k)"
  using assms
proof (induction ops arbitrary: ws)
  case (Cons w ops)
  have r: "bs_rev (ws_bs ws) < max_rev"
    using Cons.prems(2) by (simp add: max_rev_def word_less_nat_alt ws_Rev_def bs_Rev_def)
  note step = ws_exec_frame [OF Cons.prems(1) r, where w = w]
  have "unat (ws_Rev (ws_exec B ws w)) + length ops < 2 ^ 64"
    using step(2) Cons.prems(2) by (simp add: ws_Rev_def bs_Rev_def)
  from Cons.IH [OF step(1) this] step(2,3) show ?case by (simp add: ws_run_def ws_Rev_def bs_Rev_def)
qed (simp add: ws_run_def)

text \<open>A query at the store's own revision finds nothing.\<close>

lemma ws_query_current: "ws_wf B ws \<Longrightarrow> getEventsLocked (ws_wc ws) (ws_Rev ws) p = Some []"
  unfolding ws_wf_def
proof (elim exE)
  fix log assume hist: "ws_hist B ws log"
  then have "wc_log (ws_wc ws) log" by (simp add: ws_hist_def)
  moreover have "set (last_n n log) \<subseteq> set log" for n by (auto simp: last_n_def dest: in_set_dropD)
  then have "filter (wanted (ws_Rev ws) p) (last_n n log) = []" for n
    using hist by (fastforce simp: filter_empty_conv ws_hist_def ws_Rev_def bs_Rev_def dest: wanted_rev)
  ultimately show "getEventsLocked (ws_wc ws) (ws_Rev ws) p = Some []" by (simp add: getEventsLocked_log)
qed

end

section \<open>Properties of the watchable store\<close>

text \<open>C3: a watcher that follows the protocol misses nothing. Take a watcher that knows the
  values of the store at its revision \<open>r\<close>. After any sequence of puts and deletes, failing ones
  included, that is no longer than the cache, the cache answers the query \<open>(r, prefix)\<close>
  without a panic, and applying the answer to the known values gives, for every key under the
  prefix, the store's current value.\<close>

theorem watch_replay:
  assumes "bolt_api B" and "ws_wf B ws" and "unat (ws_Rev ws) + length ops < 2 ^ 64"
    and "\<forall>w \<in> set ops. utf8_valid (op_key w)" and "length ops \<le> wc_capacity (ws_wc ws)"
  shows "\<exists>evs. getEventsLocked (ws_wc (ws_run B ws ops)) (ws_Rev ws) prefix = Some evs \<and>
    (\<forall>k. HasPrefix k prefix \<longrightarrow>
      replay (kv_values (ws_abs B ws)) evs k = kv_values (ws_abs B (ws_run B ws ops)) k)"
  using bolt_api.ws_run_query [OF assms] .

definition demo_watchable :: "mem_db WatchableStore" where
  "demo_watchable = NewWatchableStore (mem_store 8)"

lemma demo_watchable_wf:
  "ws_hist mem_bolt demo_watchable []" "ws_Rev demo_watchable = 0"
  "wc_capacity (ws_wc demo_watchable) = 4096"
  using mem_store_wf [of 8] NewWatchCache_log [of 4096]
  by (simp_all add: ws_hist_def demo_watchable_def NewWatchableStore_def log_revs_def ws_Rev_def
      bs_Rev_def mem_store_def defaultWatchCacheSize_def NewWatchCache_def)

definition demo_ops :: "wop list" where
  "demo_ops = [WPut ''a'' (Some ''1''), WDelete ''a'']"

theorem watch_replay_witness:
  "\<exists>evs. getEventsLocked (ws_wc (ws_run mem_bolt demo_watchable demo_ops)) 0 ''a'' = Some evs \<and>
    replay (kv_values (ws_abs mem_bolt demo_watchable)) evs ''a''
      = kv_values (ws_abs mem_bolt (ws_run mem_bolt demo_watchable demo_ops)) ''a''"
proof -
  have wf: "ws_wf mem_bolt demo_watchable" using demo_watchable_wf(1) by (auto simp: ws_wf_def)
  have "utf8_valid ''a''" by code_simp
  then have ops: "\<forall>w \<in> set demo_ops. utf8_valid (op_key w)" "length demo_ops = 2"
    by (simp_all add: demo_ops_def op_key_def)
  have "HasPrefix ''a'' ''a''" by (simp add: HasPrefix_def)
  then show ?thesis
    using watch_replay [OF mem_bolt_api wf _ ops(1), of "''a''"] demo_watchable_wf(2,3) ops(2) by auto
qed

end
