(* ===== verification/Raft_Fsm.thy ===== *)
theory Raft_Fsm
  imports Watchable_Store
begin

text \<open>
  The replicated state machine of \<^verbatim>\<open>raft/node.go\<close>: the operations and their JSON, \<^verbatim>\<open>FSM.Apply\<close>,
  snapshots and their restoration. A log entry is the text that \<^verbatim>\<open>Node.Apply\<close> marshals. The
  state of the machine is the watchable store and the last value given to the gauge
  \<^verbatim>\<open>metrics.StoreRevision\<close>. \<open>fsm_spec\<close> is the abstract machine on the versioned map; the
  concrete one refines it on every replica whose disk does not fail, so that replicas that
  apply the same log agree.
\<close>

section \<open>Operations and results\<close>

record Op =
  opType :: string
  opKey :: string
  opValue :: bytes

definition zeroOp :: Op where
  "zeroOp = \<lparr>opType = [], opKey = [], opValue = None\<rparr>"

record OpResult =
  orEntry :: "Entry option"
  orPrevEntry :: "Entry option"
  orErr :: "err option"

abbreviation op_error :: "err \<Rightarrow> OpResult" where
  "op_error e \<equiv> \<lparr>orEntry = None, orPrevEntry = None, orErr = Some e\<rparr>"

text \<open>\<^verbatim>\<open>json.Marshal(op)\<close>: an empty value is left out.\<close>

definition op_json :: "Op \<Rightarrow> json" where
  "op_json op = JObj ([(''type'', JStr (opType op)), (''key'', JStr (opKey op))] @
     (if bytes_str (opValue op) = [] then [] else [(''value'', json_bytes (opValue op))]))"

definition marshal_op :: "Op \<Rightarrow> string" where
  "marshal_op op = marshal (op_json op)"

definition set_op_field :: "string \<Rightarrow> json \<Rightarrow> Op \<Rightarrow> Op option" where
  "set_op_field k j op =
     (if field_name k ''type'' then map_option (\<lambda>x. op\<lparr>opType := x\<rparr>) (set_string (opType op) j)
      else if field_name k ''key'' then map_option (\<lambda>x. op\<lparr>opKey := x\<rparr>) (set_string (opKey op) j)
      else if field_name k ''value'' then map_option (\<lambda>x. op\<lparr>opValue := x\<rparr>) (set_bytes j)
      else Some op)"

definition unmarshal_op :: "string \<Rightarrow> err + Op" where
  "unmarshal_op s = (case unmarshal s of None \<Rightarrow> Inl ErrJson
     | Some j \<Rightarrow> (case decode_struct set_op_field j zeroOp of None \<Rightarrow> Inl ErrJson | Some op \<Rightarrow> Inr op))"

text \<open>An operation as the machine sees it, after the trip through the log.\<close>

definition norm_op :: "Op \<Rightarrow> Op" where
  "norm_op op = \<lparr>opType = utf8_coerce (opType op), opKey = utf8_coerce (opKey op),
     opValue = (if bytes_str (opValue op) = [] then None else opValue op)\<rparr>"

lemma op_names [simp]: "fold_name ''type'' = ''type''" "utf8_coerce ''type'' = ''type''"
  by (simp_all add: lower_char_def between_def utf8_coerce_ascii)

lemma set_op_field_simps [simp]:
  "set_op_field ''type'' (JStr x) op = Some (op\<lparr>opType := x\<rparr>)"
  "set_op_field ''key'' (JStr x) op = Some (op\<lparr>opKey := x\<rparr>)"
  "set_op_field ''value'' (json_bytes b) op = Some (op\<lparr>opValue := b\<rparr>)"
  by (simp_all add: set_op_field_def field_name_def del: fold_name.simps)

lemma unmarshal_marshal_op [codec_simps]: "unmarshal_op (marshal_op op) = Inr (norm_op op)"
proof -
  have "wf_json (op_json op)" by (simp add: op_json_def)
  then show ?thesis
    by (simp add: unmarshal_op_def marshal_op_def unmarshal_marshal)
      (simp add: op_json_def zeroOp_def norm_op_def)
qed

section \<open>FSM.Apply\<close>

record 'db FSM =
  fsm_store :: "'db WatchableStore"
  fsm_gauge :: "u64 option"

text \<open>
  \<^verbatim>\<open>FSM.Apply\<close>. A put that succeeds always has an entry; a nil one would be a panic.
\<close>

definition fsm_Apply :: "'db bolt \<Rightarrow> 'db FSM \<Rightarrow> string \<Rightarrow> OpResult \<times> 'db FSM" where
  "fsm_Apply B f data =
     (case unmarshal_op data of
        Inl e \<Rightarrow> (op_error (Wrap ''unmarshal op'' e), f)
      | Inr op \<Rightarrow>
          if opType op = ''put'' then
            (case ws_Put B (fsm_store f) (opKey op) (opValue op) of
               (Inl e, ws) \<Rightarrow> (op_error (Wrap ''store put'' e), f\<lparr>fsm_store := ws\<rparr>)
             | (Inr result, ws) \<Rightarrow>
                 (case prEntry result of
                    None \<Rightarrow> (op_error (Panic ''nil pointer dereference''), f\<lparr>fsm_store := ws\<rparr>)
                  | Some e \<Rightarrow> (\<lparr>orEntry = Some e, orPrevEntry = prPrevEntry result, orErr = None\<rparr>,
                      \<lparr>fsm_store = ws, fsm_gauge = Some (eRevision e)\<rparr>)))
          else if opType op = ''delete'' then
            (case ws_Delete B (fsm_store f) (opKey op) of
               (Inl e, ws) \<Rightarrow> (op_error e, f\<lparr>fsm_store := ws\<rparr>)
             | (Inr deleted, ws) \<Rightarrow> (\<lparr>orEntry = Some deleted, orPrevEntry = None, orErr = None\<rparr>,
                 \<lparr>fsm_store = ws, fsm_gauge = Some (ws_Rev ws)\<rparr>))
          else (op_error (ErrQuoted ''unknown op type'' (opType op)), f))"

text \<open>The committed log entries, applied in order; the responses are kept.\<close>

fun fsm_run :: "'db bolt \<Rightarrow> 'db FSM \<Rightarrow> string list \<Rightarrow> OpResult list \<times> 'db FSM" where
  "fsm_run B f [] = ([], f)"
| "fsm_run B f (data # log) =
     (case fsm_Apply B f data of (res, f') \<Rightarrow>
       (case fsm_run B f' log of (rs, f'') \<Rightarrow> (res # rs, f'')))"

section \<open>Snapshots\<close>

record fsmSnapshot =
  snap_entries :: "Entry list"
  snap_rev :: u64

definition fsm_Snapshot :: "'db bolt \<Rightarrow> 'db FSM \<Rightarrow> err + fsmSnapshot" where
  "fsm_Snapshot B f = (case ws_List B (fsm_store f) [] of Inl e \<Rightarrow> Inl e
     | Inr entries \<Rightarrow> Inr \<lparr>snap_entries = entries, snap_rev = ws_Rev (fsm_store f)\<rparr>)"

text \<open>
  \<^verbatim>\<open>snapshotData\<close>. \<^verbatim>\<open>List\<close> returns a nil slice when there is no entry, which marshals as null.
  When decoding, an element is a pointer that may be nil.
\<close>

record snapshotData =
  sd_Entries :: "Entry option list"
  sd_Rev :: u64

definition snapshot_json :: "fsmSnapshot \<Rightarrow> json" where
  "snapshot_json s = JObj
     [(''entries'', if snap_entries s = [] then JNull else JArr (map entry_json (snap_entries s))),
      (''rev'', json_uint (snap_rev s))]"

definition set_entries :: "Entry option list \<Rightarrow> json \<Rightarrow> Entry option list option" where
  "set_entries olds j = set_slice (set_ptr (\<lambda>e j. decode_struct set_entry_field j e) zeroEntry) None olds j"

definition set_snapshot_field :: "string \<Rightarrow> json \<Rightarrow> snapshotData \<Rightarrow> snapshotData option" where
  "set_snapshot_field k j s =
     (if field_name k ''entries'' then map_option (\<lambda>x. s\<lparr>sd_Entries := x\<rparr>) (set_entries (sd_Entries s) j)
      else if field_name k ''rev'' then map_option (\<lambda>x. s\<lparr>sd_Rev := x\<rparr>) (set_uint (sd_Rev s) j)
      else Some s)"

definition decode_snapshot :: "string \<Rightarrow> err + snapshotData" where
  "decode_snapshot s = (case decode s of None \<Rightarrow> Inl ErrJson
     | Some j \<Rightarrow> (case decode_struct set_snapshot_field j \<lparr>sd_Entries = [], sd_Rev = 0\<rparr> of
         None \<Rightarrow> Inl ErrJson | Some d \<Rightarrow> Inr d))"

text \<open>\<^verbatim>\<open>Persist\<close> writes to a \<^verbatim>\<open>raft.SnapshotSink\<close>, an interface of the raft library.\<close>

record 'k SnapshotSink =
  sink_Write :: "'k \<Rightarrow> string \<Rightarrow> err option \<times> 'k"
  sink_Close :: "'k \<Rightarrow> err option \<times> 'k"
  sink_Cancel :: "'k \<Rightarrow> 'k"

definition Persist :: "'k SnapshotSink \<Rightarrow> fsmSnapshot \<Rightarrow> 'k \<Rightarrow> err option \<times> 'k" where
  "Persist S snap sink = (let data = marshal (snapshot_json snap) in
     (case sink_Write S sink data of
        (Some e, sink') \<Rightarrow> (Some e, sink_Cancel S sink')
      | (None, sink') \<Rightarrow> sink_Close S sink'))"

text \<open>The loop of \<^verbatim>\<open>Restore\<close>, which puts the entries into the embedded \<^verbatim>\<open>BoltStore\<close>.\<close>

fun restore_loop :: "'db bolt \<Rightarrow> 'db BoltStore \<Rightarrow> Entry option list \<Rightarrow> err option \<times> 'db BoltStore" where
  "restore_loop B bs [] = (None, bs)"
| "restore_loop B bs (None # es) = (Some (Panic ''nil pointer dereference''), bs)"
| "restore_loop B bs (Some e # es) =
     (case bs_Put B bs (eKey e) (eValue e) of
        (Inl er, bs') \<Rightarrow> (Some (Wrap (''restore key '' @ eKey e) er), bs')
      | (Inr _, bs') \<Rightarrow> restore_loop B bs' es)"

definition fsm_Restore :: "'db bolt \<Rightarrow> 'db FSM \<Rightarrow> string \<Rightarrow> err option \<times> 'db FSM" where
  "fsm_Restore B f rc =
     (case decode_snapshot rc of
        Inl e \<Rightarrow> (Some (Wrap ''decode snapshot'' e), f)
      | Inr snap \<Rightarrow>
          (case restore_loop B (ws_bs (fsm_store f)) (sd_Entries snap) of
             (Some e, bs) \<Rightarrow> (Some e, f\<lparr>fsm_store := (fsm_store f)\<lparr>ws_bs := bs\<rparr>\<rparr>)
           | (None, bs) \<Rightarrow> (let ws = (fsm_store f)\<lparr>ws_bs := bs\<rparr> in
               (None, \<lparr>fsm_store = ws, fsm_gauge = Some (ws_Rev ws)\<rparr>))))"

section \<open>Replicas whose disk does not fail\<close>

text \<open>
  \<open>reject\<close> is bbolt's validation of a key and a value, which does not depend on the state: the
  same write is accepted or rejected on every replica. Everything else succeeds.
\<close>

locale reliable_bolt = bolt_api B for B :: "'db bolt" +
  fixes reject :: "string \<Rightarrow> string \<Rightarrow> err option"
  assumes put_reject: "reject k v = Some e \<Longrightarrow> tx_put B d b k v = Inl e"
    and put_accept: "reject k v = None \<Longrightarrow> \<exists>d'. tx_put B d b k v = Inr d'"
    and delete_sure: "\<exists>d'. tx_delete B d b k = Inr d'"
    and commit_sure: "\<exists>d'. tx_commit B d = Inr d'"
    and accept_rev: "reject keyRev (PutUint64 r) = None"

text \<open>The abstract machine on the versioned map.\<close>

definition fsm_spec :: "(string \<Rightarrow> string \<Rightarrow> err option) \<Rightarrow> kv \<Rightarrow> string \<Rightarrow> OpResult \<times> kv" where
  "fsm_spec reject s data =
     (case unmarshal_op data of
        Inl e \<Rightarrow> (op_error (Wrap ''unmarshal op'' e), s)
      | Inr op \<Rightarrow>
          if opType op = ''put'' then
            (let e = kv_next s (opKey op) (opValue op) in
             case reject (opKey op) (marshal_entry e) of
               Some er \<Rightarrow> (op_error (Wrap ''store put'' er), s)
             | None \<Rightarrow> (\<lparr>orEntry = Some e, orPrevEntry = kv_map s (opKey op), orErr = None\<rparr>,
                 kv_put s (opKey op) (opValue op)))
          else if opType op = ''delete'' then
            (case kv_map s (opKey op) of
               None \<Rightarrow> (op_error ErrKeyNotFound, s)
             | Some p \<Rightarrow> (\<lparr>orEntry = Some (p\<lparr>eRevision := kv_rev s + 1\<rparr>), orPrevEntry = None, orErr = None\<rparr>,
                 kv_delete s (opKey op)))
          else (op_error (ErrQuoted ''unknown op type'' (opType op)), s))"

fun fsm_spec_run :: "(string \<Rightarrow> string \<Rightarrow> err option) \<Rightarrow> kv \<Rightarrow> string list \<Rightarrow> OpResult list \<times> kv" where
  "fsm_spec_run reject s [] = ([], s)"
| "fsm_spec_run reject s (data # log) =
     (case fsm_spec reject s data of (res, s') \<Rightarrow>
       (case fsm_spec_run reject s' log of (rs, s'') \<Rightarrow> (res # rs, s'')))"

abbreviation fsm_abs :: "'db bolt \<Rightarrow> 'db FSM \<Rightarrow> kv" where
  "fsm_abs B f \<equiv> ws_abs B (fsm_store f)"

lemma fsm_spec_rev: "fsm_spec reject s data = (res, s') \<Longrightarrow> kv_rev s' \<in> {kv_rev s, kv_rev s + 1}"
  by (auto simp: fsm_spec_def Let_def kv_put_def kv_delete_def split: sum.splits option.splits if_splits)

lemma kv_next_put_entry: "kv_next (bs_abs B s) k v = put_entry k v (bs_rev s + 1) (bs_entries B s k)"
  by (auto simp: kv_next_def put_entry_def Let_def split: option.splits)

context reliable_bolt
begin

lemma bs_Put_reject:
  assumes "bs_wf B s" and "reject k (marshal_entry (kv_next (bs_abs B s) k v)) = Some e"
  shows "bs_Put B s k v = (Inl e, s)"
  using put_reject assms(2)
  by (simp add: bs_Put_def bs_put_tx_def read_prev_wf [OF assms(1)] Let_def kv_next_put_entry)

lemma bs_Put_accept:
  assumes "bs_wf B s" and "reject k (marshal_entry (kv_next (bs_abs B s) k v)) = None"
  shows "\<exists>res s'. bs_Put B s k v = (Inr res, s')"
proof -
  let ?e = "put_entry k v (bs_rev s + 1) (bs_entries B s k)"
  obtain d1 where d1: "tx_put B (bs_db s) bucketData k (marshal_entry ?e) = Inr d1"
    using put_accept assms(2) by (metis kv_next_put_entry)
  obtain d2 where d2: "tx_put B d1 bucketMeta keyRev (PutUint64 (bs_rev s + 1)) = Inr d2"
    using put_accept [OF accept_rev] by blast
  obtain d3 where "tx_commit B d2 = Inr d3" using commit_sure by blast
  then show ?thesis
    by (simp add: bs_Put_def bs_put_tx_def read_prev_wf [OF assms(1)] Let_def d1 d2)
qed

lemma bs_Delete_found:
  assumes wf: "bs_wf B s" and "bs_entries B s k = Some p"
  shows "\<exists>d s'. bs_Delete B s k = (Inr d, s')"
proof -
  obtain raw where raw: "tx_get B (bs_db s) bucketData k = Some raw"
    using assms wf_get_iff [OF wf, of k] by (cases "tx_get B (bs_db s) bucketData k") auto
  obtain e where e: "unmarshal_entry raw = Inr e" using wf_raw [OF wf raw] by metis
  obtain d1 where d1: "tx_delete B (bs_db s) bucketData k = Inr d1" using delete_sure by blast
  obtain d2 where d2: "tx_put B d1 bucketMeta keyRev (PutUint64 (bs_rev s + 1)) = Inr d2"
    using put_accept [OF accept_rev] by blast
  obtain d3 where "tx_commit B d2 = Inr d3" using commit_sure by blast
  then show ?thesis
    by (simp add: bs_Delete_def bs_delete_tx_def raw e d1 d2 Let_def)
qed

text \<open>The two writes of the watchable store, as functions of the abstract state.\<close>

lemma ws_Put_sure:
  assumes "ws_wf B ws" and "bs_rev (ws_bs ws) < max_rev"
  defines "s \<equiv> ws_abs B ws"
  shows "case reject k (marshal_entry (kv_next s k v)) of
      Some e \<Rightarrow> ws_Put B ws k v = (Inl e, ws)
    | None \<Rightarrow> \<exists>ws'. ws_Put B ws k v = (Inr \<lparr>prEntry = Some (kv_next s k v), prPrevEntry = kv_map s k\<rparr>, ws')
        \<and> ws_wf B ws' \<and> ws_abs B ws' = kv_put s k v"
proof -
  obtain log where hist: "ws_hist B ws log" using assms(1) by (auto simp: ws_wf_def)
  then have wf: "bs_wf B (ws_bs ws)" by (simp add: ws_hist_def)
  show ?thesis
  proof (cases "reject k (marshal_entry (kv_next s k v))")
    case None
    then obtain res bs where bs: "bs_Put B (ws_bs ws) k v = (Inr res, bs)"
      using bs_Put_accept [OF wf] s_def by blast
    from ws_Put_bs_ok [OF hist assms(2) this] obtain ws' where "ws_Put B ws k v = (Inr res, ws')"
      by blast
    with None ws_Put_ok [OF hist assms(2) this] show ?thesis by (auto simp: s_def ws_wf_def)
  next
    case (Some e)
    with bs_Put_reject [OF wf] show ?thesis by (simp add: ws_Put_serial s_def)
  qed
qed

lemma ws_Delete_sure:
  assumes "ws_wf B ws" and "bs_rev (ws_bs ws) < max_rev"
  defines "s \<equiv> ws_abs B ws"
  shows "case kv_map s k of
      None \<Rightarrow> ws_Delete B ws k = (Inl ErrKeyNotFound, ws)
    | Some p \<Rightarrow> \<exists>ws'. ws_Delete B ws k = (Inr (p\<lparr>eRevision := kv_rev s + 1\<rparr>), ws')
        \<and> ws_wf B ws' \<and> ws_abs B ws' = kv_delete s k"
proof -
  obtain log where hist: "ws_hist B ws log" using assms(1) by (auto simp: ws_wf_def)
  then have wf: "bs_wf B (ws_bs ws)" by (simp add: ws_hist_def)
  show ?thesis
  proof (cases "kv_map s k")
    case None
    with bs_Delete_missing [OF wf] show ?thesis by (simp add: ws_Delete_serial s_def)
  next
    case (Some p)
    then obtain d bs where bs: "bs_Delete B (ws_bs ws) k = (Inr d, bs)"
      using bs_Delete_found [OF wf] s_def by fastforce
    from ws_Delete_bs_ok [OF hist assms(2) this] obtain ws' where "ws_Delete B ws k = (Inr d, ws')"
      by blast
    with Some ws_Delete_ok [OF hist assms(2) this] show ?thesis by (auto simp: s_def ws_wf_def)
  qed
qed

text \<open>The machine refines the abstract one, and after a successful write the gauge is right.\<close>

lemma fsm_Apply_refines:
  assumes "ws_wf B (fsm_store f)" and "bs_rev (ws_bs (fsm_store f)) < max_rev"
    and "fsm_Apply B f data = (res, f')"
  shows "fsm_spec reject (fsm_abs B f) data = (res, fsm_abs B f') \<and> ws_wf B (fsm_store f') \<and>
    fsm_gauge f' = (if orErr res = None then Some (ws_Rev (fsm_store f')) else fsm_gauge f)"
proof (cases "unmarshal_op data")
  case (Inl e)
  then show ?thesis using assms(1,3) by (auto simp: fsm_Apply_def fsm_spec_def)
next
  case (Inr op)
  note put = ws_Put_sure [OF assms(1,2), of "opKey op" "opValue op"]
  note del = ws_Delete_sure [OF assms(1,2), of "opKey op"]
  have rev: "ws_abs B ws' = kv_put s k v \<Longrightarrow> bs_rev (ws_bs ws') = kv_rev s + 1"
    "ws_abs B ws' = kv_delete s k \<Longrightarrow> bs_rev (ws_bs ws') = kv_rev s + 1" for ws' s k v
    using bs_abs_simps(2) [of B "ws_bs ws'"] by (simp_all add: kv_put_def kv_delete_def)
  have nx: "eRevision (kv_next s k v) = kv_rev s + 1" for s k v
    by (simp add: kv_next_def Let_def)
  consider (put) "opType op = ''put''" | (delete) "opType op = ''delete''"
    | (other) "opType op \<notin> {''put'', ''delete''}" by blast
  then show ?thesis
  proof cases
    case put
    then show ?thesis
      using Inr assms ws_Put_sure [OF assms(1,2), of "opKey op" "opValue op"]
      by (auto simp: fsm_Apply_def fsm_spec_def Let_def ws_Rev_def bs_Rev_def rev nx split: option.splits)
  next
    case delete
    then show ?thesis
      using Inr assms del
      by (auto simp: fsm_Apply_def fsm_spec_def Let_def split: option.splits)
  next
    case other
    then show ?thesis using Inr assms by (auto simp: fsm_Apply_def fsm_spec_def)
  qed
qed

lemma fsm_run_refines:
  assumes "ws_wf B (fsm_store f)" and "unat (kv_rev (fsm_abs B f)) + length log < 2 ^ 64"
    and "fsm_run B f log = (rs, f')"
  shows "fsm_spec_run reject (fsm_abs B f) log = (rs, fsm_abs B f') \<and> ws_wf B (fsm_store f')"
  using assms
proof (induction log arbitrary: f rs)
  case (Cons data log)
  obtain res f1 where f1: "fsm_Apply B f data = (res, f1)" by (cases "fsm_Apply B f data")
  obtain rs' where rs': "fsm_run B f1 log = (rs', f')" "rs = res # rs'"
    using Cons.prems(3) f1 by (auto split: prod.splits)
  have r: "bs_rev (ws_bs (fsm_store f)) < max_rev"
    using Cons.prems(2) by (simp add: max_rev_def word_less_nat_alt)
  note step = fsm_Apply_refines [OF Cons.prems(1) r f1]
  have "unat (kv_rev (fsm_abs B f1)) \<le> unat (kv_rev (fsm_abs B f)) + 1"
    using fsm_spec_rev [OF conjunct1 [OF step]] below_max [OF r] by auto
  then show ?case using Cons.IH [of f1 rs'] step rs' Cons.prems(2) by simp
qed simp

end

section \<open>Snapshot and restore\<close>

lemma snapshot_names [simp]:
  "fold_name ''entries'' = ''entries''" "fold_name ''rev'' = ''rev''"
  "utf8_coerce ''entries'' = ''entries''" "utf8_coerce ''rev'' = ''rev''"
  by (simp_all add: lower_char_def between_def utf8_coerce_ascii)

lemma set_entries_json: "set_entries [] (JArr (map entry_json es)) = Some (map Some es)"
proof -
  have "set_ptr (\<lambda>e j. decode_struct set_entry_field j e) zeroEntry None (entry_json e) = Some (Some e)" for e
    using json_entry_json [of e] by (simp add: set_ptr_def json_entry_def) (simp add: entry_json_def)
  then show ?thesis by (simp add: set_entries_def set_slice_def decode_slice_map)
qed

lemma set_snapshot_field_simps [simp]:
  "set_snapshot_field ''entries'' j s = map_option (\<lambda>x. s\<lparr>sd_Entries := x\<rparr>) (set_entries (sd_Entries s) j)"
  "set_snapshot_field ''rev'' (json_uint n) s = Some (s\<lparr>sd_Rev := n\<rparr>)"
  by (simp_all add: set_snapshot_field_def field_name_def del: fold_name.simps)

lemma decode_snapshot_json [codec_simps]:
  "decode_snapshot (marshal (snapshot_json s))
     = Inr \<lparr>sd_Entries = map (\<lambda>e. Some (norm_entry e)) (snap_entries s), sd_Rev = snap_rev s\<rparr>"
proof -
  have "coerced (snapshot_json s) = snapshot_json (s\<lparr>snap_entries := map norm_entry (snap_entries s)\<rparr>)"
    by (simp add: snapshot_json_def coerced_entry_json)
  moreover have "wf_json (snapshot_json s)" by (simp add: snapshot_json_def list_all_iff)
  ultimately have "decode (marshal (snapshot_json s))
      = Some (snapshot_json (s\<lparr>snap_entries := map norm_entry (snap_entries s)\<rparr>))"
    using decode_marshal [of "snapshot_json s" "[]"] by (simp add: num_end_def)
  then show ?thesis
    using set_entries_json [of "map norm_entry (snap_entries s)"]
    by (simp add: decode_snapshot_def) (simp add: snapshot_json_def set_entries_def [of _ JNull] set_slice_def comp_def)
qed

text \<open>What the loop of \<^verbatim>\<open>Restore\<close> does to the abstract map: it puts every entry anew.\<close>

definition kv_restore :: "kv \<Rightarrow> Entry list \<Rightarrow> kv" where
  "kv_restore s es = foldl (\<lambda>s e. kv_put s (eKey e) (eValue e)) s es"

lemma kv_restore_simps [simp]:
  "kv_restore s [] = s" "kv_restore s (e # es) = kv_restore (kv_put s (eKey e) (eValue e)) es"
  by (simp_all add: kv_restore_def)

lemma kv_values_put: "kv_values (kv_put s k v) = (kv_values s)(k \<mapsto> v)"
  by (auto simp: fun_eq_iff kv_values_def kv_put_def kv_next_def Let_def)

lemma kv_restore_rev: "kv_rev (kv_restore s es) = kv_rev s + of_nat (length es)"
  by (induction es arbitrary: s) (simp_all add: kv_put_def)

lemma kv_restore_values:
  assumes "\<And>e. e \<in> set es \<Longrightarrow> g (eKey e) = Some (eValue e)"
  shows "kv_values (kv_restore s es) k = (if k \<in> eKey ` set es then g k else kv_values s k)"
  using assms by (induction es arbitrary: s) (auto simp: kv_values_put)

context bolt_api
begin

lemma ws_kv_store: "kv_store (watchable_ops B) (ws_abs B) (ws_wf B)"
  by unfold_locales

end

context kv_store
begin

text \<open>The full listing of a state, as keys with values.\<close>

lemma full_list_values:
  assumes "invar s" and "\<And>k. kv_map (abs s) k \<noteq> None \<Longrightarrow> utf8_valid k"
  defines "es \<equiv> kv_list (abs s) []"
  shows "e \<in> set es \<Longrightarrow> kv_values (abs s) (eKey e) = Some (eValue e)"
    and "eKey ` set es = {k. kv_map (abs s) k \<noteq> None}"
    and "length es = card {k. kv_map (abs s) k \<noteq> None}"
    and "e \<in> set es \<Longrightarrow> norm_entry e = e"
proof -
  let ?K = "{k. kv_map (abs s) k \<noteq> None}"
  have es: "es = map (\<lambda>k. the (kv_map (abs s) k)) (sorted_list_of_set ?K)"
    by (simp add: es_def kv_list_def HasPrefix_def)
  have mem: "\<exists>k. kv_map (abs s) k = Some e \<and> eKey e = k" if "e \<in> set es" for e
    using that assms(2) keys_ok [OF assms(1)] finite_keys [OF assms(1)]
    by (auto simp: es utf8_coerce_valid)
  have key: "eKey (the (kv_map (abs s) k)) = k" if "k \<in> ?K" for k
    using that assms(2) keys_ok [OF assms(1)] by (auto simp: utf8_coerce_valid)
  show "e \<in> set es \<Longrightarrow> kv_values (abs s) (eKey e) = Some (eValue e)"
    using mem by (auto simp: kv_values_def)
  show "eKey ` set es = ?K"
    using finite_keys [OF assms(1)] key by (force simp: es image_image)
  show "length es = card ?K" by (simp add: es)
  show "e \<in> set es \<Longrightarrow> norm_entry e = e"
    using mem assms(2) by (intro norm_entry_valid) (metis option.distinct(1))
qed

end

definition accepts :: "(string \<Rightarrow> string \<Rightarrow> err option) \<Rightarrow> string \<Rightarrow> bytes \<Rightarrow> bool" where
  "accepts reject k v \<longleftrightarrow> (\<forall>e. eKey e = k \<and> eValue e = v \<longrightarrow> reject k (marshal_entry e) = None)"

context reliable_bolt
begin

lemma restore_loop_sure:
  assumes "bs_wf B bs" and "\<forall>e \<in> set es. accepts reject (eKey e) (eValue e)"
    and "unat (bs_rev bs) + length es < 2 ^ 64"
  shows "\<exists>bs'. restore_loop B bs (map Some es) = (None, bs') \<and> bs_wf B bs' \<and> bs_rev bs \<le> bs_rev bs' \<and>
    bs_abs B bs' = kv_restore (bs_abs B bs) es"
  using assms
proof (induction es arbitrary: bs)
  case (Cons e es)
  have r: "bs_rev bs < max_rev" using Cons.prems(3) by (simp add: max_rev_def word_less_nat_alt)
  have "reject (eKey e) (marshal_entry (kv_next (bs_abs B bs) (eKey e) (eValue e))) = None"
    using Cons.prems(2) by (simp add: accepts_def kv_next_def Let_def)
  then obtain res bs1 where put: "bs_Put B bs (eKey e) (eValue e) = (Inr res, bs1)"
    using bs_Put_accept [OF Cons.prems(1)] by blast
  note ok = bs_Put_ok [OF Cons.prems(1) r put]
  have rev: "bs_rev bs1 = bs_rev bs + 1"
    using arg_cong [OF ok(2), of kv_rev] by (simp add: kv_put_def)
  have wf1: "bs_wf B bs1" using ok(1) by (simp add: bs_synced_def)
  have "unat (bs_rev bs1) + length es < 2 ^ 64"
    using Cons.prems(3) below_max [OF r] by (simp add: rev)
  with Cons.IH [OF wf1] Cons.prems(2) obtain bs' where "restore_loop B bs1 (map Some es) = (None, bs')"
    "bs_wf B bs'" "bs_rev bs1 \<le> bs_rev bs'" "bs_abs B bs' = kv_restore (bs_abs B bs1) es" by auto
  then show ?case using put ok(2) rev below_max_less [OF r] by auto
qed simp

lemma fsm_Restore_sure:
  assumes "ws_wf B (fsm_store f)" and "\<forall>e \<in> set es. accepts reject (eKey e) (eValue e)"
    and "unat (bs_rev (ws_bs (fsm_store f))) + length es < 2 ^ 64"
    and "decode_snapshot rc = Inr \<lparr>sd_Entries = map Some es, sd_Rev = r\<rparr>"
  shows "\<exists>f'. fsm_Restore B f rc = (None, f') \<and> ws_wf B (fsm_store f') \<and>
    fsm_abs B f' = kv_restore (fsm_abs B f) es \<and> ws_wc (fsm_store f') = ws_wc (fsm_store f)"
proof -
  obtain log where hist: "ws_hist B (fsm_store f) log" using assms(1) by (auto simp: ws_wf_def)
  then have wf: "bs_wf B (ws_bs (fsm_store f))" by (simp add: ws_hist_def)
  obtain bs' where bs': "restore_loop B (ws_bs (fsm_store f)) (map Some es) = (None, bs')"
    "bs_wf B bs'" "bs_rev (ws_bs (fsm_store f)) \<le> bs_rev bs'"
    "bs_abs B bs' = kv_restore (fsm_abs B f) es"
    using restore_loop_sure [OF wf assms(2,3)] by blast
  show ?thesis
    using hist_same [OF hist bs'(2,3)] bs'(1,4) by (auto simp: fsm_Restore_def assms(4) Let_def ws_wf_def)
qed

end

section \<open>A reference database that never runs out of space\<close>

definition mem_sure :: "mem_db bolt" where
  "mem_sure = mem_bolt\<lparr>tx_commit := Inr\<rparr>"

definition blank_key :: "string \<Rightarrow> string \<Rightarrow> err option" where
  "blank_key k v = (if k = [] then Some (ErrLib ''key required'') else None)"

lemma mem_sure_reliable: "reliable_bolt mem_sure blank_key"
proof unfold_locales
  fix d b p
  show "set (tx_seek mem_sure d b p) = {(k, v). tx_get mem_sure d b k = Some v \<and> p \<le> k}"
    and "sorted_wrt (<) (map fst (tx_seek mem_sure d b p))"
    using mem.seek_set [of d b p] mem.seek_sorted [of d b p] by (simp_all add: mem_sure_def mem_bolt_def)
qed (auto simp: mem_sure_def mem_put_def mem_delete_def map_of_without blank_key_def keyRev_def
    split: if_splits)

interpretation sure: reliable_bolt mem_sure blank_key
  by (rule mem_sure_reliable)

definition demo_fsm :: "nat \<Rightarrow> mem_db FSM" where
  "demo_fsm q = \<lparr>fsm_store = NewWatchableStore (mem_store q), fsm_gauge = None\<rparr>"

lemma demo_fsm_wf: "ws_wf mem_sure (fsm_store (demo_fsm q))" "kv_rev (fsm_abs mem_sure (demo_fsm q)) = 0"
  "fsm_abs mem_sure (demo_fsm q) = kv_empty"
proof -
  have none: "tx_get mem_sure (mem_empty q) b k = None" for b k by (simp add: mem_sure_def mem_empty_def)
  have "bs_wf mem_sure (mem_store q)"
    using sure.empty_synced [of "mem_empty q"] none by (simp add: bs_synced_def mem_store_def)
  then have "ws_hist mem_sure (fsm_store (demo_fsm q)) []"
    using NewWatchCache_log [of 4096]
    by (simp add: ws_hist_def demo_fsm_def NewWatchableStore_def log_revs_def defaultWatchCacheSize_def)
  then show "ws_wf mem_sure (fsm_store (demo_fsm q))" by (auto simp: ws_wf_def)
  show "kv_rev (fsm_abs mem_sure (demo_fsm q)) = 0" "fsm_abs mem_sure (demo_fsm q) = kv_empty"
    by (simp_all add: demo_fsm_def NewWatchableStore_def mem_store_def bs_abs_def kv_empty_def
        bs_entries_def none fun_eq_iff)
qed

section \<open>Properties of the replicated state machine\<close>

text \<open>C9: on a disk that does not fail, \<^verbatim>\<open>FSM.Apply\<close> refines the abstract machine for every log
  entry, malformed ones and unknown operations included: the response and the next entries
  and revision are those of \<open>fsm_spec\<close>, the store's invariant is kept, and the revision gauge
  is the store's revision after a successful write and unchanged after a failed one.\<close>

theorem fsm_refines:
  assumes "reliable_bolt B reject" and "ws_wf B (fsm_store f)" and "kv_rev (fsm_abs B f) < max_rev"
    and "fsm_Apply B f data = (res, f')"
  shows "fsm_spec reject (fsm_abs B f) data = (res, fsm_abs B f') \<and> ws_wf B (fsm_store f') \<and>
    fsm_gauge f' = (if orErr res = None then Some (ws_Rev (fsm_store f')) else fsm_gauge f)"
  using reliable_bolt.fsm_Apply_refines [OF assms(1,2) _ assms(4)] assms(3) by simp

definition demo_data :: string where
  "demo_data = marshal_op \<lparr>opType = ''put'', opKey = ''k'', opValue = Some ''v''\<rparr>"

theorem fsm_refines_witness:
  "ws_wf mem_sure (fsm_store (demo_fsm 3)) \<and>
   fsm_spec blank_key kv_empty demo_data
     = (fst (fsm_Apply mem_sure (demo_fsm 3) demo_data),
        fsm_abs mem_sure (snd (fsm_Apply mem_sure (demo_fsm 3) demo_data)))"
proof -
  have "kv_rev (fsm_abs mem_sure (demo_fsm 3)) < max_rev" by (simp add: demo_fsm_wf(2) [simplified] max_rev_def)
  from fsm_refines [OF mem_sure_reliable demo_fsm_wf(1) this, of demo_data] show ?thesis
    by (metis prod.collapse demo_fsm_wf(1,3))
qed

text \<open>C7: replicas agree. Two nodes whose databases accept the same writes and whose stores hold
  the same entries at the same revision apply the same committed log: every response is the
  same on both, and so are the entries and the revision afterwards.\<close>

theorem replica_agreement:
  assumes "reliable_bolt B1 reject" and "reliable_bolt B2 reject"
    and "ws_wf B1 (fsm_store f1)" and "ws_wf B2 (fsm_store f2)" and "fsm_abs B1 f1 = fsm_abs B2 f2"
    and "unat (kv_rev (fsm_abs B1 f1)) + length log < 2 ^ 64"
  shows "fst (fsm_run B1 f1 log) = fst (fsm_run B2 f2 log) \<and>
    fsm_abs B1 (snd (fsm_run B1 f1 log)) = fsm_abs B2 (snd (fsm_run B2 f2 log))"
proof -
  have "fsm_spec_run reject (fsm_abs B1 f1) log
      = (fst (fsm_run B1 f1 log), fsm_abs B1 (snd (fsm_run B1 f1 log)))"
    using reliable_bolt.fsm_run_refines [OF assms(1,3,6)] by simp
  moreover have "fsm_spec_run reject (fsm_abs B2 f2) log
      = (fst (fsm_run B2 f2 log), fsm_abs B2 (snd (fsm_run B2 f2 log)))"
    using reliable_bolt.fsm_run_refines [OF assms(2,4)] assms(5,6) by simp
  ultimately show ?thesis using assms(5) by simp
qed

theorem replica_agreement_witness:
  "fst (fsm_run mem_sure (demo_fsm 0) [demo_data, demo_data]) = fst (fsm_run mem_sure (demo_fsm 9) [demo_data, demo_data])"
proof -
  have "fsm_abs mem_sure (demo_fsm 0) = fsm_abs mem_sure (demo_fsm 9)" by (simp only: demo_fsm_wf(3))
  from replica_agreement [OF mem_sure_reliable mem_sure_reliable demo_fsm_wf(1) demo_fsm_wf(1) this,
      of "[demo_data, demo_data]"] demo_fsm_wf(2) [of 0]
  show ?thesis by simp
qed

text \<open>C22: restoring a snapshot overlays it. The snapshot of one node, written as JSON and
  restored into the store of another, succeeds and gives every key of the snapshot its
  value there; but keys of the target that the snapshot does not have stay, the revision
  counts on from the target's instead of becoming the snapshot's, and no event reaches the
  watch cache.\<close>

theorem restore_overlays:
  assumes "bolt_api B0" and "ws_wf B0 (fsm_store f)" and "reliable_bolt B reject" and "ws_wf B (fsm_store g)"
    and "\<And>k. kv_map (fsm_abs B0 f) k \<noteq> None \<Longrightarrow> utf8_valid k"
    and "\<And>k e. kv_map (fsm_abs B0 f) k = Some e \<Longrightarrow> accepts reject k (eValue e)"
    and "unat (ws_Rev (fsm_store g)) + card {k. kv_map (fsm_abs B0 f) k \<noteq> None} < 2 ^ 64"
    and "fsm_Snapshot B0 f = Inr snap"
  shows "\<exists>g'. fsm_Restore B g (marshal (snapshot_json snap)) = (None, g') \<and> ws_wf B (fsm_store g') \<and>
    (\<forall>k. kv_values (fsm_abs B g') k = (case kv_values (fsm_abs B0 f) k of
        Some v \<Rightarrow> Some v | None \<Rightarrow> kv_values (fsm_abs B g) k)) \<and>
    ws_Rev (fsm_store g') = ws_Rev (fsm_store g) + of_nat (card {k. kv_map (fsm_abs B0 f) k \<noteq> None}) \<and>
    ws_wc (fsm_store g') = ws_wc (fsm_store g)"
proof -
  let ?es = "kv_list (fsm_abs B0 f) []"
  have S: "kv_store (watchable_ops B0) (ws_abs B0) (ws_wf B0)" by (rule bolt_api.ws_kv_store [OF assms(1)])
  note full = kv_store.full_list_values [OF S assms(2,5)]
  have snap: "snap_entries snap = ?es"
    using assms(8) kv_store.list_spec [OF S assms(2), of "[]"] by (auto simp: fsm_Snapshot_def)
  have acc: "\<forall>e \<in> set ?es. accepts reject (eKey e) (eValue e)"
    using full(1) assms(6) by (fastforce simp: kv_values_def)
  have dec: "decode_snapshot (marshal (snapshot_json snap)) = Inr \<lparr>sd_Entries = map Some ?es, sd_Rev = snap_rev snap\<rparr>"
    using full(4) by (simp add: decode_snapshot_json snap)
  have bound: "unat (bs_rev (ws_bs (fsm_store g))) + length ?es < 2 ^ 64"
    using assms(7) full(3) by (simp add: ws_Rev_def bs_Rev_def)
  obtain g' where g': "fsm_Restore B g (marshal (snapshot_json snap)) = (None, g')" "ws_wf B (fsm_store g')"
    "fsm_abs B g' = kv_restore (fsm_abs B g) ?es" "ws_wc (fsm_store g') = ws_wc (fsm_store g)"
    using reliable_bolt.fsm_Restore_sure [OF assms(3,4) acc bound dec] by blast
  have "kv_values (fsm_abs B g') k = (case kv_values (fsm_abs B0 f) k of
        Some v \<Rightarrow> Some v | None \<Rightarrow> kv_values (fsm_abs B g) k)" for k
    using kv_restore_values [of ?es "kv_values (fsm_abs B0 f)", OF full(1)] full(2)
    by (auto simp: g'(3) kv_values_def split: option.splits)
  moreover have "ws_Rev (fsm_store g') = ws_Rev (fsm_store g) + of_nat (card {k. kv_map (fsm_abs B0 f) k \<noteq> None})"
    using arg_cong [OF g'(3), of kv_rev] full(3) by (simp add: kv_restore_rev ws_Rev_def bs_Rev_def)
  ultimately show ?thesis using g' by blast
qed

definition demo_twice :: "mem_db FSM" where
  "demo_twice = snd (fsm_run mem_sure (demo_fsm 3) [demo_data, demo_data])"

lemma demo_twice_ok:
  "ws_wf mem_sure (fsm_store demo_twice)"
  "fsm_abs mem_sure demo_twice = kv_put (kv_put kv_empty ''k'' (Some ''v'')) ''k'' (Some ''v'')"
proof -
  have "unmarshal_op demo_data = Inr \<lparr>opType = ''put'', opKey = ''k'', opValue = Some ''v''\<rparr>"
    by (simp add: demo_data_def unmarshal_marshal_op norm_op_def utf8_coerce_ascii)
  then have "fsm_spec blank_key s demo_data
      = (\<lparr>orEntry = Some (kv_next s ''k'' (Some ''v'')), orPrevEntry = kv_map s ''k'', orErr = None\<rparr>,
         kv_put s ''k'' (Some ''v''))" for s
    by (simp add: fsm_spec_def blank_key_def Let_def)
  moreover have "unat (kv_rev (fsm_abs mem_sure (demo_fsm 3))) + length [demo_data, demo_data] < 2 ^ 64"
    unfolding demo_fsm_wf(2) by simp
  note run = sure.fsm_run_refines [OF demo_fsm_wf(1) this, OF surjective_pairing, folded demo_twice_def,
      unfolded demo_fsm_wf(3)]
  ultimately show "ws_wf mem_sure (fsm_store demo_twice)"
    "fsm_abs mem_sure demo_twice = kv_put (kv_put kv_empty ''k'' (Some ''v'')) ''k'' (Some ''v'')"
    using run by simp_all
qed

lemma demo_twice_keys: "{k. kv_map (fsm_abs mem_sure demo_twice) k \<noteq> None} = {''k''}"
  unfolding demo_twice_ok(2) by (auto simp: kv_put_def kv_empty_def)

theorem restore_overlays_witness:
  "\<exists>snap g'. fsm_Snapshot mem_sure demo_twice = Inr snap \<and>
    fsm_Restore mem_sure (demo_fsm 5) (marshal (snapshot_json snap)) = (None, g') \<and>
    kv_values (fsm_abs mem_sure g') ''k'' = Some (Some ''v'') \<and>
    snap_rev snap = 2 \<and> ws_Rev (fsm_store g') = 1"
proof -
  obtain snap where snap: "fsm_Snapshot mem_sure demo_twice = Inr snap"
    using kv_store.list_spec [OF sure.ws_kv_store demo_twice_ok(1), of "[]"] by (simp add: fsm_Snapshot_def)
  have acc: "accepts blank_key k v" if "k = ''k''" for k v using that by (simp add: accepts_def blank_key_def)
  have valid: "utf8_valid ''k''" by code_simp
  have v: "kv_values (fsm_abs mem_sure demo_twice) ''k'' = Some (Some ''v'')"
    by (simp only: demo_twice_ok(2) kv_values_put) simp
  have rev0: "ws_Rev (fsm_store (demo_fsm 5)) = 0"
    using demo_fsm_wf(2) [of 5] by (simp add: ws_Rev_def bs_Rev_def)
  have keys: "kv_map (fsm_abs mem_sure demo_twice) k \<noteq> None \<Longrightarrow> k = ''k''" for k
    using demo_twice_keys by blast
  have c: "card {k. kv_map (fsm_abs mem_sure demo_twice) k \<noteq> None} = 1"
    unfolding demo_twice_keys by simp
  have bound: "unat (ws_Rev (fsm_store (demo_fsm 5))) + card {k. kv_map (fsm_abs mem_sure demo_twice) k \<noteq> None} < 2 ^ 64"
    unfolding c rev0 by simp
  have valid': "utf8_valid k" if "kv_map (fsm_abs mem_sure demo_twice) k \<noteq> None" for k
    using keys [OF that] valid by (simp only:)
  have acc': "accepts blank_key k (eValue e)" if "kv_map (fsm_abs mem_sure demo_twice) k = Some e" for k e
    using keys that by (intro acc) simp
  obtain g' where "fsm_Restore mem_sure (demo_fsm 5) (marshal (snapshot_json snap)) = (None, g')"
    "kv_values (fsm_abs mem_sure g') ''k'' = Some (Some ''v'')" "ws_Rev (fsm_store g') = 1"
    using restore_overlays [OF sure.bolt_api_axioms demo_twice_ok(1) mem_sure_reliable demo_fsm_wf(1)
        valid' acc' bound snap] unfolding c rev0 by (metis v option.simps(5) add_0 of_nat_1)
  moreover have "snap_rev snap = 2"
    using snap arg_cong [OF demo_twice_ok(2), of kv_rev]
    by (auto simp: fsm_Snapshot_def ws_Rev_def bs_Rev_def kv_put_def kv_empty_def split: sum.splits)
  ultimately show ?thesis using snap by blast
qed

text \<open>The log carries operations faithfully: decoding what \<^verbatim>\<open>Node.Apply\<close> marshals gives the
  operation back, with an empty value as nil and invalid UTF-8 in the key replaced.\<close>

lemma op_roundtrip:
  "unmarshal_op (marshal_op op) = Inr (norm_op op)"
  by (rule unmarshal_marshal_op)

end
