(* ===== verification/Raft_Node.thy ===== *)
theory Raft_Node
  imports Raft_Fsm
begin

text \<open>
  The node of \<^verbatim>\<open>raft/node.go\<close>: the methods that the HTTP layer and the command line call. The
  consensus library is the parameter \<open>raft\<close>, one field per method that the code calls. Its
  \<^verbatim>\<open>Apply\<close> is taken with what it does to this node's state machine: the committed entries of
  other requests that reach the machine first, and the error of the future, if any; without
  one, the entry itself is applied next and the future's response is what \<^verbatim>\<open>FSM.Apply\<close>
  returned. So the type assertion on the response always succeeds.
\<close>

section \<open>The consensus library and the node\<close>

record 'r raft =
  r_IsLeader :: "'r \<Rightarrow> bool"
  r_LeaderWithID :: "'r \<Rightarrow> string \<times> string"
  r_Apply :: "'r \<Rightarrow> string \<Rightarrow> int \<Rightarrow> string list \<times> err option \<times> 'r"
  r_AddVoter :: "'r \<Rightarrow> string \<Rightarrow> string \<Rightarrow> err option \<times> 'r"
  r_RemoveServer :: "'r \<Rightarrow> string \<Rightarrow> err option \<times> 'r"
  r_Shutdown :: "'r \<Rightarrow> err option \<times> 'r"
  r_Stats :: "'r \<Rightarrow> (string \<times> string) list"

record NodeConfig =
  nc_NodeID :: string
  nc_BindAddr :: string
  nc_DataDir :: string
  nc_Bootstrap :: bool

record ('r, 'db) Node =
  n_config :: NodeConfig
  n_raft :: 'r
  n_fsm :: "'db FSM"

text \<open>
  \<^verbatim>\<open>NewNode\<close>. What the operating system and the libraries answer is a record of functions of
  the paths and addresses; a path is the directory and the file name under it.
\<close>

record ('r, 'db) node_env =
  env_MkdirAll :: "string \<Rightarrow> err option"
  env_OpenBolt :: "string \<Rightarrow> string \<Rightarrow> err + 'db"
  env_LogStore :: "string \<Rightarrow> string \<Rightarrow> err option"
  env_SnapshotStore :: "string \<Rightarrow> err option"
  env_ResolveTCPAddr :: "string \<Rightarrow> err option"
  env_TCPTransport :: "string \<Rightarrow> err option"
  env_NewRaft :: "string \<Rightarrow> err + 'r"
  env_BootstrapCluster :: "'r \<Rightarrow> string \<Rightarrow> string \<Rightarrow> 'r"

definition NewNode :: "'db bolt \<Rightarrow> ('r, 'db) node_env \<Rightarrow> NodeConfig \<Rightarrow> err + ('r, 'db) Node" where
  "NewNode B E config =
     (case env_MkdirAll E (nc_DataDir config) of Some e \<Rightarrow> Inl (Wrap ''create data dir'' e) | None \<Rightarrow>
     (case NewBoltStore B (env_OpenBolt E (nc_DataDir config) ''data.db'') of
        Inl e \<Rightarrow> Inl (Wrap ''create bolt store'' e) | Inr bs \<Rightarrow>
     (case env_LogStore E (nc_DataDir config) ''raft-log.db'' of
        Some e \<Rightarrow> Inl (Wrap ''create raft log store'' e) | None \<Rightarrow>
     (case env_SnapshotStore E (nc_DataDir config) of
        Some e \<Rightarrow> Inl (Wrap ''create snapshot store'' e) | None \<Rightarrow>
     (case env_ResolveTCPAddr E (nc_BindAddr config) of Some e \<Rightarrow> Inl (Wrap ''resolve addr'' e) | None \<Rightarrow>
     (case env_TCPTransport E (nc_BindAddr config) of Some e \<Rightarrow> Inl (Wrap ''create transport'' e) | None \<Rightarrow>
     (case env_NewRaft E (nc_NodeID config) of Inl e \<Rightarrow> Inl (Wrap ''create raft'' e) | Inr r \<Rightarrow>
       Inr \<lparr>n_config = config,
            n_raft = (if nc_Bootstrap config
              then env_BootstrapCluster E r (nc_NodeID config) (nc_BindAddr config) else r),
            n_fsm = \<lparr>fsm_store = NewWatchableStore bs, fsm_gauge = None\<rparr>\<rparr>)))))))"

section \<open>Writes through the log\<close>

definition node_Apply ::
  "'r raft \<Rightarrow> 'db bolt \<Rightarrow> ('r, 'db) Node \<Rightarrow> Op \<Rightarrow> int \<Rightarrow> (err + OpResult) \<times> ('r, 'db) Node" where
  "node_Apply R B n op timeout =
     (if \<not> r_IsLeader R (n_raft n) then (Inl ErrNotLeader, n)
      else let data = marshal_op op in
        (case r_Apply R (n_raft n) data timeout of (before, ferr, r) \<Rightarrow>
          (let f = snd (fsm_run B (n_fsm n) before) in
           (case ferr of
              Some e \<Rightarrow> (Inl (Wrap ''raft apply'' e), n\<lparr>n_raft := r, n_fsm := f\<rparr>)
            | None \<Rightarrow>
                (case fsm_Apply B f data of (result, f') \<Rightarrow>
                  (case orErr result of
                     Some e \<Rightarrow> (Inl (Wrap ''raft fsm apply'' e), n\<lparr>n_raft := r, n_fsm := f'\<rparr>)
                   | None \<Rightarrow> (Inr result, n\<lparr>n_raft := r, n_fsm := f'\<rparr>)))))))"

section \<open>Reads and cluster management\<close>

definition node_Get :: "'db bolt \<Rightarrow> ('r, 'db) Node \<Rightarrow> string \<Rightarrow> err + Entry" where
  "node_Get B n key = ws_Get B (fsm_store (n_fsm n)) key"

definition node_List :: "'db bolt \<Rightarrow> ('r, 'db) Node \<Rightarrow> string \<Rightarrow> err + Entry list" where
  "node_List B n prefix = ws_List B (fsm_store (n_fsm n)) prefix"

definition node_Rev :: "('r, 'db) Node \<Rightarrow> u64" where
  "node_Rev n = ws_Rev (fsm_store (n_fsm n))"

definition node_IsLeader :: "'r raft \<Rightarrow> ('r, 'db) Node \<Rightarrow> bool" where
  "node_IsLeader R n = r_IsLeader R (n_raft n)"

definition LeaderAddr :: "'r raft \<Rightarrow> ('r, 'db) Node \<Rightarrow> string" where
  "LeaderAddr R n = fst (r_LeaderWithID R (n_raft n))"

definition PeerHTTPPrefix :: string where
  "PeerHTTPPrefix = ''__paladin/peers/''"

definition LeaderHTTPAddr :: "'r raft \<Rightarrow> 'db bolt \<Rightarrow> ('r, 'db) Node \<Rightarrow> string" where
  "LeaderHTTPAddr R B n =
     (let id = snd (r_LeaderWithID R (n_raft n)) in
      if id = [] then []
      else (case node_Get B n (PeerHTTPPrefix @ id) of Inl _ \<Rightarrow> [] | Inr e \<Rightarrow> bytes_str (eValue e)))"

definition second :: int where
  "second = 1000000000"

definition RegisterPeerHTTP ::
  "'r raft \<Rightarrow> 'db bolt \<Rightarrow> ('r, 'db) Node \<Rightarrow> string \<Rightarrow> string \<Rightarrow> err option \<times> ('r, 'db) Node" where
  "RegisterPeerHTTP R B n nodeID httpAddr =
     (case node_Apply R B n \<lparr>opType = ''put'', opKey = PeerHTTPPrefix @ nodeID, opValue = Some httpAddr\<rparr> (5 * second) of
        (Inl e, n') \<Rightarrow> (Some e, n') | (Inr _, n') \<Rightarrow> (None, n'))"

text \<open>
  The loop of \<^verbatim>\<open>WaitForLeader\<close>, over the successive polls: the leader's id seen and the clock
  read after it. \<^term>\<open>None\<close> means that the loop is still running after the last poll.
\<close>

fun wait_for_leader :: "int \<Rightarrow> (string \<times> int) list \<Rightarrow> err option option" where
  "wait_for_leader deadline [] = None"
| "wait_for_leader deadline ((leaderID, now) # polls) =
     (if leaderID \<noteq> [] then Some None
      else if now > deadline then Some (Some (ErrMsg ''timed out waiting for leader''))
      else wait_for_leader deadline polls)"

definition WaitForLeader :: "int \<Rightarrow> int \<Rightarrow> (string \<times> int) list \<Rightarrow> err option option" where
  "WaitForLeader start timeout polls = wait_for_leader (start + timeout) polls"

definition node_Join :: "'r raft \<Rightarrow> ('r, 'db) Node \<Rightarrow> string \<Rightarrow> string \<Rightarrow> err option \<times> ('r, 'db) Node" where
  "node_Join R n nodeID addr =
     (if \<not> node_IsLeader R n then (Some ErrNotLeader, n)
      else (case r_AddVoter R (n_raft n) nodeID addr of (e, r) \<Rightarrow> (e, n\<lparr>n_raft := r\<rparr>)))"

definition node_Leave :: "'r raft \<Rightarrow> ('r, 'db) Node \<Rightarrow> string \<Rightarrow> err option \<times> ('r, 'db) Node" where
  "node_Leave R n nodeID =
     (if \<not> node_IsLeader R n then (Some ErrNotLeader, n)
      else (case r_RemoveServer R (n_raft n) nodeID of (e, r) \<Rightarrow> (e, n\<lparr>n_raft := r\<rparr>)))"

definition node_Shutdown :: "'r raft \<Rightarrow> 'db bolt \<Rightarrow> ('r, 'db) Node \<Rightarrow> err option \<times> ('r, 'db) Node" where
  "node_Shutdown R B n =
     (case r_Shutdown R (n_raft n) of
        (Some e, r) \<Rightarrow> (Some e, n\<lparr>n_raft := r\<rparr>)
      | (None, r) \<Rightarrow> (case ws_Close B (fsm_store (n_fsm n)) of
          (e, ws) \<Rightarrow> (e, n\<lparr>n_raft := r, n_fsm := (n_fsm n)\<lparr>fsm_store := ws\<rparr>\<rparr>)))"

definition node_Stats :: "'r raft \<Rightarrow> ('r, 'db) Node \<Rightarrow> (string \<times> string) list" where
  "node_Stats R n = r_Stats R (n_raft n)"

section \<open>Writes as steps of the abstract machine\<close>

lemma fsm_spec_run_rev:
  assumes "fsm_spec_run reject s log = (rs, s')" and "unat (kv_rev s) + length log < 2 ^ 64"
  shows "unat (kv_rev s') \<le> unat (kv_rev s) + length log" and "kv_rev s \<le> kv_rev s'"
    and "\<exists>r \<in> set rs. orErr r = None \<Longrightarrow> kv_rev s < kv_rev s'"
proof -
  have "unat (kv_rev s') \<le> unat (kv_rev s) + length log \<and> kv_rev s \<le> kv_rev s' \<and>
      ((\<exists>r \<in> set rs. orErr r = None) \<longrightarrow> kv_rev s < kv_rev s')"
    using assms
  proof (induction log arbitrary: s rs)
    case (Cons data log)
    obtain res s1 rs1 where 1: "fsm_spec reject s data = (res, s1)" "fsm_spec_run reject s1 log = (rs1, s')"
      "rs = res # rs1"
      using Cons.prems(1) by (auto split: prod.splits)
    have r: "kv_rev s < max_rev" using Cons.prems(2) by (simp add: max_rev_def word_less_nat_alt)
    have rev: "kv_rev s1 \<in> {kv_rev s, kv_rev s + 1}" "orErr res = None \<Longrightarrow> kv_rev s1 = kv_rev s + 1"
      using fsm_spec_rev [OF 1(1)] 1(1)
      by (auto simp: fsm_spec_def Let_def kv_put_def kv_delete_def split: sum.splits option.splits if_splits)
    have u: "unat (kv_rev s + 1) = unat (kv_rev s) + 1" by (rule below_max [OF r])
    have "unat (kv_rev s1) + length log < 2 ^ 64" using rev(1) u Cons.prems(2) by auto
    from Cons.IH [OF 1(2) this] show ?case
      using rev u 1(3) below_max_less [OF r] by (auto simp: word_less_nat_alt word_le_nat_alt)
  qed simp
  then show "unat (kv_rev s') \<le> unat (kv_rev s) + length log" and "kv_rev s \<le> kv_rev s'"
    and "\<exists>r \<in> set rs. orErr r = None \<Longrightarrow> kv_rev s < kv_rev s'" by blast+
qed

text \<open>On any disk, failing or not, the machine keeps the invariant of its store.\<close>

context bolt_api
begin

lemma fsm_Apply_wf:
  assumes wf: "ws_wf B (fsm_store f)" and r: "kv_rev (fsm_abs B f) < max_rev" and app: "fsm_Apply B f data = (res, f')"
  shows "ws_wf B (fsm_store f') \<and> kv_rev (fsm_abs B f') \<in> {kv_rev (fsm_abs B f), kv_rev (fsm_abs B f) + 1}"
proof (cases "unmarshal_op data")
  case (Inl e)
  then show ?thesis using app wf by (auto simp: fsm_Apply_def)
next
  case (Inr op)
  have put: "ws_wf B ws \<and> kv_rev (ws_abs B ws) \<in> {kv_rev (fsm_abs B f), kv_rev (fsm_abs B f) + 1}"
    if "ws_Put B (fsm_store f) (opKey op) (opValue op) = (x, ws)" for x ws
    using that ws.put_ok [OF wf r] ws.put_err [OF wf r] by (cases x) (fastforce simp: kv_put_def)+
  have del: "ws_wf B ws \<and> kv_rev (ws_abs B ws) \<in> {kv_rev (fsm_abs B f), kv_rev (fsm_abs B f) + 1}"
    if "ws_Delete B (fsm_store f) (opKey op) = (x, ws)" for x ws
    using that ws.delete_ok [OF wf r] ws.delete_err [OF wf r] by (cases x) (fastforce simp: kv_delete_def)+
  show ?thesis
    using app Inr wf put del unfolding fsm_Apply_def
    by (auto simp del: bs_abs_simps split: if_splits prod.splits sum.splits option.splits)
qed

lemma fsm_run_wf:
  assumes "ws_wf B (fsm_store f)" and "unat (kv_rev (fsm_abs B f)) + length log < 2 ^ 64"
  shows "ws_wf B (fsm_store (snd (fsm_run B f log))) \<and>
    unat (kv_rev (fsm_abs B (snd (fsm_run B f log)))) \<le> unat (kv_rev (fsm_abs B f)) + length log"
  using assms
proof (induction log arbitrary: f)
  case (Cons data log)
  obtain res f1 where f1: "fsm_Apply B f data = (res, f1)" by (cases "fsm_Apply B f data")
  have r: "kv_rev (fsm_abs B f) < max_rev" using Cons.prems(2) by (simp add: max_rev_def word_less_nat_alt)
  note step = fsm_Apply_wf [OF Cons.prems(1) r f1]
  then have le: "unat (kv_rev (fsm_abs B f1)) \<le> unat (kv_rev (fsm_abs B f)) + 1" using below_max [OF r] by auto
  then have "unat (kv_rev (fsm_abs B f1)) + length log < 2 ^ 64" using Cons.prems(2) by simp
  from Cons.IH [OF conjunct1 [OF step] this] le show ?case by (simp add: f1 case_prod_unfold)
qed simp

end

abbreviation node_abs :: "'db bolt \<Rightarrow> ('r, 'db) Node \<Rightarrow> kv" where
  "node_abs B n \<equiv> fsm_abs B (n_fsm n)"

abbreviation node_wf :: "'db bolt \<Rightarrow> ('r, 'db) Node \<Rightarrow> bool" where
  "node_wf B n \<equiv> ws_wf B (fsm_store (n_fsm n))"

context reliable_bolt
begin

lemma node_Apply_spec:
  assumes wf: "node_wf B n" and lead: "r_IsLeader R (n_raft n)"
    and app: "r_Apply R (n_raft n) (marshal_op op) timeout = (before, None, r)"
    and bound: "unat (kv_rev (node_abs B n)) + length before + 1 < 2 ^ 64"
    and s: "snd (fsm_spec_run reject (node_abs B n) before) = s"
    and spec: "fsm_spec reject s (marshal_op op) = (res, s')"
  shows "\<exists>n'. node_Apply R B n op timeout
      = (case orErr res of None \<Rightarrow> Inr res | Some e \<Rightarrow> Inl (Wrap ''raft fsm apply'' e), n') \<and>
    node_wf B n' \<and> node_abs B n' = s' \<and> n_raft n' = r \<and>
    (orErr res = None \<longrightarrow> fsm_gauge (n_fsm n') = Some (node_Rev n'))"
proof -
  obtain rs f where f: "fsm_run B (n_fsm n) before = (rs, f)" by (cases "fsm_run B (n_fsm n) before")
  have run: "fsm_spec_run reject (node_abs B n) before = (rs, fsm_abs B f)" "ws_wf B (fsm_store f)"
    using fsm_run_refines [OF wf _ f] bound by simp_all
  have s_eq: "fsm_abs B f = s" using s run(1) by simp
  have "unat (kv_rev (fsm_abs B f)) \<le> unat (kv_rev (node_abs B n)) + length before"
    using fsm_spec_run_rev(1) [OF run(1)] bound by simp
  then have "bs_rev (ws_bs (fsm_store f)) < max_rev"
    using bound by (simp add: max_rev_def word_less_nat_alt)
  moreover obtain res' f' where f': "fsm_Apply B f (marshal_op op) = (res', f')"
    by (cases "fsm_Apply B f (marshal_op op)")
  ultimately have ref: "fsm_spec reject s (marshal_op op) = (res', fsm_abs B f')" "ws_wf B (fsm_store f')"
    "orErr res' = None \<Longrightarrow> fsm_gauge f' = Some (ws_Rev (fsm_store f'))"
    using fsm_Apply_refines [OF run(2)] s_eq by auto
  then have "res' = res" "fsm_abs B f' = s'" using spec by auto
  then show ?thesis
    using lead app f f' ref by (auto simp: node_Apply_def Let_def node_Rev_def split: option.splits)
qed

text \<open>
  A registered address is kept under the key of the node, so it is the leader's address in
  whatever later view of the cluster names that node as the leader.
\<close>

lemma RegisterPeerHTTP_stores:
  assumes "node_wf B n" and "r_IsLeader R (n_raft n)"
    and "r_Apply R (n_raft n) (marshal_op \<lparr>opType = ''put'', opKey = PeerHTTPPrefix @ nodeID, opValue = Some addr\<rparr>)
           (5 * second) = (before, None, r)"
    and "unat (kv_rev (node_abs B n)) + length before + 1 < 2 ^ 64" and "utf8_valid (PeerHTTPPrefix @ nodeID)"
    and "RegisterPeerHTTP R B n nodeID addr = (None, n')"
  shows "n_raft n' = r" and "\<exists>e. node_Get B n' (PeerHTTPPrefix @ nodeID) = Inr e \<and> bytes_str (eValue e) = addr"
    and "node_wf B n'" and "node_abs B n' = snd (fsm_spec reject (snd (fsm_spec_run reject (node_abs B n) before))
      (marshal_op \<lparr>opType = ''put'', opKey = PeerHTTPPrefix @ nodeID, opValue = Some addr\<rparr>))"
proof -
  let ?k = "PeerHTTPPrefix @ nodeID" and ?v = "if addr = [] then None else Some addr"
  let ?op = "\<lparr>opType = ''put'', opKey = ?k, opValue = Some addr\<rparr>"
    and ?s = "snd (fsm_spec_run reject (node_abs B n) before)"
  obtain res s' where spec: "fsm_spec reject ?s (marshal_op ?op) = (res, s')" by (cases "fsm_spec reject ?s (marshal_op ?op)")
  obtain m where m: "node_Apply R B n ?op (5 * second)
      = (case orErr res of None \<Rightarrow> Inr res | Some e \<Rightarrow> Inl (Wrap ''raft fsm apply'' e), m)"
      "node_wf B m" "node_abs B m = s'" "n_raft m = r"
    using node_Apply_spec [OF assms(1-4) refl spec] by blast
  have ok: "orErr res = None" "n' = m"
    using assms(6) m(1) by (auto simp: RegisterPeerHTTP_def split: option.splits)
  then show "n_raft n' = r" "node_wf B n'" "node_abs B n' = snd (fsm_spec reject ?s (marshal_op ?op))"
    using m(2-4) spec by simp_all
  have "s' = kv_put ?s ?k ?v"
    using spec ok(1) assms(5)
    by (auto simp: fsm_spec_def unmarshal_marshal_op norm_op_def utf8_coerce_valid utf8_coerce_ascii Let_def
        split: option.splits if_splits)
  then have "kv_map (node_abs B m) ?k = Some (norm_entry (kv_next ?s ?k ?v))"
    using m(3) by (simp add: kv_put_def)
  then have "node_Get B m ?k = Inr (norm_entry (kv_next ?s ?k ?v))"
    using ws.get_spec [OF m(2), of ?k] by (simp add: node_Get_def)
  then show "\<exists>e. node_Get B n' ?k = Inr e \<and> bytes_str (eValue e) = addr"
    by (simp add: ok(2) kv_next_def Let_def)
qed

lemma RegisterPeerHTTP_leader:
  assumes "node_wf B n" and "r_IsLeader R (n_raft n)"
    and "r_Apply R (n_raft n) (marshal_op \<lparr>opType = ''put'', opKey = PeerHTTPPrefix @ nodeID, opValue = Some addr\<rparr>)
           (5 * second) = (before, None, r)"
    and "unat (kv_rev (node_abs B n)) + length before + 1 < 2 ^ 64" and "utf8_valid (PeerHTTPPrefix @ nodeID)"
    and "RegisterPeerHTTP R B n nodeID addr = (None, n')"
    and "snd (r_LeaderWithID R' r') = nodeID" and "nodeID \<noteq> []"
  shows "LeaderHTTPAddr R' B (n'\<lparr>n_raft := r'\<rparr>) = addr"
proof -
  obtain e where "node_Get B n' (PeerHTTPPrefix @ nodeID) = Inr e" "bytes_str (eValue e) = addr"
    using RegisterPeerHTTP_stores(2) [OF assms(1-6)] by blast
  then show ?thesis using assms(7,8) by (simp add: LeaderHTTPAddr_def node_Get_def Let_def)
qed

end

section \<open>Properties of the node\<close>

text \<open>C12: on the leader, when the log accepts the operation, \<^verbatim>\<open>Node.Apply\<close> is one step of the
  abstract machine on the decoded operation, taken after the operations that were committed
  before it: the caller gets the machine's response, or its error wrapped, and the node's
  store is in the resulting state.\<close>

theorem node_apply_steps:
  assumes "reliable_bolt B reject" and "node_wf B n" and "r_IsLeader R (n_raft n)"
    and "r_Apply R (n_raft n) (marshal_op op) timeout = (before, None, r)"
    and "unat (kv_rev (node_abs B n)) + length before + 1 < 2 ^ 64"
    and "snd (fsm_spec_run reject (node_abs B n) before) = s"
    and "fsm_spec reject s (marshal_op op) = (res, s')"
  shows "\<exists>n'. node_Apply R B n op timeout
      = (case orErr res of None \<Rightarrow> Inr res | Some e \<Rightarrow> Inl (Wrap ''raft fsm apply'' e), n') \<and>
    node_wf B n' \<and> node_abs B n' = s' \<and> n_raft n' = r \<and>
    (orErr res = None \<longrightarrow> fsm_gauge (n_fsm n') = Some (node_Rev n'))"
  using reliable_bolt.node_Apply_spec [OF assms] .

text \<open>A one-node cluster: the leader commits every entry at once; the state counts them.\<close>

definition solo_raft :: "nat raft" where
  "solo_raft = \<lparr>r_IsLeader = (\<lambda>_. True), r_LeaderWithID = (\<lambda>_. (''127.0.0.1:9001'', ''n1'')),
     r_Apply = (\<lambda>r data t. ([], None, Suc r)), r_AddVoter = (\<lambda>r i a. (None, r)),
     r_RemoveServer = (\<lambda>r i. (None, r)), r_Shutdown = (\<lambda>r. (None, r)), r_Stats = (\<lambda>_. [])\<rparr>"

definition solo_node :: "(nat, mem_db) Node" where
  "solo_node = \<lparr>n_config = \<lparr>nc_NodeID = ''n1'', nc_BindAddr = ''127.0.0.1:9001'', nc_DataDir = ''d'', nc_Bootstrap = True\<rparr>,
     n_raft = 0, n_fsm = demo_fsm 8\<rparr>"

lemma solo_node_wf: "node_wf mem_sure solo_node" "node_abs mem_sure solo_node = kv_empty"
  using demo_fsm_wf(1,3) [of 8] by (simp_all add: solo_node_def)

lemma solo_raft_simps [simp]: "r_IsLeader solo_raft r" "r_LeaderWithID solo_raft r = (''127.0.0.1:9001'', ''n1'')"
  "r_Apply solo_raft r data t = ([], None, Suc r)"
  by (simp_all add: solo_raft_def)

theorem node_apply_steps_witness:
  "\<exists>n'. node_Apply solo_raft mem_sure solo_node \<lparr>opType = ''delete'', opKey = ''k'', opValue = None\<rparr> (5 * second)
      = (Inl (Wrap ''raft fsm apply'' ErrKeyNotFound), n') \<and> node_abs mem_sure n' = kv_empty"
proof -
  let ?op = "\<lparr>opType = ''delete'', opKey = ''k'', opValue = None\<rparr>"
  have "unmarshal_op (marshal_op ?op) = Inr ?op"
    by (simp add: unmarshal_marshal_op norm_op_def utf8_coerce_ascii)
  then have spec: "fsm_spec blank_key kv_empty (marshal_op ?op) = (op_error ErrKeyNotFound, kv_empty)"
    by (simp add: fsm_spec_def kv_empty_def)
  have b: "unat (kv_rev (node_abs mem_sure solo_node)) + length ([]::string list) + 1 < 2 ^ 64"
    unfolding solo_node_wf(2) by (simp add: kv_empty_def)
  have s: "snd (fsm_spec_run blank_key (node_abs mem_sure solo_node) []) = kv_empty"
    unfolding solo_node_wf(2) by simp
  show ?thesis
    using node_apply_steps [OF mem_sure_reliable solo_node_wf(1) _ _ b s spec, of solo_raft "5 * second"] by auto
qed

text \<open>The sentinel survives the layers. Deleting a key that the store does not have when the
  operation is applied gives an error that \<^verbatim>\<open>errors.Is\<close> recognises as \<^verbatim>\<open>ErrKeyNotFound\<close>, and
  leaves the store as the earlier operations left it; a node that is not the leader refuses
  every operation with \<^verbatim>\<open>ErrNotLeader\<close> and does not change.\<close>

lemma delete_missing_sentinel:
  assumes "reliable_bolt B reject" and "node_wf B n"
    and "r_Apply R (n_raft n) (marshal_op \<lparr>opType = ''delete'', opKey = k, opValue = v\<rparr>) timeout = (before, None, r)"
    and "unat (kv_rev (node_abs B n)) + length before + 1 < 2 ^ 64"
    and "kv_map (snd (fsm_spec_run reject (node_abs B n) before)) (utf8_coerce k) = None"
  shows "\<exists>e n'. node_Apply R B n \<lparr>opType = ''delete'', opKey = k, opValue = v\<rparr> timeout = (Inl e, n') \<and>
    (if r_IsLeader R (n_raft n)
     then errors_Is e ErrKeyNotFound \<and> \<not> errors_Is e ErrNotLeader \<and>
       node_abs B n' = snd (fsm_spec_run reject (node_abs B n) before)
     else errors_Is e ErrNotLeader \<and> n' = n)"
proof (cases "r_IsLeader R (n_raft n)")
  case True
  let ?op = "\<lparr>opType = ''delete'', opKey = k, opValue = v\<rparr>" and ?s = "snd (fsm_spec_run reject (node_abs B n) before)"
  have "fsm_spec reject ?s (marshal_op ?op) = (op_error ErrKeyNotFound, ?s)"
    using assms(5) by (simp add: fsm_spec_def unmarshal_marshal_op norm_op_def utf8_coerce_ascii)
  from reliable_bolt.node_Apply_spec [OF assms(1,2) True assms(3,4) refl this]
  show ?thesis using True by auto
next
  case False
  then show ?thesis by (simp add: node_Apply_def)
qed

definition solo_registered :: "err option \<times> (nat, mem_db) Node" where
  "solo_registered = RegisterPeerHTTP solo_raft mem_sure solo_node ''n1'' ''h:80''"

lemma solo_register:
  assumes "utf8_valid (PeerHTTPPrefix @ nodeID)"
  shows "fst (RegisterPeerHTTP solo_raft mem_sure solo_node nodeID addr) = None"
proof -
  let ?op = "\<lparr>opType = ''put'', opKey = PeerHTTPPrefix @ nodeID, opValue = Some addr\<rparr>"
  have b: "unat (kv_rev (node_abs mem_sure solo_node)) + length ([]::string list) + 1 < 2 ^ 64"
    and s: "snd (fsm_spec_run blank_key (node_abs mem_sure solo_node) []) = kv_empty"
    unfolding solo_node_wf(2) by (simp_all add: kv_empty_def)
  have a: "r_Apply solo_raft (n_raft solo_node) (marshal_op ?op) (5 * second) = ([], None, Suc (n_raft solo_node))"
    by simp
  have "orErr (fst (fsm_spec blank_key kv_empty (marshal_op ?op))) = None"
    using assms by (simp add: fsm_spec_def unmarshal_marshal_op norm_op_def utf8_coerce_valid utf8_coerce_ascii
        PeerHTTPPrefix_def blank_key_def Let_def)
  then show ?thesis
    using reliable_bolt.node_Apply_spec [OF mem_sure_reliable solo_node_wf(1) _ a b s surjective_pairing]
    by (auto simp: RegisterPeerHTTP_def)
qed

lemma solo_registered_ok:
  "fst solo_registered = None \<and> LeaderHTTPAddr solo_raft mem_sure (snd solo_registered) = ''h:80''"
proof -
  have valid: "utf8_valid (PeerHTTPPrefix @ ''n1'')" by (simp add: PeerHTTPPrefix_def utf8_valid_ascii)
  have b: "unat (kv_rev (node_abs mem_sure solo_node)) + length ([]::string list) + 1 < 2 ^ 64"
    unfolding solo_node_wf(2) by (simp add: kv_empty_def)
  have ok: "fst solo_registered = None" unfolding solo_registered_def by (rule solo_register [OF valid])
  then have reg: "RegisterPeerHTTP solo_raft mem_sure solo_node ''n1'' ''h:80'' = (None, snd solo_registered)"
    by (simp add: solo_registered_def prod_eq_iff)
  have "LeaderHTTPAddr solo_raft mem_sure ((snd solo_registered)\<lparr>n_raft := 0\<rparr>) = ''h:80''"
    by (rule sure.RegisterPeerHTTP_leader [OF solo_node_wf(1) _ _ b valid reg]) simp_all
  then have "LeaderHTTPAddr solo_raft mem_sure (snd solo_registered) = ''h:80''"
    by (simp add: LeaderHTTPAddr_def node_Get_def)
  with ok show ?thesis by simp
qed

text \<open>C23: \<^verbatim>\<open>WaitForLeader\<close> returns. If the clock at poll \<open>i\<close> is at least \<open>50 i\<close> milliseconds after
  the start, as the sleep between the polls makes it, the loop ends within
  \<open>timeout / 50 ms + 2\<close> polls, with nil exactly when one of the polls it made saw a leader.\<close>

theorem wait_for_leader_returns:
  assumes "\<And>i. i < length polls \<Longrightarrow> start + 50000000 * int i \<le> snd (polls ! i)"
    and "0 \<le> timeout" and "timeout div 50000000 + 2 \<le> int (length polls)"
  shows "\<exists>r. WaitForLeader start timeout polls = Some r \<and>
    (r = None \<longrightarrow> (\<exists>p \<in> set polls. fst p \<noteq> [])) \<and>
    (r \<noteq> None \<longrightarrow> (\<exists>i < length polls. (\<forall>j \<le> i. fst (polls ! j) = []) \<and> start + timeout < snd (polls ! i)))"
proof -
  have spec: "wait_for_leader d ps = Some r \<Longrightarrow> (r = None \<longrightarrow> (\<exists>p \<in> set ps. fst p \<noteq> [])) \<and>
      (r \<noteq> None \<longrightarrow> (\<exists>i < length ps. (\<forall>j \<le> i. fst (ps ! j) = []) \<and> d < snd (ps ! i)))" for d ps r
  proof (induction d ps rule: wait_for_leader.induct)
    case (2 d lid now ps)
    show ?case
    proof (cases "lid = [] \<and> now \<le> d")
      case True
      then have IH: "(r = None \<longrightarrow> (\<exists>p \<in> set ps. fst p \<noteq> [])) \<and>
          (r \<noteq> None \<longrightarrow> (\<exists>i < length ps. (\<forall>j \<le> i. fst (ps ! j) = []) \<and> d < snd (ps ! i)))"
        using 2 by auto
      have "\<exists>i < length ((lid, now) # ps). (\<forall>j \<le> i. fst (((lid, now) # ps) ! j) = []) \<and> d < snd (((lid, now) # ps) ! i)"
        if "i < length ps" "\<forall>j \<le> i. fst (ps ! j) = []" "d < snd (ps ! i)" for i
        using that True by (intro exI [of _ "Suc i"]) (auto simp: nth_Cons split: nat.splits)
      with IH show ?thesis by auto
    next
      case False
      with 2 show ?thesis by (auto split: if_splits intro!: exI [of _ 0])
    qed
  qed simp
  have ends: "wait_for_leader d ps = None \<Longrightarrow> i < length ps \<Longrightarrow> snd (ps ! i) \<le> d" for d ps i
    by (induction d ps arbitrary: i rule: wait_for_leader.induct) (auto simp: nth_Cons split: if_splits nat.splits)
  let ?i = "nat (timeout div 50000000 + 1)"
  have i: "?i < length polls" "timeout < 50000000 * int ?i" using assms(2,3) by linarith+
  then have "start + timeout < snd (polls ! ?i)" using assms(1) [OF i(1)] by simp
  then have "wait_for_leader (start + timeout) polls \<noteq> None" using ends i(1) by (meson not_le)
  then show ?thesis using spec by (auto simp: WaitForLeader_def)
qed

theorem wait_for_leader_returns_witness:
  "\<exists>r. WaitForLeader 0 60000000 [([], 0), ([], 50000000), ([], 100000000)] = Some r"
proof -
  let ?polls = "[([], 0), ([], 50000000), ([], 100000000)] :: (string \<times> int) list"
  have "0 + 50000000 * int i \<le> snd (?polls ! i)" if "i < length ?polls" for i
  proof -
    have "i \<in> {0, 1, 2}" using that by auto
    then show ?thesis by (auto simp: numeral_2_eq_2)
  qed
  from wait_for_leader_returns [of ?polls 0 60000000, OF this] show ?thesis by simp blast
qed

text \<open>A restart. When \<^verbatim>\<open>NewNode\<close> opens the database file of a store again, the node has all the
  entries of that store and the persisted revision, but its watch cache is empty: a watcher
  that comes back with an older revision gets no event, whatever happened in between.\<close>

lemma new_node_recovers:
  assumes "bolt_api B" and "bs_wf B s" and "env_OpenBolt E (nc_DataDir cfg) ''data.db'' = Inr d"
    and "\<And>b k. tx_get B d b k = tx_get B (bs_db s) b k" and "NewNode B E cfg = Inr n"
  shows "node_wf B n \<and> kv_map (node_abs B n) = bs_entries B s \<and> node_Rev n \<le> bs_rev s \<and>
    (bs_synced B s \<longrightarrow> node_Rev n = bs_rev s) \<and>
    getEventsLocked (ws_wc (fsm_store (n_fsm n))) afterRev prefix = Some []"
proof -
  obtain bs where bs: "NewBoltStore B (Inr d) = Inr bs"
    and fsm: "n_fsm n = \<lparr>fsm_store = NewWatchableStore bs, fsm_gauge = None\<rparr>"
    using assms(3,5) by (auto simp: NewNode_def split: option.splits sum.splits)
  obtain t1 t2 d' where t: "tx_create B d bucketData = Inr t1" "tx_create B t1 bucketMeta = Inr t2"
      "tx_commit B t2 = Inr d'"
    using bs by (auto simp: NewBoltStore_def split: sum.splits)
  obtain s' where s': "NewBoltStore B (Inr d) = Inr s'" "bs_synced B s'" "bs_entries B s' = bs_entries B s"
    "disk_rev B (bs_db s) = Some (bs_rev s')" "bs_rev s' \<le> bs_rev s"
    by (rule bolt_api.NewBoltStore_reopen [OF assms(1,2,4) t])
  have log: "wc_log (NewWatchCache defaultWatchCacheSize) []"
    by (rule NewWatchCache_log) (simp add: defaultWatchCacheSize_def)
  have "ws_hist B (NewWatchableStore bs) []"
    using s'(1,2) bs log by (simp add: ws_hist_def NewWatchableStore_def bs_synced_def log_revs_def)
  then have "node_wf B n" by (auto simp: fsm ws_wf_def)
  moreover have "getEventsLocked (ws_wc (fsm_store (n_fsm n))) afterRev prefix = Some []"
    using getEventsLocked_log [OF log] by (simp add: fsm NewWatchableStore_def last_n_def)
  ultimately show ?thesis
    using s' bs by (auto simp: fsm NewWatchableStore_def node_Rev_def ws_Rev_def bs_Rev_def bs_synced_def)
qed

text \<open>The first start, on an empty file.\<close>

lemma new_node_fresh:
  assumes "bolt_api B" and "env_OpenBolt E (nc_DataDir cfg) ''data.db'' = Inr d"
    and "\<And>b k. tx_get B d b k = None" and "NewNode B E cfg = Inr n"
  shows "node_wf B n \<and> node_abs B n = kv_empty \<and> bs_synced B (ws_bs (fsm_store (n_fsm n)))"
proof -
  let ?s = "\<lparr>bs_db = d, bs_rev = 0\<rparr>"
  have sync: "bs_synced B ?s" by (rule bolt_api.empty_synced [OF assms(1,3)])
  then have wf: "bs_wf B ?s" by (simp add: bs_synced_def)
  have rec: "node_wf B n" "kv_map (node_abs B n) = bs_entries B ?s" "node_Rev n = 0"
    using new_node_recovers [OF assms(1) wf assms(2) _ assms(4)] sync by auto
  obtain bs where bs: "NewBoltStore B (Inr d) = Inr bs" "ws_bs (fsm_store (n_fsm n)) = bs"
    using assms(2,4) by (auto simp: NewNode_def NewWatchableStore_def split: option.splits sum.splits)
  obtain t1 t2 d' where t: "tx_create B d bucketData = Inr t1" "tx_create B t1 bucketMeta = Inr t2"
      "tx_commit B t2 = Inr d'"
    using bs(1) by (auto simp: NewBoltStore_def split: sum.splits)
  obtain s' where "NewBoltStore B (Inr d) = Inr s'" "bs_synced B s'"
    by (rule bolt_api.NewBoltStore_reopen [OF assms(1) wf _ t]) auto
  then have "bs_synced B (ws_bs (fsm_store (n_fsm n)))" using bs by simp
  moreover have "node_abs B n = kv_empty"
    using rec(2,3) assms(3)
    by (simp add: bs_abs_def kv_empty_def bs_entries_def fun_eq_iff node_Rev_def ws_Rev_def bs_Rev_def)
  ultimately show ?thesis using rec(1) by blast
qed

text \<open>A log on a disk that does not fail leaves the cached revision in step with the disk.\<close>

context reliable_bolt
begin

lemma fsm_Apply_synced:
  assumes wf: "ws_wf B (fsm_store f)" and r: "bs_rev (ws_bs (fsm_store f)) < max_rev"
    and sync: "bs_synced B (ws_bs (fsm_store f))" and app: "fsm_Apply B f data = (res, f')"
  shows "bs_synced B (ws_bs (fsm_store f'))"
proof -
  have bwf: "bs_wf B (ws_bs (fsm_store f))" using sync by (simp add: bs_synced_def)
  have put: "bs_synced B bs" if "bs_Put B (ws_bs (fsm_store f)) k v = (x, bs)" for k v x bs
  proof (cases "reject k (marshal_entry (kv_next (fsm_abs B f) k v))")
    case None
    then obtain res s' where "bs_Put B (ws_bs (fsm_store f)) k v = (Inr res, s')"
      using bs_Put_accept [OF bwf] by blast
    with that bs_Put_ok(1) [OF bwf r] show ?thesis by auto
  next
    case (Some e)
    with bs_Put_reject [OF bwf] that sync show ?thesis by fastforce
  qed
  have del: "bs_synced B bs" if "bs_Delete B (ws_bs (fsm_store f)) k = (x, bs)" for k x bs
  proof (cases "bs_entries B (ws_bs (fsm_store f)) k")
    case None
    with bs_Delete_missing [OF bwf] that sync show ?thesis by fastforce
  next
    case (Some p)
    then obtain d s' where "bs_Delete B (ws_bs (fsm_store f)) k = (Inr d, s')"
      using bs_Delete_found [OF bwf] by blast
    with that bs_Delete_ok(1) [OF bwf r] show ?thesis by auto
  qed
  show ?thesis
    using app put del sync
    by (fastforce simp: fsm_Apply_def ws_Put_serial ws_Delete_serial split: sum.splits prod.splits option.splits if_splits)
qed

lemma fsm_run_synced:
  assumes "ws_wf B (fsm_store f)" and "unat (kv_rev (fsm_abs B f)) + length log < 2 ^ 64"
    and "bs_synced B (ws_bs (fsm_store f))" and "fsm_run B f log = (rs, f')"
  shows "bs_synced B (ws_bs (fsm_store f'))"
  using assms
proof (induction log arbitrary: f rs)
  case (Cons data log)
  obtain res f1 where f1: "fsm_Apply B f data = (res, f1)" by (cases "fsm_Apply B f data")
  obtain rs' where rs': "fsm_run B f1 log = (rs', f')" using Cons.prems(4) f1 by (auto split: prod.splits)
  have r: "bs_rev (ws_bs (fsm_store f)) < max_rev"
    using Cons.prems(2) by (simp add: max_rev_def word_less_nat_alt)
  note step = fsm_Apply_refines [OF Cons.prems(1) r f1]
  have "unat (kv_rev (fsm_abs B f1)) \<le> unat (kv_rev (fsm_abs B f)) + 1"
    using fsm_spec_rev [OF conjunct1 [OF step]] below_max [OF r] by auto
  then show ?case
    using Cons.IH [OF conjunct1 [OF conjunct2 [OF step]] _ fsm_Apply_synced [OF Cons.prems(1) r Cons.prems(3) f1] rs']
      Cons.prems(2) by simp
qed simp

end

lemma fsm_spec_run_accepted:
  assumes "fsm_spec_run reject s log = (rs, s')" and "data \<in> set log" and "unmarshal_op data = Inr op"
    and "opType op = ''put''" and "accepts reject (opKey op) (opValue op)"
  shows "\<exists>r \<in> set rs. orErr r = None"
  using assms
proof (induction log arbitrary: s rs)
  case (Cons d log)
  obtain res s1 rs1 where 1: "fsm_spec reject s d = (res, s1)" "fsm_spec_run reject s1 log = (rs1, s')" "rs = res # rs1"
    using Cons.prems(1) by (auto split: prod.splits)
  show ?case
  proof (cases "d = data")
    case True
    have "reject (opKey op) (marshal_entry (kv_next s (opKey op) (opValue op))) = None"
      using Cons.prems(5) by (simp add: accepts_def kv_next_def Let_def)
    then have "orErr res = None" using 1(1) True Cons.prems(3,4) by (auto simp: fsm_spec_def Let_def)
    then show ?thesis by (simp add: 1(3))
  next
    case False
    then show ?thesis using Cons.IH [OF 1(2)] Cons.prems(2-5) by (auto simp: 1(3))
  qed
qed simp

definition solo_cfg :: NodeConfig where
  "solo_cfg = \<lparr>nc_NodeID = ''n1'', nc_BindAddr = ''127.0.0.1:9001'', nc_DataDir = ''d'', nc_Bootstrap = True\<rparr>"

definition solo_env :: "mem_db \<Rightarrow> (nat, mem_db) node_env" where
  "solo_env d = \<lparr>env_MkdirAll = (\<lambda>_. None), env_OpenBolt = (\<lambda>_ _. Inr d),
     env_LogStore = (\<lambda>_ _. None), env_SnapshotStore = (\<lambda>_. None), env_ResolveTCPAddr = (\<lambda>_. None),
     env_TCPTransport = (\<lambda>_. None), env_NewRaft = (\<lambda>_. Inr 0), env_BootstrapCluster = (\<lambda>r i a. r)\<rparr>"

text \<open>C32: a restart diverges. A node starts on an empty database and applies the committed log. Then
  it is started again on the file that it left: the new node has the same entries and the same
  revision. Its raft library, which keeps no record of what the database contains and has no
  snapshot yet, hands the whole log to \<^verbatim>\<open>FSM.Apply\<close> once more. When the log has a put that
  the database accepts, the replay ends at a greater revision and in another state than the
  node had before the restart, which is the state of every replica that applied the log once.\<close>

theorem restart_replay_skews:
  assumes "reliable_bolt B reject" and "2 * length log < 2 ^ 64"
    and "env_OpenBolt E (nc_DataDir cfg) ''data.db'' = Inr d" and "\<And>b k. tx_get B d b k = None"
    and "NewNode B E cfg = Inr n" and "fsm_run B (n_fsm n) log = (rs, f)"
    and "env_OpenBolt E' (nc_DataDir cfg) ''data.db'' = Inr d'"
    and "\<And>b k. tx_get B d' b k = tx_get B (bs_db (ws_bs (fsm_store f))) b k"
    and "NewNode B E' cfg = Inr n'" and "fsm_run B (n_fsm n') log = (rs', f')"
    and "data \<in> set log" and "unmarshal_op data = Inr op" and "opType op = ''put''"
    and "accepts reject (opKey op) (opValue op)"
  shows "node_abs B n' = fsm_abs B f \<and> node_Rev n' = ws_Rev (fsm_store f) \<and>
    ws_Rev (fsm_store f) < ws_Rev (fsm_store f') \<and> fsm_abs B f' \<noteq> fsm_abs B f"
proof -
  have api: "bolt_api B" using assms(1) by (simp add: reliable_bolt_def)
  have start: "node_wf B n" "node_abs B n = kv_empty" "bs_synced B (ws_bs (fsm_store (n_fsm n)))"
    using new_node_fresh [OF api assms(3,4,5)] by blast+
  have b: "unat (kv_rev (node_abs B n)) + length log < 2 ^ 64"
    unfolding start(2) using assms(2) by (simp add: kv_empty_def)
  note run = reliable_bolt.fsm_run_refines [OF assms(1) start(1) b assms(6)]
  have sync: "bs_synced B (ws_bs (fsm_store f))"
    by (rule reliable_bolt.fsm_run_synced [OF assms(1) start(1) b start(3) assms(6)])
  then have "bs_wf B (ws_bs (fsm_store f))" by (simp add: bs_synced_def)
  then have again: "node_wf B n'" "kv_map (node_abs B n') = kv_map (fsm_abs B f)" "node_Rev n' = bs_rev (ws_bs (fsm_store f))"
    using new_node_recovers [OF api _ assms(7,8,9)] sync by simp_all
  have same: "node_abs B n' = fsm_abs B f"
    using again(2,3) by (simp add: bs_abs_def node_Rev_def ws_Rev_def bs_Rev_def)
  have "unat (kv_rev (fsm_abs B f)) \<le> length log"
    using fsm_spec_run_rev(1) [OF conjunct1 [OF run] b] unfolding start(2) by (simp add: kv_empty_def)
  then have b': "unat (kv_rev (node_abs B n')) + length log < 2 ^ 64"
    unfolding same using assms(2) by linarith
  note run' = reliable_bolt.fsm_run_refines [OF assms(1) again(1) b' assms(10)]
  have less: "kv_rev (fsm_abs B f) < kv_rev (fsm_abs B f')"
    using fsm_spec_run_rev(3) [OF conjunct1 [OF run'] b' fsm_spec_run_accepted [OF conjunct1 [OF run'] assms(11-14)]]
    unfolding same .
  have "fsm_abs B f' \<noteq> fsm_abs B f"
  proof
    assume "fsm_abs B f' = fsm_abs B f"
    with less show False by (simp del: bs_abs_simps)
  qed
  with less same again(3) show ?thesis by (simp add: ws_Rev_def bs_Rev_def)
qed

definition solo_first :: "mem_db FSM" where
  "solo_first = snd (fsm_run mem_sure (n_fsm (projr (NewNode mem_sure (solo_env (mem_empty 8)) solo_cfg))) [demo_data])"

definition solo_again :: "mem_db FSM" where
  "solo_again = snd (fsm_run mem_sure
     (n_fsm (projr (NewNode mem_sure (solo_env (bs_db (ws_bs (fsm_store solo_first)))) solo_cfg))) [demo_data])"

theorem restart_replay_skews_witness:
  "ws_Rev (fsm_store solo_first) < ws_Rev (fsm_store solo_again) \<and>
   fsm_abs mem_sure solo_again \<noteq> fsm_abs mem_sure solo_first"
proof -
  have op: "unmarshal_op demo_data = Inr \<lparr>opType = ''put'', opKey = ''k'', opValue = Some ''v''\<rparr>"
    by (simp add: demo_data_def unmarshal_marshal_op norm_op_def utf8_coerce_ascii)
  have opens: "env_OpenBolt (solo_env d) (nc_DataDir solo_cfg) ''data.db'' = Inr d" for d by (simp add: solo_env_def)
  have none: "tx_get mem_sure (mem_empty 8) b k = None" for b k by (simp add: mem_sure_def mem_empty_def)
  have starts: "NewNode mem_sure (solo_env d) solo_cfg = Inr (projr (NewNode mem_sure (solo_env d) solo_cfg))"
    if "disk_rev mem_sure d \<noteq> None" for d
    using that by (auto simp: NewNode_def solo_env_def NewBoltStore_def mem_sure_def disk_rev_def split: option.splits)
  have empty: "disk_rev mem_sure (mem_empty 8) \<noteq> None" using none by (simp add: disk_rev_def)
  let ?n = "projr (NewNode mem_sure (solo_env (mem_empty 8)) solo_cfg) :: (nat, mem_db) Node"
  have run: "fsm_run mem_sure (n_fsm ?n) [demo_data] = (fst (fsm_run mem_sure (n_fsm ?n) [demo_data]), solo_first)"
    by (simp add: solo_first_def)
  have fresh: "node_wf mem_sure ?n" "node_abs mem_sure ?n = kv_empty" "bs_synced mem_sure (ws_bs (fsm_store (n_fsm ?n)))"
    using new_node_fresh [OF sure.bolt_api_axioms opens none starts [OF empty]] by blast+
  have "unat (kv_rev (node_abs mem_sure ?n)) + length [demo_data] < 2 ^ 64"
    unfolding fresh(2) by (simp add: kv_empty_def)
  then have "bs_synced mem_sure (ws_bs (fsm_store solo_first))"
    by (rule sure.fsm_run_synced [OF fresh(1) _ fresh(3) run])
  then have disk: "disk_rev mem_sure (bs_db (ws_bs (fsm_store solo_first))) \<noteq> None" by (simp add: bs_synced_def)
  show ?thesis
    using restart_replay_skews [OF mem_sure_reliable _ opens none starts [OF empty] run opens refl starts [OF disk]
        surjective_pairing list.set_intros(1) op]
    by (simp add: solo_again_def accepts_def blank_key_def)
qed

end
