(* ===== verification/Http_Server.thy ===== *)
theory Http_Server
  imports Raft_Node
begin

text \<open>
  \<^verbatim>\<open>server/server.go\<close>: the HTTP API over a \<^verbatim>\<open>store.Store\<close>. A handler is a function of the request
  and the server's state (the store and the last value given to the revision gauge) to the
  response and the next state. The responses are the bytes written: status, headers and the
  JSON body. The handlers are generic in the store interface, as in the code; what they
  promise is proved once in the contract \<open>kv_store\<close> and holds for both implementations.
  Log lines are not modelled.
\<close>

section \<open>Requests and responses\<close>

text \<open>
  The body of a request is the bytes that arrive and the error that ends them, if any.
  \<open>rq_Query\<close> is \<^verbatim>\<open>r.URL.Query().Get\<close>, \<open>rq_EscapedPath\<close> is \<^verbatim>\<open>r.URL.EscapedPath()\<close> and \<open>rq_URL\<close> is \<^verbatim>\<open>r.URL.String()\<close>.
\<close>

record Request =
  rq_Method :: string
  rq_Path :: string
  rq_EscapedPath :: string
  rq_URL :: string
  rq_Query :: "string \<Rightarrow> string"
  rq_Header :: "(string \<times> string) list"
  rq_Body :: "string \<times> err option"

record Response =
  rsp_Status :: nat
  rsp_Header :: "(string \<times> string) list"
  rsp_Body :: string

definition header_Set :: "(string \<times> string) list \<Rightarrow> string \<Rightarrow> string \<Rightarrow> (string \<times> string) list" where
  "header_Set h k v = filter (\<lambda>(k', _). k' \<noteq> k) h @ [(k, v)]"

definition header_Add :: "(string \<times> string) list \<Rightarrow> string \<Rightarrow> string \<Rightarrow> (string \<times> string) list" where
  "header_Add h k v = h @ [(k, v)]"

text \<open>\<^verbatim>\<open>io.ReadAll(io.LimitReader(r.Body, 1<<20))\<close>: what lies beyond the limit is not read.\<close>

definition body_limit :: nat where
  "body_limit = 2 ^ 20"

definition read_limited :: "nat \<Rightarrow> string \<times> err option \<Rightarrow> err + string" where
  "read_limited n body = (case body of (b, e) \<Rightarrow>
     if n \<le> length b then Inr (take n b)
     else (case e of Some er \<Rightarrow> Inl er | None \<Rightarrow> Inr b))"

text \<open>\<^verbatim>\<open>json.NewEncoder(w).Encode(v)\<close> ends the text with a newline.\<close>

definition writeJSON :: "(string \<times> string) list \<Rightarrow> nat \<Rightarrow> json \<Rightarrow> Response" where
  "writeJSON h status v = \<lparr>rsp_Status = status,
     rsp_Header = header_Set h ''Content-Type'' ''application/json'',
     rsp_Body = marshal v @ [CHR 0x0A]\<rparr>"

definition httpError :: "nat \<Rightarrow> string \<Rightarrow> Response" where
  "httpError status msg = \<lparr>rsp_Status = status,
     rsp_Header = header_Set [] ''Content-Type'' ''application/json'',
     rsp_Body = marshal (JObj [(''error'', JStr msg)]) @ [CHR 0x0A]\<rparr>"

text \<open>A handler that panics: net/http closes the connection without a response.\<close>

definition aborted :: Response where
  "aborted = \<lparr>rsp_Status = 0, rsp_Header = [], rsp_Body = []\<rparr>"

section \<open>Keys and paths\<close>

definition config_path :: string where
  "config_path = ''/api/v1/config/''"

definition configKey :: "string \<Rightarrow> err + string \<times> string \<times> string" where
  "configKey path =
     (let trimmed = TrimSuffix (TrimPrefix path config_path) ''/'' in
      (case SplitN trimmed CHR ''/'' 3 of
         [tenant] \<Rightarrow> Inr (tenant, [], [])
       | [tenant, namespace] \<Rightarrow> Inr (tenant, namespace, [])
       | [tenant, namespace, name] \<Rightarrow> Inr (tenant, namespace, name)
       | _ \<Rightarrow> Inl (ErrMsg (''invalid path: '' @ path))))"

definition storeKey :: "string \<Rightarrow> string \<Rightarrow> string \<Rightarrow> string" where
  "storeKey tenant namespace name = tenant @ ''/'' @ namespace @ ''/'' @ name"

definition listPrefix :: "string \<Rightarrow> string \<Rightarrow> string" where
  "listPrefix tenant namespace =
     (if namespace = [] then tenant @ ''/'' else tenant @ ''/'' @ namespace @ ''/'')"

section \<open>Response types\<close>

record ConfigItem =
  ciKey :: string
  ciValue :: string
  ciRevision :: u64
  ciCreateRevision :: u64
  ciModRevision :: u64
  ciVersion :: u64

record ConfigResponse =
  crRevision :: u64
  crCount :: nat
  crConfigs :: "ConfigItem list"

definition entryToConfig :: "Entry \<Rightarrow> ConfigItem" where
  "entryToConfig e = \<lparr>ciKey = eKey e, ciValue = bytes_str (eValue e), ciRevision = eRevision e,
     ciCreateRevision = eCreateRevision e, ciModRevision = eModRevision e, ciVersion = eVersion e\<rparr>"

definition config_item_json :: "ConfigItem \<Rightarrow> json" where
  "config_item_json c = JObj
     [(''key'', JStr (ciKey c)), (''value'', JStr (ciValue c)),
      (''revision'', json_uint (ciRevision c)), (''create_revision'', json_uint (ciCreateRevision c)),
      (''mod_revision'', json_uint (ciModRevision c)), (''version'', json_uint (ciVersion c))]"

text \<open>The count is left out when it is zero; the list is never nil.\<close>

definition config_response_json :: "ConfigResponse \<Rightarrow> json" where
  "config_response_json r = JObj ([(''revision'', json_uint (crRevision r))] @
     (if crCount r = 0 then [] else [(''count'', JNum (dec_of_nat (crCount r)))]) @
     [(''configs'', JArr (map config_item_json (crConfigs r)))])"

section \<open>Handlers\<close>

record 's Server =
  srv_store :: 's
  srv_gauge :: "u64 option"

text \<open>
  The handlers make several calls on the store, and another request may be served between two of
  them. The definitions with \<open>reads\<close> in their names take that as arguments: \<open>later st\<close> is what the
  other requests have made of the store \<open>st\<close> when the handler calls \<^verbatim>\<open>Rev\<close> after its first call, and
  \<open>later' st\<close> the same for the next call of \<^verbatim>\<open>Rev\<close>. The handlers without it serve one request at a
  time: both are the identity.
\<close>

definition handleGet_reads :: "'s Store \<Rightarrow> ('s \<Rightarrow> 's) \<Rightarrow> 's Server \<Rightarrow> string \<Rightarrow> string \<Rightarrow> string \<Rightarrow> Response" where
  "handleGet_reads S later s tenant namespace name =
     (let key = storeKey tenant namespace name in
      (case st_Get S (srv_store s) key of
         Inl e \<Rightarrow> if e = ErrKeyNotFound then httpError 404 (''key not found: '' @ key)
                  else httpError 500 (''failed to get key: '' @ err_text e)
       | Inr entry \<Rightarrow> writeJSON [] 200 (config_response_json
           \<lparr>crRevision = st_Rev S (later (srv_store s)), crCount = 0, crConfigs = [entryToConfig entry]\<rparr>)))"

definition handleGet :: "'s Store \<Rightarrow> 's Server \<Rightarrow> string \<Rightarrow> string \<Rightarrow> string \<Rightarrow> Response" where
  "handleGet S s tenant namespace name = handleGet_reads S id s tenant namespace name"

definition handlePut ::
  "'s Store \<Rightarrow> 's Server \<Rightarrow> Request \<Rightarrow> string \<Rightarrow> string \<Rightarrow> string \<Rightarrow> Response \<times> 's Server" where
  "handlePut S s r tenant namespace name =
     (case read_limited body_limit (rq_Body r) of
        Inl e \<Rightarrow> (httpError 400 (''failed to read request body: '' @ err_text e), s)
      | Inr body \<Rightarrow>
          (let key = storeKey tenant namespace name in
           (case st_Put S (srv_store s) key (Some body) of
              (Inl e, st) \<Rightarrow> (httpError 500 (''put: '' @ err_text e), s\<lparr>srv_store := st\<rparr>)
            | (Inr result, st) \<Rightarrow>
                (case prEntry result of
                   None \<Rightarrow> (aborted, s\<lparr>srv_store := st\<rparr>)
                 | Some entry \<Rightarrow>
                     (let status = (if prPrevEntry result = None then 201 else 200);
                          h = header_Set [] ''X-Paladin-Revision'' (FormatUint (eRevision entry)) in
                      (writeJSON h status (config_response_json
                         \<lparr>crRevision = eRevision entry, crCount = 0, crConfigs = [entryToConfig entry]\<rparr>),
                       \<lparr>srv_store = st, srv_gauge = Some (eRevision entry)\<rparr>))))))"

definition handleDelete_reads ::
  "'s Store \<Rightarrow> ('s \<Rightarrow> 's) \<Rightarrow> ('s \<Rightarrow> 's) \<Rightarrow> 's Server \<Rightarrow> string \<Rightarrow> string \<Rightarrow> string \<Rightarrow> Response \<times> 's Server" where
  "handleDelete_reads S later later' s tenant namespace name =
     (let key = storeKey tenant namespace name in
      (case st_Delete S (srv_store s) key of
         (Inl e, st) \<Rightarrow>
           (if e = ErrKeyNotFound then httpError 404 (''key not found: '' @ key)
            else httpError 500 (''failed to delete key: '' @ err_text e), s\<lparr>srv_store := st\<rparr>)
       | (Inr deleted, st) \<Rightarrow>
           (writeJSON [] 200 (config_response_json
              \<lparr>crRevision = st_Rev S (later st), crCount = 0, crConfigs = [entryToConfig deleted]\<rparr>),
            \<lparr>srv_store = later' (later st), srv_gauge = Some (st_Rev S (later' (later st)))\<rparr>)))"

definition handleDelete :: "'s Store \<Rightarrow> 's Server \<Rightarrow> string \<Rightarrow> string \<Rightarrow> string \<Rightarrow> Response \<times> 's Server" where
  "handleDelete S s tenant namespace name = handleDelete_reads S id id s tenant namespace name"

definition handleList_reads :: "'s Store \<Rightarrow> ('s \<Rightarrow> 's) \<Rightarrow> 's Server \<Rightarrow> string \<Rightarrow> string \<Rightarrow> Response" where
  "handleList_reads S later s tenant namespace =
     (case st_List S (srv_store s) (listPrefix tenant namespace) of
        Inl e \<Rightarrow> httpError 500 (''list: '' @ err_text e)
      | Inr entries \<Rightarrow>
          (let configs = map entryToConfig entries in
           writeJSON [] 200 (config_response_json
             \<lparr>crRevision = st_Rev S (later (srv_store s)), crCount = length configs, crConfigs = configs\<rparr>)))"

definition handleList :: "'s Store \<Rightarrow> 's Server \<Rightarrow> string \<Rightarrow> string \<Rightarrow> Response" where
  "handleList S s tenant namespace = handleList_reads S id s tenant namespace"

definition handleRev :: "'s Store \<Rightarrow> 's Server \<Rightarrow> Response" where
  "handleRev S s = writeJSON [] 200 (JObj [(''revision'', json_uint (st_Rev S (srv_store s)))])"

definition handleConfig_reads ::
  "'s Store \<Rightarrow> ('s \<Rightarrow> 's) \<Rightarrow> ('s \<Rightarrow> 's) \<Rightarrow> 's Server \<Rightarrow> Request \<Rightarrow> Response \<times> 's Server" where
  "handleConfig_reads S later later' s r =
     (case configKey (rq_Path r) of
        Inl e \<Rightarrow> (httpError 400 (''invalid path: '' @ rq_Path r), s)
      | Inr (tenant, namespace, name) \<Rightarrow>
          if rq_Method r = ''GET'' then
            (if name = [] then handleList_reads S later s tenant namespace
             else handleGet_reads S later s tenant namespace name, s\<lparr>srv_store := later (srv_store s)\<rparr>)
          else if rq_Method r = ''PUT'' then
            (if name = [] then (httpError 400 ''name is required for PUT'', s)
             else handlePut S s r tenant namespace name)
          else if rq_Method r = ''DELETE'' then
            (if name = [] then (httpError 400 ''name is required for DELETE'', s)
             else handleDelete_reads S later later' s tenant namespace name)
          else (httpError 405 (''method '' @ rq_Method r @ '' not allowed''), s))"

definition handleConfig :: "'s Store \<Rightarrow> 's Server \<Rightarrow> Request \<Rightarrow> Response \<times> 's Server" where
  "handleConfig S s r = handleConfig_reads S id id s r"

text \<open>The handlers that serve one request at a time, as equations.\<close>

lemma handleGet_serial:
  "handleGet S s t n m = (case st_Get S (srv_store s) (storeKey t n m) of
     Inl e \<Rightarrow> if e = ErrKeyNotFound then httpError 404 (''key not found: '' @ storeKey t n m)
              else httpError 500 (''failed to get key: '' @ err_text e)
   | Inr entry \<Rightarrow> writeJSON [] 200 (config_response_json
       \<lparr>crRevision = st_Rev S (srv_store s), crCount = 0, crConfigs = [entryToConfig entry]\<rparr>))"
  by (auto simp: handleGet_def handleGet_reads_def Let_def split: sum.splits prod.splits)

lemma handleDelete_serial:
  "handleDelete S s t n m = (case st_Delete S (srv_store s) (storeKey t n m) of
     (Inl e, st) \<Rightarrow>
       (if e = ErrKeyNotFound then httpError 404 (''key not found: '' @ storeKey t n m)
        else httpError 500 (''failed to delete key: '' @ err_text e), s\<lparr>srv_store := st\<rparr>)
   | (Inr deleted, st) \<Rightarrow>
       (writeJSON [] 200 (config_response_json
          \<lparr>crRevision = st_Rev S st, crCount = 0, crConfigs = [entryToConfig deleted]\<rparr>),
        \<lparr>srv_store = st, srv_gauge = Some (st_Rev S st)\<rparr>))"
  by (auto simp: handleDelete_def handleDelete_reads_def Let_def split: sum.splits prod.splits)

lemma handleList_serial:
  "handleList S s t n = (case st_List S (srv_store s) (listPrefix t n) of
     Inl e \<Rightarrow> httpError 500 (''list: '' @ err_text e)
   | Inr entries \<Rightarrow> writeJSON [] 200 (config_response_json
       \<lparr>crRevision = st_Rev S (srv_store s), crCount = length entries, crConfigs = map entryToConfig entries\<rparr>))"
  by (auto simp: handleList_def handleList_reads_def Let_def split: sum.splits prod.splits)

lemma handleConfig_serial:
  "handleConfig S s r =
     (case configKey (rq_Path r) of
        Inl e \<Rightarrow> (httpError 400 (''invalid path: '' @ rq_Path r), s)
      | Inr (tenant, namespace, name) \<Rightarrow>
          if rq_Method r = ''GET'' then
            (if name = [] then handleList S s tenant namespace
             else handleGet S s tenant namespace name, s)
          else if rq_Method r = ''PUT'' then
            (if name = [] then (httpError 400 ''name is required for PUT'', s)
             else handlePut S s r tenant namespace name)
          else if rq_Method r = ''DELETE'' then
            (if name = [] then (httpError 400 ''name is required for DELETE'', s)
             else handleDelete S s tenant namespace name)
          else (httpError 405 (''method '' @ rq_Method r @ '' not allowed''), s))"
  by (simp add: handleConfig_def handleConfig_reads_def handleList_def handleGet_def handleDelete_def
      cong: if_cong sum.case_cong)

section \<open>Paths, keys and namespaces\<close>

abbreviation slash :: char where "slash \<equiv> CHR ''/''"

lemma configKey_full:
  assumes "slash \<notin> set t" "slash \<notin> set n" "m \<noteq> []" "last m \<noteq> slash"
  shows "configKey (config_path @ storeKey t n m) = Inr (t, n, m)"
proof -
  have "\<not> HasSuffix (storeKey t n m) [slash]"
    using assms(3,4) by (simp add: HasSuffix_char storeKey_def)
  then have "TrimSuffix (storeKey t n m) [slash] = t @ slash # (n @ slash # m)"
    by (simp add: TrimSuffix_id storeKey_def)
  then show ?thesis
    using assms(1,2) by (simp add: configKey_def SplitN_sep numeral_3_eq_3 Let_def del: SplitN.simps(3))
qed

lemma configKey_total: "\<exists>x. configKey path = Inr x"
proof -
  let ?t = "TrimSuffix (TrimPrefix path config_path) [slash]"
  have "length (SplitN ?t slash 3) \<le> 3" "SplitN ?t slash 3 \<noteq> []" using SplitN_le SplitN_ne by simp_all
  then consider a where "SplitN ?t slash 3 = [a]" | a b where "SplitN ?t slash 3 = [a, b]"
    | a b c where "SplitN ?t slash 3 = [a, b, c]"
    by (cases "SplitN ?t slash 3" rule: remdups_adj.cases) (auto simp: le_Suc_eq numeral_3_eq_3 length_Suc_conv)
  then show ?thesis by cases (simp_all add: configKey_def Let_def)
qed

lemma append_sep_eq: "c \<notin> set a \<Longrightarrow> c \<notin> set b \<Longrightarrow> a @ c # x = b @ c # y \<longleftrightarrow> a = b \<and> x = y"
  by (metis append_Cons append_Nil append_eq_append_conv2 append_same_eq list.sel(3) same_append_eq
      takeWhile_until)

lemma storeKey_inj:
  assumes "slash \<notin> set t" "slash \<notin> set n" "slash \<notin> set t'" "slash \<notin> set n'"
  shows "storeKey t n m = storeKey t' n' m' \<longleftrightarrow> t = t' \<and> n = n' \<and> m = m'"
  using assms by (auto simp: storeKey_def append_sep_eq)

lemma listPrefix_keys:
  assumes "slash \<notin> set t" "slash \<notin> set n" "slash \<notin> set t'" "slash \<notin> set n'"
  shows "HasPrefix (storeKey t' n' m) (listPrefix t n) \<longleftrightarrow> t' = t \<and> (n = [] \<or> n' = n)"
  using assms by (auto simp: HasPrefix_iff storeKey_def listPrefix_def append_sep_eq)

section \<open>What the handlers do on a store that keeps its contract\<close>

context kv_store
begin

abbreviation srv_abs :: "'s Server \<Rightarrow> kv" where
  "srv_abs s \<equiv> abs (srv_store s)"

lemma handlePut_spec:
  assumes "invar (srv_store s)" and "kv_rev (srv_abs s) < max_rev"
    and "read_limited body_limit (rq_Body r) = Inr body" and "handlePut S s r t n m = (resp, s')"
  defines "k \<equiv> storeKey t n m"
  shows "invar (srv_store s') \<and>
   (case st_Put S (srv_store s) k (Some body) of
      (Inl e, st) \<Rightarrow> resp = httpError 500 (''put: '' @ err_text e) \<and> kv_map (srv_abs s') = kv_map (srv_abs s) \<and>
        srv_gauge s' = srv_gauge s
    | (Inr _, st) \<Rightarrow> srv_abs s' = kv_put (srv_abs s) k (Some body) \<and> srv_gauge s' = Some (kv_rev (srv_abs s) + 1) \<and>
        resp = writeJSON [(''X-Paladin-Revision'', FormatUint (kv_rev (srv_abs s) + 1))]
          (if kv_map (srv_abs s) k = None then 201 else 200)
          (config_response_json \<lparr>crRevision = kv_rev (srv_abs s) + 1, crCount = 0,
             crConfigs = [entryToConfig (kv_next (srv_abs s) k (Some body))]\<rparr>))"
proof -
  have rv: "eRevision (kv_next s0 k0 v) = kv_rev s0 + 1" for s0 k0 v by (simp add: kv_next_def Let_def)
  obtain x st where x: "st_Put S (srv_store s) k (Some body) = (x, st)" by (cases "st_Put S (srv_store s) k (Some body)")
  show ?thesis
  proof (cases x)
    case (Inl e)
    then show ?thesis
      using assms(4) x put_err [OF assms(1,2)] by (auto simp: handlePut_def assms(3) Let_def k_def)
  next
    case (Inr res)
    note ok = put_ok [OF assms(1,2) x [unfolded Inr]]
    with x Inr assms(4) show ?thesis
      by (auto simp: handlePut_def assms(3) Let_def k_def header_Set_def rv)
  qed
qed

lemma handleDelete_spec:
  assumes "invar (srv_store s)" and "kv_rev (srv_abs s) < max_rev" and "handleDelete S s t n m = (resp, s')"
  defines "k \<equiv> storeKey t n m"
  shows "invar (srv_store s') \<and>
   (case st_Delete S (srv_store s) k of
      (Inl e, st) \<Rightarrow> kv_map (srv_abs s') = kv_map (srv_abs s) \<and> srv_gauge s' = srv_gauge s \<and>
        rsp_Status resp = (if e = ErrKeyNotFound then 404 else 500)
    | (Inr _, st) \<Rightarrow> srv_abs s' = kv_delete (srv_abs s) k \<and> srv_gauge s' = Some (kv_rev (srv_abs s) + 1) \<and>
        (\<exists>p. kv_map (srv_abs s) k = Some p \<and> resp = writeJSON [] 200
          (config_response_json \<lparr>crRevision = kv_rev (srv_abs s) + 1, crCount = 0,
             crConfigs = [entryToConfig (p\<lparr>eRevision := kv_rev (srv_abs s) + 1\<rparr>)]\<rparr>)))"
proof -
  obtain x st where x: "st_Delete S (srv_store s) k = (x, st)" by (cases "st_Delete S (srv_store s) k")
  show ?thesis
  proof (cases x)
    case (Inl e)
    then show ?thesis
      using assms(3) x delete_err [OF assms(1,2)]
      by (auto simp: handleDelete_serial Let_def k_def httpError_def split: if_splits)
  next
    case (Inr d)
    note ok = delete_ok [OF assms(1,2) x [unfolded Inr]]
    then have "kv_rev (abs st) = kv_rev (srv_abs s) + 1" by (simp add: kv_delete_def)
    with ok x Inr assms(3) show ?thesis
      by (auto simp: handleDelete_serial Let_def k_def rev_spec)
  qed
qed

lemma handleGet_spec:
  fixes t n m :: string
  assumes "invar (srv_store s)"
  defines "k \<equiv> storeKey t n m"
  shows "handleGet S s t n m = (case kv_map (srv_abs s) k of
      None \<Rightarrow> httpError 404 (''key not found: '' @ k)
    | Some e \<Rightarrow> writeJSON [] 200 (config_response_json
        \<lparr>crRevision = kv_rev (srv_abs s), crCount = 0, crConfigs = [entryToConfig e]\<rparr>))"
  using assms(1) by (simp add: handleGet_serial Let_def k_def get_spec rev_spec split: option.splits)

lemma handleList_spec:
  assumes "invar (srv_store s)"
  shows "handleList S s t n = writeJSON [] 200 (config_response_json
    \<lparr>crRevision = kv_rev (srv_abs s), crCount = length (kv_list (srv_abs s) (listPrefix t n)),
     crConfigs = map entryToConfig (kv_list (srv_abs s) (listPrefix t n))\<rparr>)"
  using assms by (simp add: handleList_serial Let_def list_spec rev_spec)

text \<open>A request that is not answered with 200 or 201 leaves every entry and the gauge alone.\<close>

lemma handleConfig_failed:
  assumes inv: "invar (srv_store s)" and r: "kv_rev (srv_abs s) < max_rev"
    and h: "handleConfig S s r = (resp, s')"
  shows "invar (srv_store s')"
    and "rsp_Status resp \<noteq> 200 \<Longrightarrow> rsp_Status resp \<noteq> 201 \<Longrightarrow>
      kv_map (srv_abs s') = kv_map (srv_abs s) \<and> srv_gauge s' = srv_gauge s"
    and "rq_Method r \<noteq> ''PUT'' \<Longrightarrow> rq_Method r \<noteq> ''DELETE'' \<Longrightarrow> s' = s"
proof -
  obtain t n m where k: "configKey (rq_Path r) = Inr (t, n, m)" using configKey_total by (metis prod_cases3)
  have put: "invar (srv_store s2) \<and> (rsp_Status q \<noteq> 200 \<longrightarrow> rsp_Status q \<noteq> 201 \<longrightarrow>
      kv_map (srv_abs s2) = kv_map (srv_abs s) \<and> srv_gauge s2 = srv_gauge s)"
    if "handlePut S s r t n m = (q, s2)" for q s2
  proof (cases "read_limited body_limit (rq_Body r)")
    case (Inl e)
    then show ?thesis using that inv by (auto simp: handlePut_def)
  next
    case (Inr body)
    from handlePut_spec [OF inv r this that] show ?thesis
      by (auto simp: writeJSON_def split: prod.splits sum.splits if_splits)
  qed
  have del: "invar (srv_store s2) \<and> (rsp_Status q \<noteq> 200 \<longrightarrow> rsp_Status q \<noteq> 201 \<longrightarrow>
      kv_map (srv_abs s2) = kv_map (srv_abs s) \<and> srv_gauge s2 = srv_gauge s)"
    if "handleDelete S s t n m = (q, s2)" for q s2
    using handleDelete_spec [OF inv r that] by (auto simp: writeJSON_def split: prod.splits sum.splits)
  show "invar (srv_store s')"
    and "rsp_Status resp \<noteq> 200 \<Longrightarrow> rsp_Status resp \<noteq> 201 \<Longrightarrow>
      kv_map (srv_abs s') = kv_map (srv_abs s) \<and> srv_gauge s' = srv_gauge s"
    and "rq_Method r \<noteq> ''PUT'' \<Longrightarrow> rq_Method r \<noteq> ''DELETE'' \<Longrightarrow> s' = s"
    using h inv put del by (auto simp: handleConfig_serial k split: if_splits)
qed

end

section \<open>Properties of the HTTP API\<close>

text \<open>A path names a key: parsing the path of a key gives its parts back, and no path is invalid.\<close>

lemma handleConfig_full:
  assumes "slash \<notin> set t" "slash \<notin> set n" "m \<noteq> []" "last m \<noteq> slash"
    and "rq_Path r = config_path @ storeKey t n m"
  shows "rq_Method r = ''GET'' \<Longrightarrow> handleConfig S s r = (handleGet S s t n m, s)"
    and "rq_Method r = ''PUT'' \<Longrightarrow> handleConfig S s r = handlePut S s r t n m"
    and "rq_Method r = ''DELETE'' \<Longrightarrow> handleConfig S s r = handleDelete S s t n m"
  using assms(3,5) configKey_full [OF assms(1-4)] by (simp_all add: handleConfig_serial)

text \<open>C10: a successful PUT is read back. For a tenant and a namespace without a slash, the answer
  is 201 for a new key and 200 for an existing one and carries the new revision in its
  header, and a GET of the same path then answers 200 with exactly the entry that the
  abstract put wrote, at the new revision.\<close>

theorem put_then_get:
  assumes "bolt_api B" and "ws_wf B (srv_store s)" and "kv_rev (ws_abs B (srv_store s)) < max_rev"
    and "slash \<notin> set t" "slash \<notin> set n" "m \<noteq> []" "last m \<noteq> slash"
    and "rq_Method r = ''PUT''" "rq_Path r = config_path @ storeKey t n m"
    and "rq_Body r = (body, None)" "length body \<le> body_limit"
    and "handleConfig (watchable_ops B) s r = (resp, s')" "rsp_Status resp \<in> {200, 201}"
    and "rq_Method g = ''GET''" "rq_Path g = rq_Path r"
  shows "rsp_Status resp = (if kv_map (ws_abs B (srv_store s)) (storeKey t n m) = None then 201 else 200) \<and>
    (''X-Paladin-Revision'', FormatUint (ws_Rev (srv_store s) + 1)) \<in> set (rsp_Header resp) \<and>
    handleConfig (watchable_ops B) s' g = (writeJSON [] 200 (config_response_json
      \<lparr>crRevision = ws_Rev (srv_store s) + 1, crCount = 0,
       crConfigs = [entryToConfig (norm_entry (kv_next (ws_abs B (srv_store s)) (storeKey t n m) (Some body)))]\<rparr>), s')"
proof -
  let ?k = "storeKey t n m" and ?a = "ws_abs B (srv_store s)"
  have S: "kv_store (watchable_ops B) (ws_abs B) (ws_wf B)" by (rule bolt_api.ws_kv_store [OF assms(1)])
  have body: "read_limited body_limit (rq_Body r) = Inr body"
    using assms(10,11) by (simp add: read_limited_def)
  have h: "handlePut (watchable_ops B) s r t n m = (resp, s')"
    using handleConfig_full(2) [OF assms(4-7,9,8)] assms(12) by metis
  have ok: "ws_wf B (srv_store s')" "ws_abs B (srv_store s') = kv_put ?a ?k (Some body)"
    "resp = writeJSON [(''X-Paladin-Revision'', FormatUint (kv_rev ?a + 1))]
          (if kv_map ?a ?k = None then 201 else 200)
          (config_response_json \<lparr>crRevision = kv_rev ?a + 1, crCount = 0,
             crConfigs = [entryToConfig (kv_next ?a ?k (Some body))]\<rparr>)"
    using kv_store.handlePut_spec [OF S assms(2,3) body h] assms(13)
    by (auto simp: httpError_def split: prod.splits sum.splits)
  have "handleConfig (watchable_ops B) s' g = (handleGet (watchable_ops B) s' t n m, s')"
    using handleConfig_full(1) [OF assms(4-7)] assms(9,14,15) by simp
  also have "handleGet (watchable_ops B) s' t n m = writeJSON [] 200 (config_response_json
      \<lparr>crRevision = kv_rev ?a + 1, crCount = 0, crConfigs = [entryToConfig (norm_entry (kv_next ?a ?k (Some body)))]\<rparr>)"
    unfolding kv_store.handleGet_spec [OF S ok(1)] ok(2) by (simp add: kv_put_def)
  finally show ?thesis
    using ok(3) by (simp add: writeJSON_def header_Set_def ws_Rev_def bs_Rev_def)
qed

definition demo_server :: "mem_db WatchableStore Server" where
  "demo_server = \<lparr>srv_store = fsm_store (demo_fsm 8), srv_gauge = None\<rparr>"

definition demo_request :: "string \<Rightarrow> string \<Rightarrow> string \<Rightarrow> Request" where
  "demo_request method path body = \<lparr>rq_Method = method, rq_Path = path, rq_EscapedPath = path, rq_URL = path, rq_Query = (\<lambda>_. []),
     rq_Header = [], rq_Body = (body, None)\<rparr>"

definition demo_put_resp :: "Response \<times> mem_db WatchableStore Server" where
  "demo_put_resp = handleConfig (watchable_ops mem_sure) demo_server (demo_request ''PUT'' ''/api/v1/config/t/n/m'' ''v'')"

lemma demo_server_ok: "ws_wf mem_sure (srv_store demo_server)"
  "kv_rev (ws_abs mem_sure (srv_store demo_server)) = 0" "ws_abs mem_sure (srv_store demo_server) = kv_empty"
  using demo_fsm_wf [of 8] by (simp_all add: demo_server_def)

lemma demo_path: "''/api/v1/config/t/n/m'' = config_path @ storeKey ''t'' ''n'' ''m''"
  by (simp add: config_path_def storeKey_def)

lemma demo_put_resp_ok:
  "rsp_Status (fst demo_put_resp) = 201 \<and> ws_wf mem_sure (srv_store (snd demo_put_resp)) \<and>
   ws_abs mem_sure (srv_store (snd demo_put_resp)) = kv_put kv_empty ''t/n/m'' (Some ''v'')"
proof -
  let ?r = "demo_request ''PUT'' ''/api/v1/config/t/n/m'' ''v''"
  have rev: "kv_rev (ws_abs mem_sure (srv_store demo_server)) < max_rev"
    by (simp only: demo_server_ok(2)) (simp add: max_rev_def)
  have body: "read_limited body_limit (rq_Body ?r) = Inr ''v''"
    by (simp add: read_limited_def demo_request_def body_limit_def)
  have k: "storeKey ''t'' ''n'' ''m'' = ''t/n/m''" by (simp add: storeKey_def)
  have "demo_put_resp = handlePut (watchable_ops mem_sure) demo_server ?r ''t'' ''n'' ''m''"
    unfolding demo_put_resp_def by (rule handleConfig_full(2)) (simp_all add: demo_request_def demo_path)
  then have "handlePut (watchable_ops mem_sure) demo_server ?r ''t'' ''n'' ''m'' = (fst demo_put_resp, snd demo_put_resp)"
    by simp
  from kv_store.handlePut_spec [OF sure.ws_kv_store demo_server_ok(1) rev body this]
    sure.ws_Put_sure [OF demo_server_ok(1) rev [unfolded bs_abs_simps], of "''t/n/m''" "Some ''v''"]
  show ?thesis
    unfolding demo_server_ok(3) k
    by (auto simp: blank_key_def writeJSON_def kv_empty_def split: prod.splits sum.splits)
qed

lemmas demo_put_status = demo_put_resp_ok [THEN conjunct1]

theorem put_then_get_witness:
  "rsp_Status (fst demo_put_resp) = 201 \<and>
   rsp_Status (fst (handleConfig (watchable_ops mem_sure) (snd demo_put_resp)
     (demo_request ''GET'' ''/api/v1/config/t/n/m'' []))) = 200"
proof -
  have rev: "kv_rev (ws_abs mem_sure (srv_store demo_server)) < max_rev"
    by (simp only: demo_server_ok(2)) (simp add: max_rev_def)
  have h: "handleConfig (watchable_ops mem_sure) demo_server (demo_request ''PUT'' ''/api/v1/config/t/n/m'' ''v'')
      = (fst demo_put_resp, snd demo_put_resp)" by (simp add: demo_put_resp_def)
  have "rsp_Status (fst demo_put_resp) \<in> {200, 201}" by (simp add: demo_put_status)
  from put_then_get [OF sure.bolt_api_axioms demo_server_ok(1) rev _ _ _ _ _ _ _ _ h this,
      of "''t''" "''n''" "''m''" "''v''" "demo_request ''GET'' ''/api/v1/config/t/n/m'' []"]
  show ?thesis
    using demo_put_status by (simp add: demo_request_def demo_path body_limit_def writeJSON_def)
qed

text \<open>C17: a request that fails does nothing. Whatever the path, the method and the body, the server
  keeps its store well-formed; an answer other than 200 and 201 leaves every entry and the
  gauge as they were, and only PUT and DELETE change anything.\<close>

theorem failed_request_harmless:
  assumes "bolt_api B" and "ws_wf B (srv_store s)" and "kv_rev (ws_abs B (srv_store s)) < max_rev"
    and "handleConfig (watchable_ops B) s r = (resp, s')"
  shows "ws_wf B (srv_store s') \<and>
    (rsp_Status resp \<notin> {200, 201} \<longrightarrow>
      kv_map (ws_abs B (srv_store s')) = kv_map (ws_abs B (srv_store s)) \<and> srv_gauge s' = srv_gauge s) \<and>
    (rq_Method r \<notin> {''PUT'', ''DELETE''} \<longrightarrow> s' = s)"
  using kv_store.handleConfig_failed [OF bolt_api.ws_kv_store [OF assms(1)] assms(2-4)] by blast

theorem failed_request_harmless_witness:
  "ws_wf mem_sure (srv_store demo_server) \<and>
   ws_wf mem_sure (srv_store (snd (handleConfig (watchable_ops mem_sure) demo_server
     (demo_request ''DELETE'' ''/api/v1/config/t/n/m'' []))))"
proof -
  have rev: "kv_rev (ws_abs mem_sure (srv_store demo_server)) < max_rev"
    by (simp only: demo_server_ok(2)) (simp add: max_rev_def)
  from failed_request_harmless [OF sure.bolt_api_axioms demo_server_ok(1) rev surjective_pairing]
  show ?thesis using demo_server_ok(1) by blast
qed

text \<open>Deleting and reading a missing key. DELETE answers 404 and GET answers 404, nothing
  changes, and the statuses for the other misuses are those of the API: 400 for a write
  without a name, 405 for any other method.\<close>

lemma missing_key_404:
  assumes "bolt_api B" and "ws_wf B (srv_store s)"
    and "configKey (rq_Path r) = Inr (t, n, m)" and "kv_map (ws_abs B (srv_store s)) (storeKey t n m) = None"
    and "handleConfig (watchable_ops B) s r = (resp, s')"
  shows "(s' = s \<or> rq_Method r = ''PUT'' \<and> m \<noteq> []) \<and>
    (m \<noteq> [] \<and> rq_Method r \<in> {''GET'', ''DELETE''} \<longrightarrow>
      resp = httpError 404 (''key not found: '' @ storeKey t n m)) \<and>
    (m = [] \<and> rq_Method r \<in> {''PUT'', ''DELETE''} \<longrightarrow> rsp_Status resp = 400) \<and>
    (rq_Method r \<notin> {''GET'', ''PUT'', ''DELETE''} \<longrightarrow> rsp_Status resp = 405)"
proof -
  have S: "kv_store (watchable_ops B) (ws_abs B) (ws_wf B)" by (rule bolt_api.ws_kv_store [OF assms(1)])
  have get: "handleGet (watchable_ops B) s t n m = httpError 404 (''key not found: '' @ storeKey t n m)"
    using kv_store.handleGet_spec [OF S assms(2), of t n m] assms(4) by simp
  have del: "handleDelete (watchable_ops B) s t n m = (httpError 404 (''key not found: '' @ storeKey t n m), s)"
    using kv_store.delete_missing [OF S assms(2,4)] by (simp add: handleDelete_serial Let_def)
  note h = assms(5) [unfolded handleConfig_serial assms(3)]
  have "s' = s \<or> rq_Method r = ''PUT'' \<and> m \<noteq> []" using h del by (auto split: if_splits)
  moreover have "m \<noteq> [] \<and> rq_Method r \<in> {''GET'', ''DELETE''} \<longrightarrow>
      resp = httpError 404 (''key not found: '' @ storeKey t n m)" using h get del by (auto split: if_splits)
  moreover have "m = [] \<and> rq_Method r \<in> {''PUT'', ''DELETE''} \<longrightarrow> rsp_Status resp = 400"
    using h by (auto simp: httpError_def split: if_splits)
  moreover have "rq_Method r \<notin> {''GET'', ''PUT'', ''DELETE''} \<longrightarrow> rsp_Status resp = 405"
    using h by (auto simp: httpError_def split: if_splits)
  ultimately show ?thesis by blast
qed

text \<open>C16: namespaces are isolated. Listing a tenant and a namespace (neither with a slash) answers
  200 with a count and items that are, in key order, exactly the stored entries whose key
  belongs to that namespace, or to any namespace of the tenant when none is given; and of two
  keys written through slash-free tenants and namespaces, the listing sees the other one only
  if tenant and namespace agree.\<close>

theorem namespace_isolation:
  assumes "bolt_api B" and "ws_wf B (srv_store s)" and "slash \<notin> set t" and "slash \<notin> set n"
  shows "\<exists>ks. handleList (watchable_ops B) s t n = writeJSON [] 200 (config_response_json
      \<lparr>crRevision = ws_Rev (srv_store s), crCount = length ks,
       crConfigs = map (\<lambda>k. entryToConfig (the (kv_map (ws_abs B (srv_store s)) k))) ks\<rparr>) \<and>
    sorted_wrt (<) ks \<and>
    (\<forall>t' n' m'. slash \<notin> set t' \<longrightarrow> slash \<notin> set n' \<longrightarrow>
      (storeKey t' n' m' \<in> set ks \<longleftrightarrow>
        kv_map (ws_abs B (srv_store s)) (storeKey t' n' m') \<noteq> None \<and> t' = t \<and> (n = [] \<or> n' = n)))"
proof -
  let ?a = "ws_abs B (srv_store s)" and ?p = "listPrefix t n"
  let ?K = "{k. kv_map ?a k \<noteq> None \<and> HasPrefix k ?p}"
  let ?ks = "sorted_list_of_set ?K"
  have S: "kv_store (watchable_ops B) (ws_abs B) (ws_wf B)" by (rule bolt_api.ws_kv_store [OF assms(1)])
  have "finite ?K"
    by (rule finite_subset [OF _ kv_store.finite_keys [OF S assms(2)]]) auto
  then have set: "set ?ks = ?K" by (rule set_sorted_list_of_set)
  have "handleList (watchable_ops B) s t n = writeJSON [] 200 (config_response_json
      \<lparr>crRevision = ws_Rev (srv_store s), crCount = length ?ks,
       crConfigs = map (\<lambda>k. entryToConfig (the (kv_map ?a k))) ?ks\<rparr>)"
    unfolding kv_store.handleList_spec [OF S assms(2)] kv_list_def
    by (simp add: comp_def ws_Rev_def bs_Rev_def)
  moreover have "sorted_wrt (<) ?ks" by (rule strict_sorted_list_of_set_keys)
  moreover have "storeKey t' n' m' \<in> set ?ks \<longleftrightarrow>
      kv_map ?a (storeKey t' n' m') \<noteq> None \<and> t' = t \<and> (n = [] \<or> n' = n)"
    if "slash \<notin> set t'" "slash \<notin> set n'" for t' n' m'
    unfolding set using listPrefix_keys [OF assms(3,4) that] by blast
  ultimately show ?thesis by (intro exI [of _ ?ks]) blast
qed

theorem namespace_isolation_witness:
  "\<exists>ks. handleList (watchable_ops mem_sure) demo_server ''t'' ''n'' = writeJSON [] 200 (config_response_json
      \<lparr>crRevision = ws_Rev (srv_store demo_server), crCount = length ks,
       crConfigs = map (\<lambda>k. entryToConfig (the (kv_map (ws_abs mem_sure (srv_store demo_server)) k))) ks\<rparr>) \<and>
    storeKey ''t'' ''n'' ''m'' \<notin> set ks"
  using namespace_isolation [OF sure.bolt_api_axioms demo_server_ok(1), of "''t''" "''n''"]
    demo_server_ok(3) by (force simp: kv_empty_def)

text \<open>A body over the limit is cut off silently: when more than 2^20 bytes arrive, the PUT is
  handled exactly as if the first 2^20 bytes had been the whole body, without an error.\<close>

lemma put_truncates:
  assumes "rq_Body r = (b, e)" and "body_limit < length b"
  shows "handlePut S s r t n m = handlePut S s (r\<lparr>rq_Body := (take body_limit b, None)\<rparr>) t n m"
  using assms by (simp add: handlePut_def read_limited_def)

text \<open>Paths and keys correspond. Every path is accepted; the path of a key whose tenant and
  namespace have no slash and whose name is not blank and does not end in one parses to that
  tenant, namespace and name, and two such keys are equal only if all three parts are.\<close>

lemma path_key_roundtrip:
  assumes "slash \<notin> set t" "slash \<notin> set n" "m \<noteq> []" "last m \<noteq> slash"
    and "slash \<notin> set t'" "slash \<notin> set n'"
  shows "configKey (''/api/v1/config/'' @ storeKey t n m) = Inr (t, n, m) \<and>
    (storeKey t n m = storeKey t' n' m' \<longleftrightarrow> (t, n, m) = (t', n', m')) \<and> (\<exists>x. configKey path = Inr x)"
  using configKey_full [OF assms(1-4), unfolded config_path_def] storeKey_inj [OF assms(1,2,5,6)] configKey_total
  by simp

end
