(* ===== verification/Watch_Endpoint.thy ===== *)
theory Watch_Endpoint
  imports Http_Server
begin

text \<open>
  \<^verbatim>\<open>server/watch.go\<close>: the long-polling endpoint. The handler parses the request, blocks in
  \<^verbatim>\<open>WaitForEvents\<close> and answers with the events and the store's revision, which it reads twice
  after the wait. What the wait returns is a parameter of the handler: \<open>Watch_Wait\<close> says which
  event lists it can return. A \<^verbatim>\<open>time.Duration\<close> is a 64-bit number of nanoseconds, so that the
  product with \<^verbatim>\<open>time.Second\<close> wraps.
\<close>

section \<open>Parsing the request\<close>

definition defaultWatchTimeout :: int where
  "defaultWatchTimeout = 30 * second"

definition maxWatchTimeout :: int where
  "maxWatchTimeout = 60 * second"

text \<open>Arithmetic on \<^verbatim>\<open>int64\<close>.\<close>

definition int64 :: "int \<Rightarrow> int" where
  "int64 x = sint (word_of_int x :: 64 word)"

definition watch_path :: string where
  "watch_path = ''/api/v1/watch/''"

definition watch_timeout :: "string \<Rightarrow> int option" where
  "watch_timeout timeoutStr =
     (if timeoutStr = [] then Some defaultWatchTimeout
      else (case Atoi timeoutStr of None \<Rightarrow> None
        | Some secs \<Rightarrow>
            if secs \<le> 0 then None
            else (let timeout = int64 (secs * second) in
              Some (if timeout > maxWatchTimeout then maxWatchTimeout else timeout))))"

text \<open>The part before the wait: an error response, or the arguments of \<^verbatim>\<open>WaitForEvents\<close>.\<close>

definition watch_args :: "Request \<Rightarrow> Response + u64 \<times> string \<times> int" where
  "watch_args r =
     (if rq_Method r \<noteq> ''GET'' then Inl (httpError 405 ''only GET allowed'')
      else let trimmed = TrimSuffix (TrimPrefix (rq_Path r) watch_path) ''/'' in
        if trimmed = [] then Inl (httpError 400 ''tenant is required'')
        else let prefix = trimmed @ ''/''; revStr = rq_Query r ''revision''; timeoutStr = rq_Query r ''timeout'' in
          (case (if revStr = [] then Some 0 else ParseUint revStr) of
             None \<Rightarrow> Inl (httpError 400 (''invalid revision: '' @ revStr))
           | Some afterRev \<Rightarrow>
               (case watch_timeout timeoutStr of
                  None \<Rightarrow> Inl (httpError 400 (''invalid timeout: '' @ timeoutStr))
                | Some timeout \<Rightarrow> Inr (afterRev, prefix, timeout))))"

section \<open>The response\<close>

record WatchEvent =
  weType :: string
  weEntry :: ConfigItem
  wePrevEntry :: "ConfigItem option"

definition watch_event_json :: "WatchEvent \<Rightarrow> json" where
  "watch_event_json e = JObj ([(''type'', JStr (weType e)), (''entry'', config_item_json (weEntry e))] @
     (case wePrevEntry e of None \<Rightarrow> [] | Some p \<Rightarrow> [(''prev_entry'', config_item_json p)]))"

definition watch_response_json :: "u64 \<Rightarrow> WatchEvent list \<Rightarrow> json" where
  "watch_response_json rv evs = JObj
     [(''revision'', json_uint rv), (''events'', JArr (map watch_event_json evs))]"

text \<open>The conversion of an event; a nil entry would be a panic, which is \<^term>\<open>None\<close>.\<close>

definition to_watch_event :: "Event \<Rightarrow> WatchEvent option" where
  "to_watch_event e = (case evEntry e of None \<Rightarrow> None
     | Some entry \<Rightarrow> Some \<lparr>weType = EventType_String (evType e), weEntry = entryToConfig entry,
         wePrevEntry = map_option entryToConfig (evPrevEntry e)\<rparr>)"

definition watch_reply :: "u64 \<Rightarrow> u64 \<Rightarrow> Event list \<Rightarrow> Response" where
  "watch_reply rev1 rev2 events =
     (case those (map to_watch_event events) of None \<Rightarrow> aborted
      | Some watchEvents \<Rightarrow>
          \<lparr>rsp_Status = 200,
           rsp_Header = header_Set (header_Set [] ''Content-Type'' ''application/json'')
             ''X-Paladin-Revision'' (FormatUint rev1),
           rsp_Body = marshal (watch_response_json rev2 watchEvents) @ [CHR 0x0A]\<rparr>)"

definition handleWatch :: "(u64 \<Rightarrow> string \<Rightarrow> int \<Rightarrow> Event list) \<Rightarrow> u64 \<Rightarrow> u64 \<Rightarrow> Request \<Rightarrow> Response" where
  "handleWatch waitForEvents rev1 rev2 r =
     (case watch_args r of Inl resp \<Rightarrow> resp
      | Inr (afterRev, prefix, timeout) \<Rightarrow>
          watch_reply rev1 rev2 (waitForEvents afterRev prefix timeout))"

section \<open>Lemmas\<close>

lemma int64_small: "- (2 ^ 63) \<le> x \<Longrightarrow> x < 2 ^ 63 \<Longrightarrow> int64 x = x"
  unfolding int64_def by (simp add: int_word_sint)

lemma to_watch_event_total:
  "\<forall>ev \<in> set evs. evEntry ev \<noteq> None \<Longrightarrow> \<exists>ws. those (map to_watch_event evs) = Some ws"
  by (induction evs) (auto simp: to_watch_event_def)

section \<open>Properties of the endpoint\<close>

text \<open>The wait is bounded for every sensible timeout. When the request is accepted and its
  timeout is absent or at most 9223372036 seconds, \<^verbatim>\<open>WaitForEvents\<close> is called with a positive
  timeout of at most a minute, and with a prefix that ends in a slash and extends a
  non-empty tenant.\<close>

lemma watch_args_bounds:
  assumes "watch_args r = Inr (afterRev, prefix, timeout)"
    and "\<And>secs. Atoi (rq_Query r ''timeout'') = Some secs \<Longrightarrow> secs \<le> 9223372036"
  shows "0 < timeout \<and> timeout \<le> 60 * second \<and> rq_Method r = ''GET'' \<and>
    (\<exists>p. prefix = p @ ''/'' \<and> p \<noteq> []) \<and>
    (rq_Query r ''timeout'' = [] \<longrightarrow> timeout = 30 * second) \<and>
    (\<forall>secs. Atoi (rq_Query r ''timeout'') = Some secs \<longrightarrow> timeout = min secs 60 * second)"
proof -
  have acc: "watch_timeout (rq_Query r ''timeout'') = Some timeout" "rq_Method r = ''GET''"
    "\<exists>p. prefix = p @ ''/'' \<and> p \<noteq> []"
    using assms(1) by (auto simp: watch_args_def Let_def split: if_splits option.splits)
  have wrap: "int64 (secs * second) = secs * second" if "0 < secs" "secs \<le> 9223372036" for secs
    using that by (intro int64_small) (simp_all add: second_def)
  have empty: "Atoi [] = None" by (simp add: Atoi_def)
  show ?thesis
    using acc assms(2) wrap
    by (auto simp: watch_timeout_def Let_def empty defaultWatchTimeout_def maxWatchTimeout_def second_def
        split: if_splits option.splits)
qed

text \<open>The cap on the timeout can be missed. For a timeout of 9223372037 seconds the product
  overflows to a negative duration, which is not above the cap: the request is accepted and
  the wait has a negative timeout instead of a minute.\<close>

lemma watch_timeout_overflow:
  "watch_timeout ''9223372037'' = Some (- 9223372036709551616)"
proof -
  have a: "Atoi ''9223372037'' = Some 9223372037"
    by (simp add: Atoi_def nat_of_dec_def is_digit_def)
  have "int64 (9223372037 * second) = - 9223372036709551616"
    by code_simp
  then show ?thesis by (simp add: watch_timeout_def a maxWatchTimeout_def second_def)
qed

end
