(* ===== verification/Go_Fields.thy ===== *)
theory Go_Fields
  imports Go_Text
begin

text \<open>
  More of the Go packages \<^verbatim>\<open>strings\<close> and \<^verbatim>\<open>path\<close>, on byte strings: splitting and joining, trimming
  white space, lower case, and the cleaning of a rooted path.
\<close>

section \<open>Splitting and joining\<close>

text \<open>\<^verbatim>\<open>strings.Split(s, sep)\<close> for a separator of one byte; the result is never empty.\<close>

fun Split :: "string \<Rightarrow> char \<Rightarrow> string list" where
  "Split [] c = [[]]"
| "Split (x # s) c = (if x = c then [] # Split s c
     else (case Split s c of [] \<Rightarrow> [[x]] | p # ps \<Rightarrow> (x # p) # ps))"

fun Join :: "string list \<Rightarrow> string \<Rightarrow> string" where
  "Join [] sep = []"
| "Join [p] sep = p"
| "Join (p # q # ps) sep = p @ sep @ Join (q # ps) sep"

lemma Split_ne [simp]: "Split s c \<noteq> []"
  by (induction s c rule: Split.induct) (auto split: list.splits)

lemma Split_nosep: "c \<notin> set s \<Longrightarrow> Split s c = [s]"
  by (induction s) auto

lemma Split_append: "c \<notin> set a \<Longrightarrow> Split (a @ c # s) c = a # Split s c"
  by (induction a) auto

lemma Join_Cons: "ps \<noteq> [] \<Longrightarrow> Join (p # ps) sep = p @ sep @ Join ps sep"
  by (cases ps) auto

lemma Join_Split: "Join (Split s c) [c] = s"
proof (induction s c rule: Split.induct)
  case (2 x s c)
  then show ?case by (cases "Split s c") (auto simp: Join_Cons split: list.splits, (cases "tl (Split s c)"; auto)+)
qed simp

lemma Split_parts: "p \<in> set (Split s c) \<Longrightarrow> c \<notin> set p"
  by (induction s c arbitrary: p rule: Split.induct) (fastforce split: if_splits list.splits)+

lemma Split_Join: "ps \<noteq> [] \<Longrightarrow> \<forall>p \<in> set ps. c \<notin> set p \<Longrightarrow> Split (Join ps [c]) c = ps"
  by (induction ps "[c]" rule: Join.induct) (simp_all add: Split_nosep Split_append)

section \<open>White space and lower case\<close>

text \<open>The encodings of the runes that \<^verbatim>\<open>unicode.IsSpace\<close> accepts.\<close>

definition space_runes :: "string list" where
  "space_runes = map (\<lambda>n. [char_of (n :: nat)]) [9, 10, 11, 12, 13, 32] @
     [[CHR 0xC2, CHR 0x85], [CHR 0xC2, CHR 0xA0], [CHR 0xE1, CHR 0x9A, CHR 0x80]] @
     map (\<lambda>n. [CHR 0xE2, CHR 0x80, char_of (n :: nat)]) ([0x80 ..< 0x8B] @ [0xA8, 0xA9, 0xAF]) @
     [[CHR 0xE2, CHR 0x81, CHR 0x9F], [CHR 0xE3, CHR 0x80, CHR 0x80]]"

lemma space_runes_ne: "r \<in> set space_runes \<Longrightarrow> r \<noteq> []"
  by (auto simp: space_runes_def)

function TrimLeftSpace :: "string \<Rightarrow> string" where
  "TrimLeftSpace s = (case find (HasPrefix s) space_runes of None \<Rightarrow> s
     | Some r \<Rightarrow> TrimLeftSpace (drop (length r) s))"
  by pat_completeness auto
termination
  by (relation "measure length") (auto simp: find_Some_iff HasPrefix_iff dest!: nth_mem dest: space_runes_ne)

function TrimRightSpace :: "string \<Rightarrow> string" where
  "TrimRightSpace s = (case find (HasSuffix s) space_runes of None \<Rightarrow> s
     | Some r \<Rightarrow> TrimRightSpace (take (length s - length r) s))"
  by pat_completeness auto
termination
  by (relation "measure length") (auto simp: find_Some_iff HasSuffix_iff dest!: nth_mem dest: space_runes_ne)

declare TrimLeftSpace.simps [simp del] TrimRightSpace.simps [simp del]

definition TrimSpace :: "string \<Rightarrow> string" where
  "TrimSpace s = TrimRightSpace (TrimLeftSpace s)"

text \<open>
  \<^verbatim>\<open>strings.ToLower\<close> as far as a comparison with an ASCII word can see it: the ASCII capitals,
  and the two other runes whose lower case is ASCII (U+0130 and U+212A). Every other rune has
  a lower case outside ASCII and is kept.
\<close>

definition lower_byte :: "char \<Rightarrow> char" where
  "lower_byte c = (if 65 \<le> code c \<and> code c \<le> 90 then char_of (code c + 32) else c)"

fun ToLower :: "string \<Rightarrow> string" where
  "ToLower (a # b # c # s) =
     (if [a, b, c] = [CHR 0xE2, CHR 0x84, CHR 0xAA] then CHR ''k'' # ToLower s
      else if [a, b] = [CHR 0xC4, CHR 0xB0] then CHR ''i'' # ToLower (c # s)
      else lower_byte a # ToLower (b # c # s))"
| "ToLower [a, b] = (if [a, b] = [CHR 0xC4, CHR 0xB0] then ''i'' else [lower_byte a, lower_byte b])"
| "ToLower [a] = [lower_byte a]"
| "ToLower [] = []"

section \<open>Numbers and quoting\<close>

text \<open>\<^verbatim>\<open>%d\<close> of a signed number.\<close>

definition FormatInt :: "int \<Rightarrow> string" where
  "FormatInt i = (if i < 0 then CHR ''-'' # dec_of_nat (nat (- i)) else dec_of_nat (nat i))"


text \<open>
  \<^verbatim>\<open>strconv.Quote\<close>, the verb \<^verbatim>\<open>%q\<close>, with its escapes for ASCII; the bytes of other runes are kept,
  as they are for printable ones.
\<close>

definition quote_byte :: "char \<Rightarrow> string" where
  "quote_byte c =
     (case map_of [(0x22, CHR 0x22), (0x5C, CHR 0x5C), (7, CHR ''a''), (8, CHR ''b''), (12, CHR ''f''),
        (10, CHR ''n''), (13, CHR ''r''), (9, CHR ''t''), (11, CHR ''v'')] (code c) of
        Some e \<Rightarrow> [CHR 0x5C, e]
      | None \<Rightarrow> if code c < 32 \<or> code c = 127 then [CHR 0x5C, CHR ''x'', hex_char (code c div 16), hex_char (code c mod 16)]
          else [c])"

definition Quote :: "string \<Rightarrow> string" where
  "Quote s = [CHR 0x22] @ concat (map quote_byte s) @ [CHR 0x22]"

section \<open>Cleaning a path\<close>

text \<open>\<^verbatim>\<open>path.Clean\<close> of a rooted path, by its elements; \<open>acc\<close> holds the elements kept so far, last first.\<close>

fun clean_elems :: "string list \<Rightarrow> string list \<Rightarrow> string list" where
  "clean_elems acc [] = rev acc"
| "clean_elems acc (e # es) =
     (if e = [] \<or> e = ''.'' then clean_elems acc es
      else if e = ''..'' then clean_elems (tl acc) es
      else clean_elems (e # acc) es)"

definition path_Clean :: "string \<Rightarrow> string" where
  "path_Clean p = CHR ''/'' # Join (clean_elems [] (Split p CHR ''/'')) ''/''"

text \<open>\<^verbatim>\<open>cleanPath\<close> of net/http: rooted, cleaned, and with its trailing slash kept.\<close>

definition cleanPath :: "string \<Rightarrow> string" where
  "cleanPath p =
     (if p = [] then ''/''
      else let p = (if hd p \<noteq> CHR ''/'' then CHR ''/'' # p else p); np = path_Clean p in
        if last p = CHR ''/'' \<and> np \<noteq> ''/'' then np @ ''/'' else np)"

text \<open>An element that cleaning keeps.\<close>

definition plain_elem :: "string \<Rightarrow> bool" where
  "plain_elem e \<longleftrightarrow> e \<noteq> [] \<and> e \<noteq> ''.'' \<and> e \<noteq> ''..'' \<and> CHR ''/'' \<notin> set e"

lemma clean_elems_plain: "list_all plain_elem es \<Longrightarrow> clean_elems acc es = rev acc @ es"
  by (induction es arbitrary: acc) (auto simp: plain_elem_def)

lemma clean_elems_last: "clean_elems acc (es @ [[]]) = clean_elems acc es"
  by (induction es arbitrary: acc) auto

lemma list_all_tl: "list_all P xs \<Longrightarrow> list_all P (tl xs)"
  by (cases xs) auto

lemma clean_elems_out:
  "list_all plain_elem acc \<Longrightarrow> \<forall>e \<in> set es. CHR ''/'' \<notin> set e \<Longrightarrow> list_all plain_elem (clean_elems acc es)"
  by (induction acc es rule: clean_elems.induct) (auto simp: list_all_tl plain_elem_def)

lemma plain_noslash: "list_all plain_elem es \<Longrightarrow> \<forall>e \<in> set es. CHR ''/'' \<notin> set e"
  by (auto simp: list_all_iff plain_elem_def)

lemma path_Clean_plain:
  assumes "list_all plain_elem es"
  shows "path_Clean (CHR ''/'' # Join es ''/'') = CHR ''/'' # Join es ''/''"
  using assms
  by (cases "es = []") (simp_all add: path_Clean_def Split_Join plain_noslash clean_elems_plain)

lemma path_Clean_slash:
  assumes "list_all plain_elem es" "es \<noteq> []"
  shows "path_Clean (CHR ''/'' # Join es ''/'' @ ''/'') = CHR ''/'' # Join es ''/''"
proof -
  have "Join es ''/'' @ ''/'' = Join (es @ [[]]) ''/''"
    using assms(2) by (induction es rule: induct_list012) auto
  then show ?thesis
    using assms plain_noslash [OF assms(1)]
    by (simp add: path_Clean_def Split_Join [of "es @ [[]]"] clean_elems_last clean_elems_plain)
qed

lemma Join_ne: "list_all plain_elem es \<Longrightarrow> es \<noteq> [] \<Longrightarrow> Join es ''/'' \<noteq> []"
  by (cases es rule: remdups_adj.cases) (auto simp: plain_elem_def)

lemma last_Join: "list_all plain_elem es \<Longrightarrow> es \<noteq> [] \<Longrightarrow> last (Join es ''/'') \<noteq> CHR ''/''"
proof (induction es rule: induct_list012)
  case (2 e)
  then show ?case by (simp add: plain_elem_def) (metis last_in_set)
next
  case (3 d e es)
  then show ?case using Join_ne [of "e # es"] by simp
qed simp

lemma cleanPath_plain:
  assumes "list_all plain_elem es"
  shows "cleanPath (CHR ''/'' # Join es ''/'') = CHR ''/'' # Join es ''/''"
  using assms Join_ne [OF assms] last_Join [OF assms]
  by (cases "es = []") (simp_all add: cleanPath_def path_Clean_plain Let_def, simp add: path_Clean_def)

lemma cleanPath_plain_slash:
  assumes "list_all plain_elem es" "es \<noteq> []"
  shows "cleanPath (CHR ''/'' # Join es ''/'' @ ''/'') = CHR ''/'' # Join es ''/'' @ ''/''"
  using assms Join_ne [OF assms] by (simp add: cleanPath_def path_Clean_slash Let_def)

lemma path_Clean_form: "\<exists>es. list_all plain_elem es \<and> path_Clean p = CHR ''/'' # Join es ''/''"
  unfolding path_Clean_def using clean_elems_out [of "[]"] Split_parts by fastforce

lemma cleanPath_form:
  "\<exists>es. list_all plain_elem es \<and>
     (cleanPath p = CHR ''/'' # Join es ''/'' \<or> es \<noteq> [] \<and> cleanPath p = CHR ''/'' # Join es ''/'' @ ''/'')"
proof (cases "p = []")
  case True
  then show ?thesis by (intro exI [of _ "[]"]) (simp add: cleanPath_def)
next
  case False
  let ?p = "if hd p \<noteq> CHR ''/'' then CHR ''/'' # p else p"
  obtain es where es: "list_all plain_elem es" "path_Clean ?p = CHR ''/'' # Join es ''/''"
    using path_Clean_form by blast
  then show ?thesis using False by (intro exI [of _ es]) (auto simp: cleanPath_def Let_def)
qed

text \<open>A cleaned path is clean, so following a redirect to it reaches a handler.\<close>

lemma cleanPath_idem: "cleanPath (cleanPath p) = cleanPath p"
  using cleanPath_form [of p] cleanPath_plain cleanPath_plain_slash by metis

end
