(* ===== verification/Raft_Server.thy ===== *)
theory Raft_Server
  imports Watch_Endpoint Go_Fields
begin

text \<open>
  \<^verbatim>\<open>server/raft_server.go\<close>: the HTTP API of a cluster node. Reads go to the local store, writes
  through the log on the leader and to the leader's HTTP address elsewhere. The state is the
  node and the increments of the counter \<^verbatim>\<open>metrics.RaftApplyTotal\<close> by their labels; durations
  and log lines are not modelled. The HTTP client is a parameter: whether a request can be
  built for a URL, and what the server at that address answers.
\<close>

section \<open>State\<close>

record ('r, 'db) RaftServer =
  rsv_node :: "('r, 'db) Node"
  rsv_applies :: "(string \<times> string) list"

record OutRequest =
  out_Method :: string
  out_URL :: string
  out_Header :: "(string \<times> string) list"
  out_Body :: bytes

record http_client =
  hc_NewRequest :: "string \<Rightarrow> string \<Rightarrow> err option"
  hc_Do :: "OutRequest \<Rightarrow> err + Response"

text \<open>The base server over the node's store, as the embedded \<^verbatim>\<open>*Server\<close> sees it.\<close>

definition base_server :: "('r, 'db) RaftServer \<Rightarrow> 'db WatchableStore Server" where
  "base_server rs = \<lparr>srv_store = fsm_store (n_fsm (rsv_node rs)), srv_gauge = fsm_gauge (n_fsm (rsv_node rs))\<rparr>"

definition count_apply :: "string \<Rightarrow> string \<Rightarrow> ('r, 'db) RaftServer \<Rightarrow> ('r, 'db) RaftServer" where
  "count_apply op outcome rs = rs\<lparr>rsv_applies := rsv_applies rs @ [(op, outcome)]\<rparr>"

section \<open>Forwarding\<close>

definition stats_get :: "(string \<times> string) list \<Rightarrow> string \<Rightarrow> string" where
  "stats_get stats k = (case map_of stats k of None \<Rightarrow> [] | Some v \<Rightarrow> v)"

text \<open>The request that is sent to the leader.\<close>

definition forward_request :: "Request \<Rightarrow> string \<Rightarrow> string \<Rightarrow> bytes \<Rightarrow> OutRequest" where
  "forward_request r url forwarder body = \<lparr>out_Method = rq_Method r, out_URL = url,
     out_Header = header_Set (foldl (\<lambda>h (k, v). header_Add h k v) [] (rq_Header r)) ''X-Forwarded-By'' forwarder,
     out_Body = body\<rparr>"

definition forwardToLeader ::
  "http_client \<Rightarrow> 'r raft \<Rightarrow> 'db bolt \<Rightarrow> ('r, 'db) RaftServer \<Rightarrow> Request \<Rightarrow> bytes \<Rightarrow> Response" where
  "forwardToLeader H R B rs r body =
     (let leaderHTTP = LeaderHTTPAddr R B (rsv_node rs) in
      if leaderHTTP = [] then
        httpError 503 (''leader http addr unknown (leader_raft='' @ Quote (LeaderAddr R (rsv_node rs)) @
          ''), try again later'')
      else let url = ''http://'' @ leaderHTTP @ rq_URL r in
        (case hc_NewRequest H (rq_Method r) url of
           Some e \<Rightarrow> httpError 500 (''build forward request: '' @ err_text e)
         | None \<Rightarrow>
             (case hc_Do H (forward_request r url (stats_get (node_Stats R (rsv_node rs)) ''id'') body) of
                Inl e \<Rightarrow> httpError 400 (''forward to leader '' @ leaderHTTP @ '': '' @ err_text e)
              | Inr resp \<Rightarrow> \<lparr>rsp_Status = rsp_Status resp,
                  rsp_Header = foldl (\<lambda>h (k, v). header_Add h k v) [] (rsp_Header resp),
                  rsp_Body = rsp_Body resp\<rparr>)))"

section \<open>Writes\<close>

definition handleRaftPut ::
  "http_client \<Rightarrow> 'r raft \<Rightarrow> 'db bolt \<Rightarrow> ('r, 'db) RaftServer \<Rightarrow> Request \<Rightarrow> string \<Rightarrow> string \<Rightarrow> string
     \<Rightarrow> Response \<times> ('r, 'db) RaftServer" where
  "handleRaftPut H R B rs r tenant namespace name =
     (case read_limited body_limit (rq_Body r) of
        Inl e \<Rightarrow> (httpError 400 (''read body: '' @ err_text e), rs)
      | Inr body \<Rightarrow>
          (let key = storeKey tenant namespace name in
           if \<not> node_IsLeader R (rsv_node rs) then
             (let rs = count_apply ''put'' ''not_leader'' rs in (forwardToLeader H R B rs r (Some body), rs))
           else
             (case node_Apply R B (rsv_node rs) \<lparr>opType = ''put'', opKey = key, opValue = Some body\<rparr> (5 * second) of
                (Inl e, n) \<Rightarrow> (httpError 500 (''raft apply: '' @ err_text e),
                  count_apply ''put'' ''error'' (rs\<lparr>rsv_node := n\<rparr>))
              | (Inr result, n) \<Rightarrow>
                  (let rs = count_apply ''put'' ''ok'' (rs\<lparr>rsv_node := n\<rparr>);
                       status = (if orPrevEntry result = None then 201 else 200) in
                   (case orEntry result of None \<Rightarrow> (aborted, rs)
                    | Some entry \<Rightarrow>
                        (writeJSON (header_Set [] ''X-Paladin-Revision'' (FormatUint (eRevision entry))) status
                           (config_response_json \<lparr>crRevision = eRevision entry, crCount = 0,
                              crConfigs = [entryToConfig entry]\<rparr>), rs))))))"

definition handleRaftDelete ::
  "http_client \<Rightarrow> 'r raft \<Rightarrow> 'db bolt \<Rightarrow> ('r, 'db) RaftServer \<Rightarrow> Request \<Rightarrow> string \<Rightarrow> string \<Rightarrow> string
     \<Rightarrow> Response \<times> ('r, 'db) RaftServer" where
  "handleRaftDelete H R B rs r tenant namespace name =
     (let key = storeKey tenant namespace name in
      if \<not> node_IsLeader R (rsv_node rs) then
        (let rs = count_apply ''delete'' ''not_leader'' rs in (forwardToLeader H R B rs r None, rs))
      else
        (case node_Apply R B (rsv_node rs) \<lparr>opType = ''delete'', opKey = key, opValue = None\<rparr> (5 * second) of
           (Inl e, n) \<Rightarrow>
             (let rs = count_apply ''delete'' ''error'' (rs\<lparr>rsv_node := n\<rparr>) in
              (if errors_Is e ErrKeyNotFound then httpError 404 (''key not found: '' @ key)
               else httpError 500 (''raft apply: '' @ err_text e), rs))
         | (Inr result, n) \<Rightarrow>
             (let rs = count_apply ''delete'' ''ok'' (rs\<lparr>rsv_node := n\<rparr>) in
              (case orEntry result of None \<Rightarrow> (aborted, rs)
               | Some entry \<Rightarrow>
                   (writeJSON [] 200 (config_response_json \<lparr>crRevision = node_Rev n, crCount = 0,
                      crConfigs = [entryToConfig entry]\<rparr>), rs)))))"

definition handleRaftConfig ::
  "http_client \<Rightarrow> 'r raft \<Rightarrow> 'db bolt \<Rightarrow> ('r, 'db) RaftServer \<Rightarrow> Request \<Rightarrow> Response \<times> ('r, 'db) RaftServer" where
  "handleRaftConfig H R B rs r =
     (case configKey (rq_Path r) of
        Inl e \<Rightarrow> (httpError 400 (''invalid path: '' @ rq_Path r), rs)
      | Inr (tenant, namespace, name) \<Rightarrow>
          if tenant = [] then (httpError 400 (''invalid path: '' @ rq_Path r), rs)
          else if rq_Method r = ''GET'' then
            (if name = [] then handleList (watchable_ops B) (base_server rs) tenant namespace
             else handleGet (watchable_ops B) (base_server rs) tenant namespace name, rs)
          else if rq_Method r = ''PUT'' then
            (if name = [] then (httpError 400 ''name is required for PUT'', rs)
             else handleRaftPut H R B rs r tenant namespace name)
          else if rq_Method r = ''DELETE'' then
            (if name = [] then (httpError 400 ''name is required for DELETE'', rs)
             else handleRaftDelete H R B rs r tenant namespace name)
          else (httpError 405 (''method '' @ rq_Method r @ '' not allowed''), rs))"

section \<open>Administration\<close>

definition handleJoin ::
  "'r raft \<Rightarrow> 'db bolt \<Rightarrow> ('r, 'db) RaftServer \<Rightarrow> Request \<Rightarrow> Response \<times> ('r, 'db) RaftServer" where
  "handleJoin R B rs r =
     (if rq_Method r \<noteq> ''POST'' then (httpError 405 ''POST only'', rs)
      else let nodeID = rq_Query r ''id''; addr = rq_Query r ''addr''; httpAddr = rq_Query r ''http'' in
        if nodeID = [] \<or> addr = [] \<or> httpAddr = [] then (httpError 400 ''id, addr, http required'', rs)
        else (case node_Join R (rsv_node rs) nodeID addr of
            (Some e, n) \<Rightarrow> (httpError 500 (''join: '' @ err_text e), rs\<lparr>rsv_node := n\<rparr>)
          | (None, n) \<Rightarrow>
              (case RegisterPeerHTTP R B n nodeID httpAddr of
                 (Some e, n') \<Rightarrow> (httpError 500 (''register http addr: '' @ err_text e), rs\<lparr>rsv_node := n'\<rparr>)
               | (None, n') \<Rightarrow> (writeJSON [] 200 (JObj [(''joined'', JStr nodeID), (''status'', JStr ''ok'')]),
                   rs\<lparr>rsv_node := n'\<rparr>))))"

definition handleLeave ::
  "'r raft \<Rightarrow> ('r, 'db) RaftServer \<Rightarrow> Request \<Rightarrow> Response \<times> ('r, 'db) RaftServer" where
  "handleLeave R rs r =
     (if rq_Method r \<noteq> ''POST'' then (httpError 405 ''POST only'', rs)
      else let nodeID = rq_Query r ''id'' in
        if nodeID = [] then (httpError 400 ''id required'', rs)
        else (case node_Leave R (rsv_node rs) nodeID of
            (Some e, n) \<Rightarrow> (httpError 500 (''leave: '' @ err_text e), rs\<lparr>rsv_node := n\<rparr>)
          | (None, n) \<Rightarrow> (writeJSON [] 200 (JObj [(''removed'', JStr nodeID), (''status'', JStr ''ok'')]),
              rs\<lparr>rsv_node := n\<rparr>)))"

text \<open>The statistics are a Go map, whose JSON lists the keys in order.\<close>

definition map_json :: "(string \<times> string) list \<Rightarrow> json" where
  "map_json kvs = JObj (map (\<lambda>k. (k, JStr (the (map_of kvs k)))) (sort (remdups (map fst kvs))))"

definition handleStats :: "'r raft \<Rightarrow> ('r, 'db) RaftServer \<Rightarrow> Response" where
  "handleStats R rs =
     (let stats = node_Stats R (rsv_node rs);
          stats = (''store_revision'', FormatUint (node_Rev (rsv_node rs))) # stats;
          stats = (''is_leader'', if node_IsLeader R (rsv_node rs) then ''true'' else ''false'') # stats in
      writeJSON [] 200 (map_json stats))"

section \<open>Lemmas\<close>

lemma copy_headers: "foldl (\<lambda>h (k, v). header_Add h k v) h0 hs = h0 @ hs"
  by (induction hs arbitrary: h0) (auto simp: header_Add_def)

lemma count_apply_node [simp]: "rsv_node (count_apply op outcome rs) = rsv_node rs"
  by (simp add: count_apply_def)

lemma forwardToLeader_node:
  "rsv_node rs = rsv_node rs' \<Longrightarrow> forwardToLeader H R B rs r body = forwardToLeader H R B rs' r body"
  by (simp only: forwardToLeader_def)

lemma forwardToLeader_ok:
  assumes "LeaderHTTPAddr R B (rsv_node rs) = addr" and "addr \<noteq> []"
    and "hc_NewRequest H (rq_Method r) (''http://'' @ addr @ rq_URL r) = None"
    and "hc_Do H (forward_request r (''http://'' @ addr @ rq_URL r)
           (stats_get (node_Stats R (rsv_node rs)) ''id'') body) = Inr resp"
  shows "forwardToLeader H R B rs r body = resp"
  using assms by (simp add: forwardToLeader_def Let_def copy_headers)

lemma raft_config_writes:
  assumes "configKey (rq_Path r) = Inr (t, n, m)" "t \<noteq> []" "m \<noteq> []"
  shows "rq_Method r = ''PUT'' \<Longrightarrow> handleRaftConfig H R B rs r = handleRaftPut H R B rs r t n m"
    and "rq_Method r = ''DELETE'' \<Longrightarrow> handleRaftConfig H R B rs r = handleRaftDelete H R B rs r t n m"
  using assms by (simp_all add: handleRaftConfig_def)

text \<open>A delete, decoded from the log and run by the abstract machine.\<close>

lemma fsm_spec_delete:
  "fsm_spec reject s (marshal_op \<lparr>opType = ''delete'', opKey = k, opValue = None\<rparr>)
     = (case kv_map s (utf8_coerce k) of
          None \<Rightarrow> (op_error ErrKeyNotFound, s)
        | Some p \<Rightarrow> (\<lparr>orEntry = Some (p\<lparr>eRevision := kv_rev s + 1\<rparr>), orPrevEntry = None, orErr = None\<rparr>,
            kv_delete s (utf8_coerce k)))"
  by (simp add: fsm_spec_def unmarshal_marshal_op norm_op_def utf8_coerce_ascii split: option.splits)

context reliable_bolt
begin

text \<open>A PUT on the leader, when the log accepts the operation.\<close>

lemma handleRaftPut_leader:
  assumes "node_wf B (rsv_node rs)" and lead: "r_IsLeader R (n_raft (rsv_node rs))"
    and body: "read_limited body_limit (rq_Body r) = Inr body" and valid: "utf8_valid (storeKey t n m)"
    and "r_Apply R (n_raft (rsv_node rs)) (marshal_op \<lparr>opType = ''put'', opKey = storeKey t n m, opValue = Some body\<rparr>)
           (5 * second) = (before, None, rr)"
    and "unat (kv_rev (node_abs B (rsv_node rs))) + length before + 1 < 2 ^ 64"
    and s: "snd (fsm_spec_run reject (node_abs B (rsv_node rs)) before) = s"
    and h: "handleRaftPut H R B rs r t n m = (resp, rs')"
  defines "k \<equiv> storeKey t n m" and "v \<equiv> if body = [] then None else Some body"
  shows "node_wf B (rsv_node rs') \<and>
    (case reject k (marshal_entry (kv_next s k v)) of
       Some e \<Rightarrow> rsp_Status resp = 500 \<and> node_abs B (rsv_node rs') = s
     | None \<Rightarrow> node_abs B (rsv_node rs') = kv_put s k v \<and> n_raft (rsv_node rs') = rr \<and>
        resp = writeJSON [(''X-Paladin-Revision'', FormatUint (kv_rev s + 1))]
          (if kv_map s k = None then 201 else 200)
          (config_response_json \<lparr>crRevision = kv_rev s + 1, crCount = 0, crConfigs = [entryToConfig (kv_next s k v)]\<rparr>))"
proof -
  let ?op = "\<lparr>opType = ''put'', opKey = k, opValue = Some body\<rparr>"
  have kc: "utf8_coerce k = k" using valid unfolding k_def by (rule utf8_coerce_valid)
  have "norm_op ?op = \<lparr>opType = ''put'', opKey = k, opValue = v\<rparr>"
    by (simp add: norm_op_def utf8_coerce_ascii kc v_def)
  then have spec: "fsm_spec reject s (marshal_op ?op) =
      (case reject k (marshal_entry (kv_next s k v)) of
         Some er \<Rightarrow> (op_error (Wrap ''store put'' er), s)
       | None \<Rightarrow> (\<lparr>orEntry = Some (kv_next s k v), orPrevEntry = kv_map s k, orErr = None\<rparr>, kv_put s k v))"
    by (simp add: fsm_spec_def unmarshal_marshal_op Let_def split: option.splits)
  obtain res s' where rs: "fsm_spec reject s (marshal_op ?op) = (res, s')" by (cases "fsm_spec reject s (marshal_op ?op)")
  obtain nd where nd: "node_Apply R B (rsv_node rs) ?op (5 * second)
      = (case orErr res of None \<Rightarrow> Inr res | Some e \<Rightarrow> Inl (Wrap ''raft fsm apply'' e), nd)"
      "node_wf B nd" "node_abs B nd = s'" "n_raft nd = rr"
    using node_Apply_spec [OF assms(1,2) assms(5) [folded k_def] assms(6) s rs] by blast
  have rev: "eRevision (kv_next s k v) = kv_rev s + 1" by (simp add: kv_next_def Let_def)
  show ?thesis
    using h nd lead rs spec
    by (auto simp: handleRaftPut_def body Let_def k_def [symmetric] node_IsLeader_def httpError_def header_Set_def rev
        split: option.splits)
qed

end

section \<open>Properties of the cluster API\<close>

text \<open>Forwarding is transparent. A write that reaches a node that is not the leader leaves the
  node as it is, and when the leader's address is known and the leader answers, the client
  gets exactly that answer: status, headers and body.\<close>

lemma follower_forwards:
  assumes "\<not> node_IsLeader R (rsv_node rs)" and "configKey (rq_Path r) = Inr (t, n, m)" "t \<noteq> []" "m \<noteq> []"
    and "rq_Method r = ''PUT'' \<and> read_limited body_limit (rq_Body r) = Inr b \<and> body = Some b
      \<or> rq_Method r = ''DELETE'' \<and> body = None"
    and "LeaderHTTPAddr R B (rsv_node rs) = addr" "addr \<noteq> []"
    and "hc_NewRequest H (rq_Method r) (''http://'' @ addr @ rq_URL r) = None"
    and "hc_Do H (forward_request r (''http://'' @ addr @ rq_URL r)
           (stats_get (node_Stats R (rsv_node rs)) ''id'') body) = Inr resp"
  shows "\<exists>rs'. handleRaftConfig H R B rs r = (resp, rs') \<and> rsv_node rs' = rsv_node rs"
proof -
  have fwd: "forwardToLeader H R B (count_apply op x rs) r body = resp" for op x
    using forwardToLeader_ok [OF assms(6-9)] forwardToLeader_node [of "count_apply op x rs" rs] by simp
  from assms(5) show ?thesis
  proof (elim disjE conjE)
    assume "rq_Method r = ''PUT''" and b: "read_limited body_limit (rq_Body r) = Inr b" "body = Some b"
    then have "handleRaftConfig H R B rs r = handleRaftPut H R B rs r t n m"
      using raft_config_writes(1) [OF assms(2-4)] by metis
    also have "\<dots> = (resp, count_apply ''put'' ''not_leader'' rs)"
      using assms(1) b fwd by (simp add: handleRaftPut_def Let_def)
    finally show ?thesis by simp
  next
    assume "rq_Method r = ''DELETE''" and b: "body = None"
    then have "handleRaftConfig H R B rs r = handleRaftDelete H R B rs r t n m"
      using raft_config_writes(2) [OF assms(2-4)] by metis
    also have "\<dots> = (resp, count_apply ''delete'' ''not_leader'' rs)"
      using assms(1) b fwd by (simp add: handleRaftDelete_def Let_def)
    finally show ?thesis by simp
  qed
qed

definition demo_follower :: "(nat, mem_db) RaftServer" where
  "demo_follower = \<lparr>rsv_node = snd solo_registered, rsv_applies = []\<rparr>"

definition follower_raft :: "nat raft" where
  "follower_raft = solo_raft\<lparr>r_IsLeader := (\<lambda>_. False)\<rparr>"

definition demo_client :: "http_client" where
  "demo_client = \<lparr>hc_NewRequest = (\<lambda>_ _. None),
     hc_Do = (\<lambda>q. Inr \<lparr>rsp_Status = 201, rsp_Header = [(''X-Paladin-Revision'', ''7'')], rsp_Body = out_URL q\<rparr>)\<rparr>"

lemma demo_follower_leader: "LeaderHTTPAddr follower_raft mem_sure (rsv_node demo_follower) = ''h:80''"
  using solo_registered_ok by (simp add: demo_follower_def LeaderHTTPAddr_def follower_raft_def)

text \<open>On the leader a successful PUT answers 201 for a key that is new when the operation is
  applied and 200 otherwise, with the revision of the write in the header, and a GET on the
  same node reads the entry that was written.\<close>

lemma raft_put_reads_back:
  assumes "reliable_bolt B reject" and "node_wf B (rsv_node rs)" and "r_IsLeader R (n_raft (rsv_node rs))"
    and "configKey (rq_Path r) = Inr (t, n, m)" "t \<noteq> []" "m \<noteq> []" "rq_Method r = ''PUT''"
    and "read_limited body_limit (rq_Body r) = Inr body" and "utf8_valid (storeKey t n m)"
    and "r_Apply R (n_raft (rsv_node rs)) (marshal_op \<lparr>opType = ''put'', opKey = storeKey t n m, opValue = Some body\<rparr>)
           (5 * second) = (before, None, rr)"
    and "unat (kv_rev (node_abs B (rsv_node rs))) + length before + 1 < 2 ^ 64"
    and "snd (fsm_spec_run reject (node_abs B (rsv_node rs)) before) = s"
    and "handleRaftConfig H R B rs r = (resp, rs')" "rsp_Status resp \<noteq> 500"
    and "rq_Method g = ''GET''" "rq_Path g = rq_Path r"
  defines "e \<equiv> kv_next s (storeKey t n m) (if body = [] then None else Some body)"
  shows "resp = writeJSON [(''X-Paladin-Revision'', FormatUint (kv_rev s + 1))]
      (if kv_map s (storeKey t n m) = None then 201 else 200)
      (config_response_json \<lparr>crRevision = kv_rev s + 1, crCount = 0, crConfigs = [entryToConfig e]\<rparr>) \<and>
    fst (handleRaftConfig H R B rs' g) = writeJSON [] 200
      (config_response_json \<lparr>crRevision = kv_rev s + 1, crCount = 0, crConfigs = [entryToConfig e]\<rparr>)"
proof -
  let ?k = "storeKey t n m" and ?v = "if body = [] then None else Some body"
  have h: "handleRaftPut H R B rs r t n m = (resp, rs')"
    using assms(13) raft_config_writes(1) [OF assms(4-7)] by metis
  note put = reliable_bolt.handleRaftPut_leader [OF assms(1-3,8-12) h]
  then have acc: "reject ?k (marshal_entry e) = None" using assms(14) by (auto simp: e_def split: option.splits)
  with put have nd: "node_wf B (rsv_node rs')" "node_abs B (rsv_node rs') = kv_put s ?k ?v"
    "resp = writeJSON [(''X-Paladin-Revision'', FormatUint (kv_rev s + 1))] (if kv_map s ?k = None then 201 else 200)
      (config_response_json \<lparr>crRevision = kv_rev s + 1, crCount = 0, crConfigs = [entryToConfig e]\<rparr>)"
    by (simp_all add: e_def)
  have ne: "norm_entry e = e"
    using assms(9) by (intro norm_entry_valid) (simp add: e_def kv_next_def Let_def)
  have S: "kv_store (watchable_ops B) (ws_abs B) (ws_wf B)"
    by (rule bolt_api.ws_kv_store [OF reliable_bolt.axioms(1) [OF assms(1)]])
  have base: "srv_store (base_server rs') = fsm_store (n_fsm (rsv_node rs'))" by (simp add: base_server_def)
  have "fst (handleRaftConfig H R B rs' g) = handleGet (watchable_ops B) (base_server rs') t n m"
    using assms(4-6,15,16) by (simp add: handleRaftConfig_def)
  also have "\<dots> = writeJSON [] 200
      (config_response_json \<lparr>crRevision = kv_rev s + 1, crCount = 0, crConfigs = [entryToConfig e]\<rparr>)"
    using kv_store.handleGet_spec [OF S, of "base_server rs'" t n m] nd(1)
    unfolding base nd(2) by (simp add: kv_put_def e_def [symmetric] ne)
  finally show ?thesis using nd(3) by blast
qed

definition demo_leader :: "(nat, mem_db) RaftServer" where
  "demo_leader = \<lparr>rsv_node = solo_node, rsv_applies = []\<rparr>"

lemma demo_leader_facts:
  "configKey (rq_Path (demo_request x ''/api/v1/config/t/n/m'' b)) = Inr (''t'', ''n'', ''m'')"
  "utf8_valid (storeKey ''t'' ''n'' ''m'')"
  "read_limited body_limit (rq_Body (demo_request x p ''v'')) = Inr ''v''"
  "node_wf mem_sure (rsv_node demo_leader)" "node_abs mem_sure (rsv_node demo_leader) = kv_empty"
  "unat (kv_rev (node_abs mem_sure (rsv_node demo_leader))) + length ([]::string list) + 1 < 2 ^ 64"
  "snd (fsm_spec_run blank_key (node_abs mem_sure (rsv_node demo_leader)) []) = kv_empty"
proof -
  show "configKey (rq_Path (demo_request x ''/api/v1/config/t/n/m'' b)) = Inr (''t'', ''n'', ''m'')"
    using configKey_full [of "''t''" "''n''" "''m''"] by (simp add: demo_request_def demo_path)
  show wf: "node_wf mem_sure (rsv_node demo_leader)" "node_abs mem_sure (rsv_node demo_leader) = kv_empty"
    using solo_node_wf by (simp_all add: demo_leader_def)
  show "unat (kv_rev (node_abs mem_sure (rsv_node demo_leader))) + length ([]::string list) + 1 < 2 ^ 64"
    "snd (fsm_spec_run blank_key (node_abs mem_sure (rsv_node demo_leader)) []) = kv_empty"
    unfolding wf(2) by (simp_all add: kv_empty_def)
qed (simp_all add: storeKey_def utf8_valid_ascii demo_request_def read_limited_def body_limit_def)

text \<open>
  What the code relies on about the errors of the libraries: they do not contain its own sentinel
  \<^verbatim>\<open>store.ErrKeyNotFound\<close>, a value of this program that neither bbolt nor raft can know.
\<close>

definition foreign_errors :: "'db bolt \<Rightarrow> bool" where
  "foreign_errors B \<longleftrightarrow>
     (\<forall>d b k e. tx_delete B d b k = Inl e \<longrightarrow> \<not> errors_Is e ErrKeyNotFound) \<and>
     (\<forall>d b k v e. tx_put B d b k v = Inl e \<longrightarrow> \<not> errors_Is e ErrKeyNotFound) \<and>
     (\<forall>d e. tx_commit B d = Inl e \<longrightarrow> \<not> errors_Is e ErrKeyNotFound)"

context bolt_api
begin

lemma ws_Delete_foreign:
  assumes lib: "foreign_errors B" and "ws_wf B ws" and some: "kv_map (ws_abs B ws) k \<noteq> None"
    and del: "ws_Delete B ws k = (Inl e, ws')"
  shows "\<not> errors_Is e ErrKeyNotFound"
proof -
  have wf: "bs_wf B (ws_bs ws)" using assms(2) by (auto simp: ws_wf_def ws_hist_def)
  obtain raw where raw: "tx_get B (bs_db (ws_bs ws)) bucketData k = Some raw"
    using some wf_get_iff [OF wf, of k] by (cases "tx_get B (bs_db (ws_bs ws)) bucketData k") auto
  obtain p where "unmarshal_entry raw = Inr p" using wf_raw [OF wf raw] by metis
  then show ?thesis
    using del lib raw
    by (auto simp: ws_Delete_serial bs_Delete_def bs_delete_tx_def Let_def foreign_errors_def
        split: sum.splits prod.splits option.splits)
qed

lemma handleRaftDelete_leader:
  assumes wf: "ws_wf B (fsm_store f)" and r: "kv_rev (fsm_abs B f) < max_rev" and lead: "node_IsLeader R (rsv_node rs)"
    and valid: "utf8_valid (storeKey t n m)" and lib: "foreign_errors B"
    and app: "r_Apply R (n_raft (rsv_node rs)) (marshal_op \<lparr>opType = ''delete'', opKey = storeKey t n m, opValue = None\<rparr>)
           (5 * second) = (before, None, rr)"
    and f: "snd (fsm_run B (n_fsm (rsv_node rs)) before) = f"
    and h: "handleRaftDelete H R B rs rq t n m = (resp, rs')"
  defines "k \<equiv> storeKey t n m" and "s \<equiv> fsm_abs B f"
  shows "node_wf B (rsv_node rs') \<and>
    (case ws_Delete B (fsm_store f) k of
       (Inr d, ws) \<Rightarrow> node_abs B (rsv_node rs') = kv_delete s k \<and> (\<exists>p. kv_map s k = Some p \<and>
         resp = writeJSON [] 200 (config_response_json \<lparr>crRevision = kv_rev s + 1, crCount = 0,
           crConfigs = [entryToConfig (p\<lparr>eRevision := kv_rev s + 1\<rparr>)]\<rparr>))
     | (Inl e, ws) \<Rightarrow> if kv_map s k = None
         then resp = httpError 404 (''key not found: '' @ k) \<and> node_abs B (rsv_node rs') = s
         else resp = httpError 500 (''raft apply: raft fsm apply: '' @ err_text e) \<and> kv_map (node_abs B (rsv_node rs')) = kv_map s \<and>
           kv_rev (node_abs B (rsv_node rs')) \<in> {kv_rev s, kv_rev s + 1})"
proof -
  let ?op = "\<lparr>opType = ''delete'', opKey = k, opValue = None\<rparr>"
  have "utf8_coerce k = k" using valid unfolding k_def by (rule utf8_coerce_valid)
  then have op: "unmarshal_op (marshal_op ?op) = Inr ?op"
    by (simp add: unmarshal_marshal_op norm_op_def utf8_coerce_ascii)
  obtain x ws where d: "ws_Delete B (fsm_store f) k = (x, ws)" by (cases "ws_Delete B (fsm_store f) k")
  have ap: "r_IsLeader R (n_raft (rsv_node rs))" "r_Apply R (n_raft (rsv_node rs)) (marshal_op ?op) (5 * second) = (before, None, rr)"
    using lead app by (simp_all add: node_IsLeader_def k_def)
  show ?thesis
  proof (cases x)
    case (Inr e)
    then have ok: "ws_wf B ws" "ws_abs B ws = kv_delete s k" "\<exists>p. kv_map s k = Some p \<and> e = p\<lparr>eRevision := kv_rev s + 1\<rparr>"
      using ws.delete_ok [OF wf r] d unfolding s_def by fastforce+
    have "ws_Rev ws = kv_rev s + 1"
      using arg_cong [OF ok(2), of kv_rev] by (simp add: ws_Rev_def bs_Rev_def kv_delete_def)
    then show ?thesis
      using h ok d Inr ap lead
      by (auto simp: handleRaftDelete_def node_Apply_def fsm_Apply_def k_def [symmetric] op f Let_def node_Rev_def)
  next
    case (Inl e)
    then have er: "ws_wf B ws" "kv_map (ws_abs B ws) = kv_map s" "kv_rev (ws_abs B ws) \<in> {kv_rev s, kv_rev s + 1}"
      using ws.delete_err [OF wf r] d unfolding s_def by fastforce+
    have h': "(resp, rs') = (if errors_Is e ErrKeyNotFound then httpError 404 (''key not found: '' @ k)
          else httpError 500 (''raft apply: raft fsm apply: '' @ err_text e),
        count_apply ''delete'' ''error'' (rs\<lparr>rsv_node := (rsv_node rs)\<lparr>n_raft := rr, n_fsm := f\<lparr>fsm_store := ws\<rparr>\<rparr>\<rparr>))"
      using h d Inl ap lead
      by (auto simp: handleRaftDelete_def node_Apply_def fsm_Apply_def k_def [symmetric] op f Let_def)
    show ?thesis
    proof (cases "kv_map s k")
      case None
      with ws.delete_missing [OF wf, of k] d Inl have "e = ErrKeyNotFound" "ws = fsm_store f" by (simp_all add: s_def)
      then show ?thesis using h' None d Inl wf by (simp add: s_def)
    next
      case (Some p)
      then have "\<not> errors_Is e ErrKeyNotFound" using ws_Delete_foreign [OF lib wf _ d [unfolded Inl]] by (simp add: s_def)
      then show ?thesis using h' Some d Inl er by simp
    qed
  qed
qed

end

text \<open>C35: a DELETE on the leader, on any disk and with any outcome of the log. The operation applies
  to the state \<open>s\<close> that the entries committed before it leave. The answer is 200, 404 or 500:
  it is 404 exactly when the log took the entry and the key is missing in \<open>s\<close>, and then the
  state stays \<open>s\<close>; on 200 the key was there, the body is the deleted entry at the new revision
  and the state is \<open>s\<close> without the key; on 500 no entry has changed, and a failed apply of the log
  is such a 500 that leaves \<open>s\<close> itself. On a disk that does not fail, a key that is there is
  deleted whenever the log takes the entry.\<close>

theorem raft_delete_spec:
  assumes "bolt_api B" and "node_wf B (rsv_node rs)" and "r_IsLeader R (n_raft (rsv_node rs))"
    and "configKey (rq_Path r) = Inr (t, n, m)" "t \<noteq> []" "m \<noteq> []" "rq_Method r = ''DELETE''"
    and "utf8_valid (storeKey t n m)" and "foreign_errors B" and "\<And>e. ferr = Some e \<Longrightarrow> \<not> errors_Is e ErrKeyNotFound"
    and "r_Apply R (n_raft (rsv_node rs)) (marshal_op \<lparr>opType = ''delete'', opKey = storeKey t n m, opValue = None\<rparr>)
           (5 * second) = (before, ferr, rr)"
    and "unat (kv_rev (node_abs B (rsv_node rs))) + length before + 1 < 2 ^ 64"
    and "fsm_abs B (snd (fsm_run B (n_fsm (rsv_node rs)) before)) = s"
    and "handleRaftConfig H R B rs r = (resp, rs')"
  shows "rsp_Status resp \<in> {200, 404, 500} \<and>
    (rsp_Status resp = 404 \<longleftrightarrow> ferr = None \<and> kv_map s (storeKey t n m) = None) \<and>
    (rsp_Status resp = 404 \<longrightarrow> resp = httpError 404 (''key not found: '' @ storeKey t n m) \<and> node_abs B (rsv_node rs') = s) \<and>
    (rsp_Status resp = 200 \<longrightarrow> ferr = None \<and> node_abs B (rsv_node rs') = kv_delete s (storeKey t n m) \<and>
      (\<exists>p. kv_map s (storeKey t n m) = Some p \<and>
        resp = writeJSON [] 200 (config_response_json \<lparr>crRevision = kv_rev s + 1, crCount = 0,
          crConfigs = [entryToConfig (p\<lparr>eRevision := kv_rev s + 1\<rparr>)]\<rparr>))) \<and>
    (rsp_Status resp = 500 \<longrightarrow> kv_map (node_abs B (rsv_node rs')) = kv_map s \<and>
      (\<exists>e. resp = httpError 500 (''raft apply: '' @ err_text e))) \<and>
    (\<forall>e. ferr = Some e \<longrightarrow> resp = httpError 500 (''raft apply: raft apply: '' @ err_text e) \<and> node_abs B (rsv_node rs') = s) \<and>
    (ferr = None \<and> kv_map s (storeKey t n m) \<noteq> None \<and> (\<exists>reject. reliable_bolt B reject) \<longrightarrow> rsp_Status resp = 200)"
proof -
  let ?k = "storeKey t n m" and ?f = "snd (fsm_run B (n_fsm (rsv_node rs)) before)"
  have h: "handleRaftDelete H R B rs r t n m = (resp, rs')"
    using assms(14) raft_config_writes(2) [OF assms(4-7)] by metis
  have lead: "node_IsLeader R (rsv_node rs)" using assms(3) by (simp add: node_IsLeader_def)
  have wf: "ws_wf B (fsm_store ?f)" and rev: "kv_rev (fsm_abs B ?f) < max_rev"
    using bolt_api.fsm_run_wf [OF assms(1,2), of before] assms(12) by (simp_all add: max_rev_def word_less_nat_alt)
  show ?thesis
  proof (cases ferr)
    case (Some e)
    then have "resp = httpError 500 (''raft apply: raft apply: '' @ err_text e)" "node_abs B (rsv_node rs') = s"
      using h lead assms(3,10,11,13) by (auto simp: handleRaftDelete_def node_Apply_def Let_def)
    then show ?thesis using Some by (auto simp: httpError_def intro: exI [of _ "Wrap ''raft apply'' e"])
  next
    case None
    note del = bolt_api.handleRaftDelete_leader [OF assms(1) wf rev lead assms(8,9) assms(11) [unfolded None] refl h,
      unfolded assms(13)]
    obtain x ws where x: "ws_Delete B (fsm_store ?f) ?k = (x, ws)" by (cases "ws_Delete B (fsm_store ?f) ?k")
    have "bs_rev (ws_bs (fsm_store ?f)) < max_rev" using rev by simp
    then have sure: "isl x \<Longrightarrow> reliable_bolt B reject \<Longrightarrow> kv_map s ?k = None" for reject
      using reliable_bolt.ws_Delete_sure [OF _ wf, of reject ?k] x unfolding assms(13)
      by (auto split: option.splits)
    show ?thesis
    proof (cases x)
      case (Inl e)
      then show ?thesis using del x None sure
        by (auto simp: httpError_def split: if_splits intro: exI [of _ "Wrap ''raft fsm apply'' e"])
    next
      case (Inr d)
      then show ?thesis using del x None by (auto simp: writeJSON_def)
    qed
  qed
qed

lemma mem_sure_foreign: "foreign_errors mem_sure"
  by (auto simp: foreign_errors_def mem_sure_def mem_put_def mem_delete_def split: if_splits)

theorem raft_delete_spec_witness:
  "fst (handleRaftConfig demo_client solo_raft mem_sure demo_leader (demo_request ''DELETE'' ''/api/v1/config/t/n/m'' []))
     = httpError 404 (''key not found: '' @ storeKey ''t'' ''n'' ''m'')"
proof -
  let ?r = "demo_request ''DELETE'' ''/api/v1/config/t/n/m'' []"
  have a: "r_Apply solo_raft (n_raft (rsv_node demo_leader))
      (marshal_op \<lparr>opType = ''delete'', opKey = storeKey ''t'' ''n'' ''m'', opValue = None\<rparr>) (5 * second)
      = ([], None, Suc (n_raft (rsv_node demo_leader)))" by simp
  have s: "fsm_abs mem_sure (snd (fsm_run mem_sure (n_fsm (rsv_node demo_leader)) [])) = kv_empty"
    using demo_leader_facts(5) by simp
  from raft_delete_spec [OF sure.bolt_api_axioms demo_leader_facts(4) _ demo_leader_facts(1) _ _ _ demo_leader_facts(2)
      mem_sure_foreign _ a demo_leader_facts(6) s surjective_pairing, of "''DELETE''" "[]" demo_client]
  show ?thesis by (simp add: demo_request_def kv_empty_def)
qed

text \<open>C40: the peer registry is writable through the config API. A PUT to the tenant
  \<^verbatim>\<open>__paladin\<close>, namespace \<^verbatim>\<open>peers\<close> and the leader's id replaces the address that every node
  forwards writes to by the body of the request.\<close>

theorem peer_registry_writable:
  assumes "reliable_bolt B reject" and "node_wf B (rsv_node rs)" and "r_IsLeader R (n_raft (rsv_node rs))"
    and "configKey (rq_Path r) = Inr (''__paladin'', ''peers'', nodeID)" "nodeID \<noteq> []" "rq_Method r = ''PUT''"
    and "read_limited body_limit (rq_Body r) = Inr body" and "utf8_valid (PeerHTTPPrefix @ nodeID)"
    and "r_Apply R (n_raft (rsv_node rs)) (marshal_op \<lparr>opType = ''put'', opKey = PeerHTTPPrefix @ nodeID, opValue = Some body\<rparr>)
           (5 * second) = (before, None, rr)"
    and "unat (kv_rev (node_abs B (rsv_node rs))) + length before + 1 < 2 ^ 64"
    and "snd (r_LeaderWithID R rr) = nodeID"
    and "handleRaftConfig H R B rs r = (resp, rs')" "rsp_Status resp \<noteq> 500"
  shows "LeaderHTTPAddr R B (rsv_node rs') = body"
proof -
  have k: "storeKey ''__paladin'' ''peers'' nodeID = PeerHTTPPrefix @ nodeID"
    by (simp add: storeKey_def PeerHTTPPrefix_def)
  have h: "handleRaftPut H R B rs r ''__paladin'' ''peers'' nodeID = (resp, rs')"
    using assms(12) raft_config_writes(1) [OF assms(4) _ assms(5,6), of H R B rs] by simp
  let ?s = "snd (fsm_spec_run reject (node_abs B (rsv_node rs)) before)" and ?v = "if body = [] then None else Some body"
  have nd: "node_wf B (rsv_node rs')" "node_abs B (rsv_node rs') = kv_put ?s (PeerHTTPPrefix @ nodeID) ?v"
    "n_raft (rsv_node rs') = rr"
    using reliable_bolt.handleRaftPut_leader [OF assms(1-3,7) _ _ assms(10) refl h, unfolded k, OF assms(8,9)] assms(13)
    by (auto split: option.splits)
  have S: "kv_store (watchable_ops B) (ws_abs B) (ws_wf B)"
    by (rule bolt_api.ws_kv_store [OF reliable_bolt.axioms(1) [OF assms(1)]])
  have "node_Get B (rsv_node rs') (PeerHTTPPrefix @ nodeID) = Inr (norm_entry (kv_next ?s (PeerHTTPPrefix @ nodeID) ?v))"
    using kv_store.get_spec [OF S nd(1), of "PeerHTTPPrefix @ nodeID"] unfolding nd(2)
    by (simp add: node_Get_def kv_put_def)
  then show ?thesis
    using assms(5,11) nd(3) by (simp add: LeaderHTTPAddr_def kv_next_def Let_def)
qed

definition demo_hijack :: "Response \<times> (nat, mem_db) RaftServer" where
  "demo_hijack = handleRaftConfig demo_client solo_raft mem_sure demo_leader
     (demo_request ''PUT'' (config_path @ storeKey ''__paladin'' ''peers'' ''n1'') ''evil:1'')"

lemma demo_hijack_facts:
  "configKey (rq_Path (demo_request x (config_path @ storeKey ''__paladin'' ''peers'' ''n1'') b)) = Inr (''__paladin'', ''peers'', ''n1'')"
  "utf8_valid (PeerHTTPPrefix @ ''n1'')" "storeKey ''__paladin'' ''peers'' ''n1'' = PeerHTTPPrefix @ ''n1''"
  "read_limited body_limit (rq_Body (demo_request x p ''evil:1'')) = Inr ''evil:1''"
  using configKey_full [of "''__paladin''" "''peers''" "''n1''"]
  by (simp_all add: demo_request_def PeerHTTPPrefix_def utf8_valid_ascii storeKey_def read_limited_def body_limit_def)

lemma demo_hijack_status: "rsp_Status (fst demo_hijack) = 201"
proof -
  let ?r = "demo_request ''PUT'' (config_path @ storeKey ''__paladin'' ''peers'' ''n1'') ''evil:1''"
  have "demo_hijack = handleRaftPut demo_client solo_raft mem_sure demo_leader ?r ''__paladin'' ''peers'' ''n1''"
    unfolding demo_hijack_def
    by (rule raft_config_writes(1) [OF demo_hijack_facts(1)]) (simp_all add: demo_request_def)
  then have "handleRaftPut demo_client solo_raft mem_sure demo_leader ?r ''__paladin'' ''peers'' ''n1''
      = (fst demo_hijack, snd demo_hijack)" by simp
  from sure.handleRaftPut_leader [OF demo_leader_facts(4) _ demo_hijack_facts(4) demo_hijack_facts(2) [folded demo_hijack_facts(3)] _
      demo_leader_facts(6,7) this]
  show ?thesis by (simp add: blank_key_def storeKey_def writeJSON_def kv_empty_def)
qed

theorem peer_registry_writable_witness:
  "rsp_Status (fst demo_hijack) = 201 \<and> LeaderHTTPAddr solo_raft mem_sure (rsv_node (snd demo_hijack)) = ''evil:1''"
proof -
  have h: "handleRaftConfig demo_client solo_raft mem_sure demo_leader
      (demo_request ''PUT'' (config_path @ storeKey ''__paladin'' ''peers'' ''n1'') ''evil:1'') = (fst demo_hijack, snd demo_hijack)"
    by (simp add: demo_hijack_def)
  have ok: "rsp_Status (fst demo_hijack) \<noteq> 500" by (simp add: demo_hijack_status)
  have "LeaderHTTPAddr solo_raft mem_sure (rsv_node (snd demo_hijack)) = ''evil:1''"
    by (rule peer_registry_writable [OF mem_sure_reliable demo_leader_facts(4) _ demo_hijack_facts(1) _ _ demo_hijack_facts(4,2)
          _ demo_leader_facts(6) _ h ok]) (simp_all add: demo_request_def)
  then show ?thesis using demo_hijack_status by simp
qed

end
