(* ===== verification/Go_Sha256.thy ===== *)
theory Go_Sha256
  imports Go_Text
begin

text \<open>
  \<^verbatim>\<open>crypto/sha256\<close> and \<^verbatim>\<open>encoding/hex\<close>, which the client uses for the check sum of its cache file: the
  function SHA-256 on byte strings, with its 32-bit words, and the digest in hexadecimal.
\<close>

type_synonym w32 = "32 word"

unbundle bit_operations_syntax

text \<open>
  The constants as the standard defines them: the first 32 bits of the fractional parts of the cube
  roots of the first 64 primes, and of the square roots of the first eight. \<open>root_bits k e n r\<close> is the
  largest \<open>e\<close>-th root of \<open>n\<close> that \<open>r\<close> and \<open>k\<close> further bits can reach.
\<close>

fun root_bits :: "nat \<Rightarrow> nat \<Rightarrow> int \<Rightarrow> int \<Rightarrow> int" where
  "root_bits 0 e n r = r"
| "root_bits (Suc k) e n r = (if (r + 2 ^ k) ^ e \<le> n then root_bits k e n (r + 2 ^ k) else root_bits k e n r)"

definition root_fraction :: "nat \<Rightarrow> int \<Rightarrow> w32" where
  "root_fraction e p = of_int (root_bits 36 e (p * 2 ^ (32 * e)) 0)"

definition primes64 :: "int list" where
  "primes64 =
    [2, 3, 5, 7, 11, 13, 17, 19, 23, 29, 31, 37, 41, 43, 47, 53,
     59, 61, 67, 71, 73, 79, 83, 89, 97, 101, 103, 107, 109, 113, 127, 131,
     137, 139, 149, 151, 157, 163, 167, 173, 179, 181, 191, 193, 197, 199, 211, 223,
     227, 229, 233, 239, 241, 251, 257, 263, 269, 271, 277, 281, 283, 293, 307, 311]"

definition round_constants :: "w32 list" where
  "round_constants = map (root_fraction 3) primes64"

definition initial_state :: "w32 list" where
  "initial_state = map (root_fraction 2) (take 8 primes64)"

section \<open>Padding\<close>

text \<open>Big-endian bytes of a number, and words from bytes.\<close>

fun be_bytes :: "nat \<Rightarrow> int \<Rightarrow> string" where
  "be_bytes 0 n = []"
| "be_bytes (Suc k) n = be_bytes k (n div 256) @ [char_of (nat (n mod 256))]"

fun be_words :: "string \<Rightarrow> w32 list" where
  "be_words (a # b # c # d # r) =
     of_int (((int (code a) * 256 + int (code b)) * 256 + int (code c)) * 256 + int (code d)) # be_words r"
| "be_words _ = []"

text \<open>A byte 128, zeros up to the next multiple of 64 less 8, and the length in bits.\<close>

definition sha_pad :: "string \<Rightarrow> string" where
  "sha_pad m = m @ [CHR 0x80] @ replicate ((119 - length m mod 64) mod 64) CHR 0x00 @ be_bytes 8 (8 * int (length m))"

section \<open>Compression\<close>

definition small_sigma0 :: "w32 \<Rightarrow> w32" where
  "small_sigma0 x = word_rotr 7 x XOR word_rotr 18 x XOR drop_bit 3 x"

definition small_sigma1 :: "w32 \<Rightarrow> w32" where
  "small_sigma1 x = word_rotr 17 x XOR word_rotr 19 x XOR drop_bit 10 x"

definition big_sigma0 :: "w32 \<Rightarrow> w32" where
  "big_sigma0 x = word_rotr 2 x XOR word_rotr 13 x XOR word_rotr 22 x"

definition big_sigma1 :: "w32 \<Rightarrow> w32" where
  "big_sigma1 x = word_rotr 6 x XOR word_rotr 11 x XOR word_rotr 25 x"

text \<open>The message schedule: the sixteen words of a block, extended to sixty-four; \<open>ws\<close> is in reverse.\<close>

fun extend :: "nat \<Rightarrow> w32 list \<Rightarrow> w32 list" where
  "extend 0 ws = ws"
| "extend (Suc n) ws = extend n ((small_sigma1 (ws ! 1) + ws ! 6 + small_sigma0 (ws ! 14) + ws ! 15) # ws)"

definition schedule :: "w32 list \<Rightarrow> w32 list" where
  "schedule block = rev (extend 48 (rev block))"

fun sha_round :: "w32 list \<Rightarrow> w32 \<times> w32 \<Rightarrow> w32 list" where
  "sha_round [a, b, c, d, e, f, g, h] (k, w) =
     (let t1 = h + big_sigma1 e + ((e AND f) XOR (NOT e AND g)) + k + w;
          t2 = big_sigma0 a + ((a AND b) XOR (a AND c) XOR (b AND c)) in
      [t1 + t2, a, b, c, d + t1, e, f, g])"
| "sha_round st _ = st"

definition compress :: "w32 list \<Rightarrow> w32 list \<Rightarrow> w32 list" where
  "compress st block = map2 (+) st (foldl sha_round st (zip round_constants (schedule block)))"

text \<open>The blocks of sixteen words, one after the other; the first argument is their number.\<close>

fun sha_blocks :: "nat \<Rightarrow> w32 list \<Rightarrow> w32 list \<Rightarrow> w32 list" where
  "sha_blocks 0 st ws = st"
| "sha_blocks (Suc n) st ws = sha_blocks n (compress st (take 16 ws)) (drop 16 ws)"

definition sha256 :: "string \<Rightarrow> string" where
  "sha256 m = (let p = sha_pad m in
     concat (map (\<lambda>w. be_bytes 4 (uint w)) (sha_blocks (length p div 64) initial_state (be_words p))))"

definition hex_encode :: "string \<Rightarrow> string" where
  "hex_encode s = concat (map (\<lambda>c. [hex_char (code c div 16), hex_char (code c mod 16)]) s)"

section \<open>The constants\<close>

lemma root_bits_floor:
  "r ^ e \<le> n \<Longrightarrow> n < (r + 2 ^ k) ^ e \<Longrightarrow> root_bits k e n r ^ e \<le> n \<and> n < (root_bits k e n r + 1) ^ e"
proof (induction k arbitrary: r)
  case (Suc k)
  have "r + 2 ^ Suc k = r + 2 ^ k + 2 ^ k" by simp
  then have "n < (r + 2 ^ k + 2 ^ k) ^ e" using Suc.prems(2) by (simp only:)
  then show ?case using Suc.IH [of r] Suc.IH [of "r + 2 ^ k"] Suc.prems(1) by (cases "(r + 2 ^ k) ^ e \<le> n") simp_all
qed simp

text \<open>Every constant is the fraction of the root, rounded down to 32 bits.\<close>

lemma root_fraction_floor:
  assumes "0 < e" "0 \<le> p" "p < 16 ^ e"
  obtains r where "r ^ e \<le> p * 2 ^ (32 * e)" "p * 2 ^ (32 * e) < (r + 1) ^ e" "root_fraction e p = of_int r"
proof -
  have "p * 2 ^ (32 * e) < 16 ^ e * 2 ^ (32 * e)" using assms(3) by (intro mult_strict_right_mono) simp_all
  also have "\<dots> = (2 ^ 36) ^ e" by (simp add: power_mult power_mult_distrib [symmetric])
  finally have "p * 2 ^ (32 * e) < (0 + 2 ^ 36) ^ e" by simp
  moreover have "0 ^ e \<le> p * 2 ^ (32 * e)" using assms(2) by (simp add: zero_power [OF assms(1)])
  ultimately have f: "root_bits 36 e (p * 2 ^ (32 * e)) 0 ^ e \<le> p * 2 ^ (32 * e)"
    "p * 2 ^ (32 * e) < (root_bits 36 e (p * 2 ^ (32 * e)) 0 + 1) ^ e"
    using root_bits_floor [of 0 e "p * 2 ^ (32 * e)" 36] by blast+
  show ?thesis by (rule that [OF f]) (simp add: root_fraction_def)
qed

section \<open>The digest\<close>

lemma pad_blocks: "length (sha_pad m) mod 64 = 0"
proof -
  have b: "length (be_bytes k n) = k" for k n by (induction k arbitrary: n) simp_all
  define r where "r = length m mod 64"
  have r: "r < 64" by (simp add: r_def)
  have "length (sha_pad m) mod 64 = (r + 9 + (119 - r) mod 64) mod 64"
    by (simp add: sha_pad_def b r_def mod_simps add.assoc)
  also have "\<dots> = 0"
  proof (cases "r \<le> 55")
    case True
    then have "119 - r = 64 + (55 - r)" by simp
    then have "(119 - r) mod 64 = 55 - r" by (simp only: mod_add_self1) simp
    then show ?thesis using True by simp
  next
    case False
    then show ?thesis using r by simp
  qed
  finally show ?thesis .
qed

lemma hex_encode_ascii: "list_all (\<lambda>c. code c < 0x80) (hex_encode s)"
proof -
  have "code (hex_char n) < 0x80" if "n < 16" for n using that by (simp add: hex_char_def)
  moreover have "code c div 16 < 16" "code c mod 16 < 16" for c by simp_all
  ultimately show ?thesis by (simp add: hex_encode_def list_all_iff)
qed

end
