(* ===== verification/Sdk_Client.thy ===== *)
theory Sdk_Client
  imports Raft_Server Go_Sha256 Go_Fields "HOL-Library.AList"
begin

text \<open>
  \<^verbatim>\<open>sdk/client.go\<close>: the client library. Its state is the local copy of the configuration (a Go
  map, here an association list with distinct keys), the revision it has seen, the callbacks,
  the cache file and the metrics. One turn of \<^verbatim>\<open>watchLoop\<close> is \<open>watch_turn\<close>. The HTTP client is
  a function from URLs to answers; what a file holds after \<^verbatim>\<open>os.WriteFile\<close>, whose error the code
  ignores, is a function of the old content and the text. Durations and log lines are not modelled.
\<close>

section \<open>State\<close>

record Config =
  cfg_Addrs :: "string list"
  cfg_Tenant :: string
  cfg_Namespace :: string
  cfg_CacheDir :: string
  cfg_PollTimeout :: int
  cfg_RetryBackoff :: int

text \<open>
  \<open>c_counters\<close> lists the increments of the counters (series and label) in order; the two gauges
  hold their last value. Callbacks are named by values of a type \<open>'f\<close>.
\<close>

record 'f Client =
  c_config :: Config
  c_configs :: "(string \<times> bytes) list"
  c_revision :: u64
  c_watchers :: "string \<Rightarrow> 'f list"
  c_file :: "string option"
  c_counters :: "(string \<times> string) list"
  c_revGauge :: "u64 option"
  c_cfgGauge :: "nat option"

definition count :: "string \<Rightarrow> string \<Rightarrow> 'f Client \<Rightarrow> 'f Client" where
  "count series label c = c\<lparr>c_counters := c_counters c @ [(series, label)]\<rparr>"

section \<open>Wire types\<close>

record configItem =
  wiKey :: string
  wiValue :: string
  wiRevision :: u64

record configResponse =
  wcRevision :: u64
  wcConfigs :: "configItem list"

record watchEvent =
  wvType :: string
  wvEntry :: "configItem option"
  wvPrevEntry :: "configItem option"

record watchResponse =
  wwRevision :: u64
  wwEvents :: "watchEvent list"

definition zeroItem :: configItem where
  "zeroItem = \<lparr>wiKey = [], wiValue = [], wiRevision = 0\<rparr>"

definition zeroWatchEvent :: watchEvent where
  "zeroWatchEvent = \<lparr>wvType = [], wvEntry = None, wvPrevEntry = None\<rparr>"

definition set_item_field :: "string \<Rightarrow> json \<Rightarrow> configItem \<Rightarrow> configItem option" where
  "set_item_field k j i =
     (if field_name k ''key'' then map_option (\<lambda>x. i\<lparr>wiKey := x\<rparr>) (set_string (wiKey i) j)
      else if field_name k ''value'' then map_option (\<lambda>x. i\<lparr>wiValue := x\<rparr>) (set_string (wiValue i) j)
      else if field_name k ''revision'' then map_option (\<lambda>x. i\<lparr>wiRevision := x\<rparr>) (set_uint (wiRevision i) j)
      else Some i)"

definition set_item :: "configItem \<Rightarrow> json \<Rightarrow> configItem option" where
  "set_item i j = decode_struct set_item_field j i"

definition set_configs_field :: "string \<Rightarrow> json \<Rightarrow> configResponse \<Rightarrow> configResponse option" where
  "set_configs_field k j r =
     (if field_name k ''revision'' then map_option (\<lambda>x. r\<lparr>wcRevision := x\<rparr>) (set_uint (wcRevision r) j)
      else if field_name k ''configs'' then
        map_option (\<lambda>x. r\<lparr>wcConfigs := x\<rparr>) (set_slice set_item zeroItem (wcConfigs r) j)
      else Some r)"

definition set_event_field :: "string \<Rightarrow> json \<Rightarrow> watchEvent \<Rightarrow> watchEvent option" where
  "set_event_field k j e =
     (if field_name k ''type'' then map_option (\<lambda>x. e\<lparr>wvType := x\<rparr>) (set_string (wvType e) j)
      else if field_name k ''entry'' then
        map_option (\<lambda>x. e\<lparr>wvEntry := x\<rparr>) (set_ptr set_item zeroItem (wvEntry e) j)
      else if field_name k ''prev_entry'' then
        map_option (\<lambda>x. e\<lparr>wvPrevEntry := x\<rparr>) (set_ptr set_item zeroItem (wvPrevEntry e) j)
      else Some e)"

definition set_event :: "watchEvent \<Rightarrow> json \<Rightarrow> watchEvent option" where
  "set_event e j = decode_struct set_event_field j e"

definition set_watch_field :: "string \<Rightarrow> json \<Rightarrow> watchResponse \<Rightarrow> watchResponse option" where
  "set_watch_field k j r =
     (if field_name k ''revision'' then map_option (\<lambda>x. r\<lparr>wwRevision := x\<rparr>) (set_uint (wwRevision r) j)
      else if field_name k ''events'' then
        map_option (\<lambda>x. r\<lparr>wwEvents := x\<rparr>) (set_slice set_event zeroWatchEvent (wwEvents r) j)
      else Some r)"

definition decode_configs :: "string \<Rightarrow> configResponse option" where
  "decode_configs body = (case decode body of None \<Rightarrow> None
     | Some j \<Rightarrow> decode_struct set_configs_field j \<lparr>wcRevision = 0, wcConfigs = []\<rparr>)"

definition decode_watch :: "string \<Rightarrow> watchResponse option" where
  "decode_watch body = (case decode body of None \<Rightarrow> None
     | Some j \<Rightarrow> decode_struct set_watch_field j \<lparr>wwRevision = 0, wwEvents = []\<rparr>)"

section \<open>The cache file\<close>

text \<open>
  \<^verbatim>\<open>filepath.Join\<close> of two non-empty elements on Unix: they are joined with a slash and cleaned. In a
  relative path a leading \<^verbatim>\<open>..\<close> stays.
\<close>

fun clean_relative :: "string list \<Rightarrow> string list \<Rightarrow> string list" where
  "clean_relative acc [] = rev acc"
| "clean_relative acc (e # es) =
     (if e = [] \<or> e = ''.'' then clean_relative acc es
      else if e = ''..'' \<and> acc \<noteq> [] \<and> hd acc \<noteq> ''..'' then clean_relative (tl acc) es
      else clean_relative (e # acc) es)"

definition filepath_Join :: "string \<Rightarrow> string \<Rightarrow> string" where
  "filepath_Join dir name = (let p = dir @ ''/'' @ name in
     if hd p = CHR ''/'' then path_Clean p
     else (case clean_relative [] (Split p CHR ''/'') of [] \<Rightarrow> ''.'' | es \<Rightarrow> Join es ''/''))"

text \<open>
  No directory means no cache. The JSON of the file has the keys of the map in order, as
  \<^verbatim>\<open>encoding/json\<close> writes maps.
\<close>

definition cachePath :: "Config \<Rightarrow> string option" where
  "cachePath cfg = (if cfg_CacheDir cfg = [] then None
     else Some (filepath_Join (cfg_CacheDir cfg) (''paladin_'' @ cfg_Tenant cfg @ ''_'' @ cfg_Namespace cfg @ ''.json'')))"

record cacheFile =
  cf_CheckSum :: string
  cf_Revision :: u64
  cf_Configs :: "(string \<times> string) list option"

definition configs_json :: "(string \<times> string) list option \<Rightarrow> json" where
  "configs_json m = (case m of None \<Rightarrow> JNull | Some kvs \<Rightarrow> map_json kvs)"

definition cache_json :: "cacheFile \<Rightarrow> json" where
  "cache_json cf = JObj [(''checksum'', JStr (cf_CheckSum cf)), (''revision'', json_uint (cf_Revision cf)),
     (''configs'', configs_json (cf_Configs cf))]"

fun set_string_members :: "(string \<times> json) list \<Rightarrow> (string \<times> string) list \<Rightarrow> (string \<times> string) list option" where
  "set_string_members [] m = Some m"
| "set_string_members ((k, j) # ms) m =
     (case set_string [] j of None \<Rightarrow> None | Some v \<Rightarrow> set_string_members ms (AList.update k v m))"

definition set_string_map :: "(string \<times> string) list option \<Rightarrow> json \<Rightarrow> (string \<times> string) list option option" where
  "set_string_map old j = (case j of JNull \<Rightarrow> Some None
     | JObj ms \<Rightarrow> map_option Some (set_string_members ms (case old of None \<Rightarrow> [] | Some m \<Rightarrow> m))
     | _ \<Rightarrow> None)"

definition set_cache_field :: "string \<Rightarrow> json \<Rightarrow> cacheFile \<Rightarrow> cacheFile option" where
  "set_cache_field k j cf =
     (if field_name k ''checksum'' then map_option (\<lambda>x. cf\<lparr>cf_CheckSum := x\<rparr>) (set_string (cf_CheckSum cf) j)
      else if field_name k ''revision'' then map_option (\<lambda>x. cf\<lparr>cf_Revision := x\<rparr>) (set_uint (cf_Revision cf) j)
      else if field_name k ''configs'' then map_option (\<lambda>x. cf\<lparr>cf_Configs := x\<rparr>) (set_string_map (cf_Configs cf) j)
      else Some cf)"

definition decode_cache :: "string \<Rightarrow> cacheFile option" where
  "decode_cache data = (case unmarshal data of None \<Rightarrow> None
     | Some j \<Rightarrow> decode_struct set_cache_field j \<lparr>cf_CheckSum = [], cf_Revision = 0, cf_Configs = None\<rparr>)"

definition sha256Sum :: "string \<Rightarrow> string" where
  "sha256Sum data = hex_encode (sha256 data)"

definition saveToCache :: "(string option \<Rightarrow> string \<Rightarrow> string option) \<Rightarrow> 'f Client \<Rightarrow> 'f Client" where
  "saveToCache write c =
     (case cachePath (c_config c) of None \<Rightarrow> c
      | Some path \<Rightarrow>
          (let cfgs = map (\<lambda>(k, v). (k, bytes_str v)) (c_configs c);
               data = marshal (map_json cfgs);
               cf = \<lparr>cf_CheckSum = sha256Sum data, cf_Revision = c_revision c, cf_Configs = Some cfgs\<rparr>;
               out = marshal_indent ''  '' (cache_json cf)
           in c\<lparr>c_file := write (c_file c) out\<rparr>))"

definition store_strings :: "(string \<times> string) list \<Rightarrow> (string \<times> bytes) list \<Rightarrow> (string \<times> bytes) list" where
  "store_strings kvs m = foldl (\<lambda>m (k, v). AList.update k (Some v) m) m kvs"

definition loadFromCache :: "'f Client \<Rightarrow> err option \<times> 'f Client" where
  "loadFromCache c =
     (case cachePath (c_config c) of
        None \<Rightarrow> (Some (ErrMsg ''no cache dir''), count ''cache_loads'' ''error'' c)
      | Some path \<Rightarrow>
          (case c_file c of
             None \<Rightarrow> (Some (ErrLib ''no such file or directory''), count ''cache_loads'' ''error'' c)
           | Some data \<Rightarrow>
               (case decode_cache data of
                  None \<Rightarrow> (Some (Wrap ''corrupt cache'' ErrJson), count ''cache_loads'' ''error'' c)
                | Some cf \<Rightarrow>
                    if sha256Sum (marshal (configs_json (cf_Configs cf))) \<noteq> cf_CheckSum cf then
                      (Some (ErrMsg ''cache checksum mismatch''), count ''cache_loads'' ''checksum_mismatch'' c)
                    else
                      (let m = store_strings (case cf_Configs cf of None \<Rightarrow> [] | Some kvs \<Rightarrow> kvs) (c_configs c) in
                       (None, (count ''cache_loads'' ''ok'' (c\<lparr>c_configs := m, c_revision := cf_Revision cf\<rparr>))
                          \<lparr>c_revGauge := Some (cf_Revision cf), c_cfgGauge := Some (length m)\<rparr>)))))"

section \<open>Pulling and watching\<close>

text \<open>\<^verbatim>\<open>pickAddr\<close> takes the first address; without one the index panics.\<close>

definition pickAddr :: "Config \<Rightarrow> err + string" where
  "pickAddr cfg = (case cfg_Addrs cfg of [] \<Rightarrow> Inl (Panic ''index out of range'') | a # _ \<Rightarrow> Inr a)"

definition pull_url :: "Config \<Rightarrow> string \<Rightarrow> string" where
  "pull_url cfg addr = ''http://'' @ addr @ ''/api/v1/config/'' @ cfg_Tenant cfg @ ''/'' @ cfg_Namespace cfg"

text \<open>The request of \<^verbatim>\<open>fullPull\<close> up to the decoded answer; \<^term>\<open>None\<close> is the panic of \<^verbatim>\<open>pickAddr\<close>.\<close>

definition pull_body :: "(string \<Rightarrow> err + Response) \<Rightarrow> Config \<Rightarrow> (err + configResponse) option" where
  "pull_body get cfg =
     (case pickAddr cfg of Inl e \<Rightarrow> None | Inr addr \<Rightarrow> Some
       (case get (pull_url cfg addr) of Inl e \<Rightarrow> Inl e | Inr resp \<Rightarrow>
          if rsp_Status resp \<noteq> 200
          then Inl (ErrMsg (''status '' @ dec_of_nat (rsp_Status resp) @ '': '' @ rsp_Body resp))
          else (case decode_configs (rsp_Body resp) of None \<Rightarrow> Inl ErrJson | Some cr \<Rightarrow> Inr cr)))"

text \<open>\<^verbatim>\<open>fullPull\<close>; \<^term>\<open>None\<close> is a panic.\<close>

definition fullPull ::
  "(string option \<Rightarrow> string \<Rightarrow> string option) \<Rightarrow> (string \<Rightarrow> err + Response) \<Rightarrow>
     'f Client \<Rightarrow> (err option \<times> 'f Client) option" where
  "fullPull write get c =
     map_option (\<lambda>answer. case answer of
        Inl e \<Rightarrow> (Some e, count ''full_pulls'' ''error'' c)
      | Inr cr \<Rightarrow>
          (let m = store_strings (map (\<lambda>i. (wiKey i, wiValue i)) (wcConfigs cr)) (c_configs c);
               c1 = c\<lparr>c_configs := m, c_revision := wcRevision cr, c_revGauge := Some (wcRevision cr),
                     c_cfgGauge := Some (length m)\<rparr>
           in (None, count ''full_pulls'' ''ok'' (saveToCache write c1))))
       (pull_body get (c_config c))"

text \<open>
  \<^verbatim>\<open>applyEvents\<close>: the client after it and the calls of the callbacks, each with the key, the old
  and the new value. An event without an entry is a panic (\<^term>\<open>None\<close>).
\<close>

definition apply_event :: "'f Client \<Rightarrow> watchEvent \<Rightarrow> ('f Client \<times> ('f \<times> string \<times> bytes \<times> bytes) list) option" where
  "apply_event c e =
     (case wvEntry e of None \<Rightarrow> None
      | Some item \<Rightarrow>
          (let key = wiKey item;
               oldVal = (case map_of (c_configs c) key of None \<Rightarrow> None | Some v \<Rightarrow> v);
               (configs, newVal) =
                 (if wvType e = ''PUT'' then (AList.update key (Some (wiValue item)) (c_configs c), Some (wiValue item))
                  else if wvType e = ''DELETE'' then (AList.delete key (c_configs c), None)
                  else (c_configs c, Some (wiValue item)));
               c1 = count ''watch_events'' (wvType e) (c\<lparr>c_configs := configs\<rparr>)
           in Some (c1, map (\<lambda>fn. (fn, key, oldVal, newVal)) (c_watchers c key @ c_watchers c []))))"

fun applyEvents :: "'f Client \<Rightarrow> watchEvent list \<Rightarrow> ('f Client \<times> ('f \<times> string \<times> bytes \<times> bytes) list) option" where
  "applyEvents c [] = Some (c, [])"
| "applyEvents c (e # es) =
     (case apply_event c e of None \<Rightarrow> None
      | Some (c1, calls) \<Rightarrow>
          (case applyEvents c1 es of None \<Rightarrow> None | Some (c2, calls') \<Rightarrow> Some (c2, calls @ calls')))"

text \<open>The seconds of a duration, truncated towards zero.\<close>

definition int_seconds :: "int \<Rightarrow> int" where
  "int_seconds d = (if d < 0 then - ((- d) div second) else d div second)"

definition watch_url :: "Config \<Rightarrow> string \<Rightarrow> u64 \<Rightarrow> string" where
  "watch_url cfg addr rv = ''http://'' @ addr @ ''/api/v1/watch/'' @ cfg_Tenant cfg @ ''/'' @ cfg_Namespace cfg @
     ''/?revision='' @ FormatUint rv @ ''&timeout='' @ FormatInt (int_seconds (cfg_PollTimeout cfg))"

text \<open>
  One turn of \<^verbatim>\<open>watchLoop\<close>: the client after it, the calls of the callbacks, and whether the turn
  slept for the backoff. \<^term>\<open>None\<close> is a panic.
\<close>

record 'f turn =
  t_client :: "'f Client"
  t_calls :: "('f \<times> string \<times> bytes \<times> bytes) list"
  t_backoff :: bool

definition set_revision :: "u64 \<Rightarrow> 'f Client \<Rightarrow> 'f Client" where
  "set_revision rv c = (if rv > 0 then c\<lparr>c_revision := rv, c_revGauge := Some rv\<rparr> else c)"

definition watch_turn ::
  "(string option \<Rightarrow> string \<Rightarrow> string option) \<Rightarrow> (string \<Rightarrow> err + Response) \<Rightarrow>
     'f Client \<Rightarrow> 'f turn option" where
  "watch_turn write get c =
     (case pickAddr (c_config c) of Inl e \<Rightarrow> None | Inr addr \<Rightarrow>
       (case get (watch_url (c_config c) addr (c_revision c)) of
          Inl e \<Rightarrow> Some \<lparr>t_client = count ''watch_polls'' ''error'' c, t_calls = [], t_backoff = True\<rparr>
        | Inr resp \<Rightarrow>
            (case decode_watch (rsp_Body resp) of
               None \<Rightarrow> Some \<lparr>t_client = count ''watch_polls'' ''error'' c, t_calls = [], t_backoff = False\<rparr>
             | Some wr \<Rightarrow>
                 if wwEvents wr = [] then
                   Some \<lparr>t_client = set_revision (wwRevision wr) (count ''watch_polls'' ''empty'' c),
                         t_calls = [], t_backoff = False\<rparr>
                 else
                   (case applyEvents (count ''watch_polls'' ''events'' c) (wwEvents wr) of None \<Rightarrow> None
                    | Some (c1, calls) \<Rightarrow>
                        (let c2 = saveToCache write c1;
                             c3 = c2\<lparr>c_cfgGauge := Some (length (c_configs c2))\<rparr>
                         in Some \<lparr>t_client = set_revision (wwRevision wr) c3, t_calls = calls, t_backoff = False\<rparr>)))))"

section \<open>Construction and reads\<close>

text \<open>\<^verbatim>\<open>New\<close> up to the start of the watch loop. A panic of the pull is a panic of \<^verbatim>\<open>New\<close>: with an empty list of
  addresses no client is made, and the cache is not read.\<close>

definition default_config :: "Config \<Rightarrow> Config" where
  "default_config cfg =
     (let cfg1 = (if cfg_PollTimeout cfg = 0 then cfg\<lparr>cfg_PollTimeout := 30 * second\<rparr> else cfg) in
      if cfg_RetryBackoff cfg1 = 0 then cfg1\<lparr>cfg_RetryBackoff := 1 * second\<rparr> else cfg1)"

definition new_client :: "Config \<Rightarrow> string option \<Rightarrow> 'f Client" where
  "new_client cfg file = \<lparr>c_config = default_config cfg, c_configs = [], c_revision = 0, c_watchers = (\<lambda>_. []),
     c_file = file, c_counters = [], c_revGauge = None, c_cfgGauge = None\<rparr>"

definition New ::
  "(string option \<Rightarrow> string \<Rightarrow> string option) \<Rightarrow> (string \<Rightarrow> err + Response) \<Rightarrow>
     Config \<Rightarrow> string option \<Rightarrow> 'f Client option" where
  "New write get cfg file =
     map_option (\<lambda>(e, c). if e = None then c else snd (loadFromCache c))
       (fullPull write get (new_client cfg file))"

definition client_Get :: "'f Client \<Rightarrow> string \<Rightarrow> bytes \<times> bool" where
  "client_Get c key = (case map_of (c_configs c) key of None \<Rightarrow> (None, False) | Some v \<Rightarrow> (v, True))"

definition client_GetAll :: "'f Client \<Rightarrow> (string \<times> bytes) list" where
  "client_GetAll c = c_configs c"

definition OnChange :: "'f Client \<Rightarrow> string \<Rightarrow> 'f \<Rightarrow> 'f Client" where
  "OnChange c key fn = c\<lparr>c_watchers := (c_watchers c)(key := c_watchers c key @ [fn])\<rparr>"

section \<open>Decoding the server's answers\<close>

lemma wire_names [simp]:
  "fold_name ''configs'' = ''configs''" "fold_name ''count'' = ''count''" "fold_name ''events'' = ''events''"
  "fold_name ''entry'' = ''entry''" "fold_name ''prev_entry'' = ''prev_entry''" "fold_name ''checksum'' = ''checksum''"
  "utf8_coerce ''configs'' = ''configs''" "utf8_coerce ''count'' = ''count''" "utf8_coerce ''events'' = ''events''"
  "utf8_coerce ''entry'' = ''entry''" "utf8_coerce ''prev_entry'' = ''prev_entry''"
  "utf8_coerce ''checksum'' = ''checksum''"
  by (simp_all add: lower_char_def between_def utf8_coerce_ascii)

lemma set_item_field_simps [simp]:
  "set_item_field ''key'' (JStr x) i = Some (i\<lparr>wiKey := x\<rparr>)"
  "set_item_field ''value'' (JStr x) i = Some (i\<lparr>wiValue := x\<rparr>)"
  "set_item_field ''revision'' (json_uint n) i = Some (i\<lparr>wiRevision := n\<rparr>)"
  "set_item_field ''create_revision'' j i = Some i" "set_item_field ''mod_revision'' j i = Some i"
  "set_item_field ''version'' j i = Some i"
  by (simp_all add: set_item_field_def field_name_def del: fold_name.simps)

lemma set_configs_field_simps [simp]:
  "set_configs_field ''revision'' (json_uint n) r = Some (r\<lparr>wcRevision := n\<rparr>)"
  "set_configs_field ''count'' j r = Some r"
  "set_configs_field ''configs'' j r = map_option (\<lambda>x. r\<lparr>wcConfigs := x\<rparr>) (set_slice set_item zeroItem (wcConfigs r) j)"
  by (simp_all add: set_configs_field_def field_name_def del: fold_name.simps)

lemma set_event_field_simps [simp]:
  "set_event_field ''type'' (JStr x) e = Some (e\<lparr>wvType := x\<rparr>)"
  "set_event_field ''entry'' j e = map_option (\<lambda>x. e\<lparr>wvEntry := x\<rparr>) (set_ptr set_item zeroItem (wvEntry e) j)"
  "set_event_field ''prev_entry'' j e = map_option (\<lambda>x. e\<lparr>wvPrevEntry := x\<rparr>) (set_ptr set_item zeroItem (wvPrevEntry e) j)"
  by (simp_all add: set_event_field_def field_name_def del: fold_name.simps)

lemma set_watch_field_simps [simp]:
  "set_watch_field ''revision'' (json_uint n) r = Some (r\<lparr>wwRevision := n\<rparr>)"
  "set_watch_field ''events'' j r = map_option (\<lambda>x. r\<lparr>wwEvents := x\<rparr>) (set_slice set_event zeroWatchEvent (wwEvents r) j)"
  by (simp_all add: set_watch_field_def field_name_def del: fold_name.simps)

text \<open>What the client keeps of an item of the server, and of an event.\<close>

definition item_of :: "ConfigItem \<Rightarrow> configItem" where
  "item_of c = \<lparr>wiKey = utf8_coerce (ciKey c), wiValue = utf8_coerce (ciValue c), wiRevision = ciRevision c\<rparr>"

definition event_of :: "WatchEvent \<Rightarrow> watchEvent" where
  "event_of e = \<lparr>wvType = utf8_coerce (weType e), wvEntry = Some (item_of (weEntry e)),
     wvPrevEntry = map_option item_of (wePrevEntry e)\<rparr>"

lemma config_item_json_wf [simp]: "wf_json (config_item_json c)" "config_item_json c \<noteq> JNull"
  "coerced (config_item_json c) \<noteq> JNull"
  by (simp_all add: config_item_json_def)

lemma watch_event_json_wf [simp]: "wf_json (watch_event_json e)"
  by (simp add: watch_event_json_def split: option.splits)

lemma set_item_json: "set_item zeroItem (coerced (config_item_json c)) = Some (item_of c)"
  by (simp add: set_item_def config_item_json_def item_of_def zeroItem_def)

lemma set_event_json: "set_event zeroWatchEvent (coerced (watch_event_json e)) = Some (event_of e)"
  by (cases "wePrevEntry e")
    (simp_all add: set_event_def watch_event_json_def event_of_def zeroWatchEvent_def set_ptr_def set_item_json)

lemma decode_configs_json [codec_simps]:
  "decode_configs (marshal (config_response_json r) @ [CHR 0x0A])
     = Some \<lparr>wcRevision = crRevision r, wcConfigs = map item_of (crConfigs r)\<rparr>"
proof -
  have wf: "wf_json (config_response_json r)"
    using dec_of_nat_number(2) [of "crCount r"]
    by (simp add: config_response_json_def list_all_iff dec_of_nat_number(1))
  have "decode_slice set_item zeroItem [] (map (coerced \<circ> config_item_json) (crConfigs r)) = Some (map item_of (crConfigs r))"
    using set_item_json by (intro decode_slice_map) simp
  with decode_marshal [OF wf, of "[CHR 0x0A]"] show ?thesis
    by (simp add: decode_configs_def num_end_def num_char_def is_digit_def)
      (simp add: config_response_json_def set_slice_def)
qed

lemma decode_watch_json [codec_simps]:
  "decode_watch (marshal (watch_response_json rv es) @ [CHR 0x0A])
     = Some \<lparr>wwRevision = rv, wwEvents = map event_of es\<rparr>"
proof -
  have wf: "wf_json (watch_response_json rv es)"
    by (simp add: watch_response_json_def list_all_iff)
  have "decode_slice set_event zeroWatchEvent [] (map (coerced \<circ> watch_event_json) es) = Some (map event_of es)"
    using set_event_json by (intro decode_slice_map) simp
  with decode_marshal [OF wf, of "[CHR 0x0A]"] show ?thesis
    by (simp add: decode_watch_def num_end_def num_char_def is_digit_def)
      (simp add: watch_response_json_def set_slice_def)
qed

section \<open>The local copy\<close>

lemma map_of_store_strings:
  assumes "\<And>k v. (k, v) \<in> set kvs \<Longrightarrow> g k = Some v"
  shows "map_of (store_strings kvs m) k = (if k \<in> fst ` set kvs then map_option Some (g k) else map_of m k)"
  using assms
proof (induction kvs arbitrary: m)
  case (Cons kv kvs)
  obtain k0 v0 where kv: "kv = (k0, v0)" by (cases kv)
  then have g: "g k0 = Some v0" using Cons.prems by simp
  have "map_of (store_strings kvs m') k = (if k \<in> fst ` set kvs then map_option Some (g k) else map_of m' k)" for m'
    using Cons.IH Cons.prems by simp
  then show ?case using kv g by (simp add: store_strings_def update_conv')
qed (simp add: store_strings_def)

text \<open>The effect of an event on the local copy, as a map.\<close>

definition wire_apply :: "(string \<Rightarrow> bytes option) \<Rightarrow> watchEvent \<Rightarrow> (string \<Rightarrow> bytes option)" where
  "wire_apply m e = (case wvEntry e of None \<Rightarrow> m | Some i \<Rightarrow>
     if wvType e = ''PUT'' then m(wiKey i \<mapsto> Some (wiValue i))
     else if wvType e = ''DELETE'' then m(wiKey i := None) else m)"

lemma count_simps [simp]:
  "c_configs (count x y c) = c_configs c" "c_revision (count x y c) = c_revision c" "c_config (count x y c) = c_config c"
  "c_watchers (count x y c) = c_watchers c" "c_file (count x y c) = c_file c"
  by (simp_all add: count_def)

lemma saveToCache_simps [simp]:
  "c_configs (saveToCache write c) = c_configs c" "c_revision (saveToCache write c) = c_revision c"
  "c_config (saveToCache write c) = c_config c"
  by (simp_all add: saveToCache_def Let_def split: option.splits)

lemma set_revision_simps [simp]:
  "c_configs (set_revision rv c) = c_configs c" "c_config (set_revision rv c) = c_config c"
  "c_revision (set_revision rv c) = (if rv > 0 then rv else c_revision c)"
  by (simp_all add: set_revision_def)

lemma apply_event_view:
  assumes "wvEntry e \<noteq> None"
  shows "\<exists>c' calls. apply_event c e = Some (c', calls) \<and> map_of (c_configs c') = wire_apply (map_of (c_configs c)) e \<and>
    c_revision c' = c_revision c \<and> c_config c' = c_config c"
  using assms by (auto simp: apply_event_def wire_apply_def Let_def update_conv' delete_conv')

lemma applyEvents_view:
  assumes "\<forall>e \<in> set es. wvEntry e \<noteq> None"
  shows "\<exists>c' calls. applyEvents c es = Some (c', calls) \<and>
    map_of (c_configs c') = foldl wire_apply (map_of (c_configs c)) es \<and>
    c_revision c' = c_revision c \<and> c_config c' = c_config c"
  using assms
proof (induction es arbitrary: c)
  case (Cons e es)
  obtain c1 calls where 1: "apply_event c e = Some (c1, calls)"
      "map_of (c_configs c1) = wire_apply (map_of (c_configs c)) e" "c_revision c1 = c_revision c" "c_config c1 = c_config c"
    using apply_event_view [of e c] Cons.prems by auto
  with Cons.IH [of c1] Cons.prems show ?case by auto
qed simp

text \<open>The values of a store as the client keeps them: the text of the bytes.\<close>

definition as_text :: "(string \<Rightarrow> bytes option) \<Rightarrow> string \<Rightarrow> bytes option" where
  "as_text m k = map_option (\<lambda>v. Some (bytes_str v)) (m k)"

text \<open>The text of an event survives JSON when its key and value are valid UTF-8.\<close>

definition event_text :: "Event \<Rightarrow> bool" where
  "event_text ev \<longleftrightarrow> (case evEntry ev of None \<Rightarrow> False
     | Some e \<Rightarrow> utf8_valid (eKey e) \<and> utf8_valid (bytes_str (eValue e)))"

lemma wire_fold_cong: "m k = m' k \<Longrightarrow> foldl wire_apply m es k = foldl wire_apply m' es k"
proof (induction es arbitrary: m m')
  case (Cons e es)
  have "wire_apply m e k = wire_apply m' e k"
    using Cons.prems by (cases "wvEntry e") (simp_all add: wire_apply_def)
  from Cons.IH [of "wire_apply m e" "wire_apply m' e", OF this] show ?case by simp
qed simp

lemma wire_apply_event:
  assumes "to_watch_event ev = Some we" and "event_text ev"
  shows "wire_apply (as_text m) (event_of we) = as_text (ev_apply m ev)"
proof -
  obtain e where e: "evEntry ev = Some e" "utf8_valid (eKey e)" "utf8_valid (bytes_str (eValue e))"
    using assms(2) by (auto simp: event_text_def split: option.splits)
  have we: "weType we = EventType_String (evType ev)" "weEntry we = entryToConfig e"
    using assms(1) e(1) by (auto simp: to_watch_event_def)
  show ?thesis
    using e by (cases "evType ev")
      (auto simp: fun_eq_iff wire_apply_def as_text_def ev_apply_def event_of_def we item_of_def entryToConfig_def
        EventType_String_def utf8_coerce_valid utf8_coerce_ascii)
qed

lemma wire_replay:
  assumes "those (map to_watch_event evs) = Some wes" and "\<forall>ev \<in> set evs. event_text ev"
  shows "foldl wire_apply (as_text m) (map event_of wes) = as_text (replay m evs)"
  using assms
proof (induction evs arbitrary: m wes)
  case (Cons ev evs)
  obtain we wes' where w: "to_watch_event ev = Some we" "those (map to_watch_event evs) = Some wes'" "wes = we # wes'"
    using Cons.prems(1) by (auto split: option.splits)
  have "wire_apply (as_text m) (event_of we) = as_text (ev_apply m ev)"
    using wire_apply_event [OF w(1)] Cons.prems(2) by simp
  with Cons.IH [OF w(2)] Cons.prems(2) w(3) show ?case by simp
qed simp

lemma wire_decides:
  assumes "those (map to_watch_event evs) = Some wes" and "\<forall>ev \<in> set evs. event_text ev" and "k \<in> ev_key ` set evs"
  shows "foldl wire_apply m (map event_of wes) k = foldl wire_apply m' (map event_of wes) k"
  using assms
proof (induction evs arbitrary: m m' wes)
  case (Cons ev evs)
  obtain we wes' where w: "to_watch_event ev = Some we" "those (map to_watch_event evs) = Some wes'" "wes = we # wes'"
    using Cons.prems(1) by (auto split: option.splits)
  show ?case
  proof (cases "k = ev_key ev")
    case True
    have "wiKey (the (wvEntry (event_of we))) = ev_key ev" "wvType (event_of we) \<in> {''PUT'', ''DELETE''}"
      using w(1) Cons.prems(2)
      by (auto simp: to_watch_event_def event_text_def event_of_def item_of_def entryToConfig_def ev_key_def
          EventType_String_def utf8_coerce_valid utf8_coerce_ascii split: option.splits EventType.splits)
    then have "wire_apply m (event_of we) k = wire_apply m' (event_of we) k"
      using True by (auto simp: wire_apply_def event_of_def split: option.splits)
    from wire_fold_cong [of "wire_apply m (event_of we)" k "wire_apply m' (event_of we)", OF this] show ?thesis by (simp add: w(3))
  next
    case False
    then show ?thesis using Cons.IH [OF w(2)] Cons.prems(2,3) by (simp add: w(3))
  qed
qed simp

section \<open>The client against the server\<close>

text \<open>
  The client's copy is in step with a store under a prefix: the same values, as text, and the
  store's revision.
\<close>

definition in_sync :: "'db bolt \<Rightarrow> 'f Client \<Rightarrow> 'db WatchableStore \<Rightarrow> string \<Rightarrow> bool" where
  "in_sync B c ws p \<longleftrightarrow> c_revision c = ws_Rev ws \<and>
     (\<forall>k. HasPrefix k p \<longrightarrow> map_of (c_configs c) k = as_text (kv_values (ws_abs B ws)) k)"

lemma configKey_ns:
  assumes "slash \<notin> set t" "slash \<notin> set n"
  shows "configKey (config_path @ t @ ''/'' @ n) = Inr (t, n, [])"
proof (cases "n = []")
  case True
  have "TrimSuffix (t @ [slash]) [slash] = t" by simp
  then show ?thesis using assms(1) True by (simp add: configKey_def Let_def SplitN_nosep numeral_3_eq_3 del: SplitN.simps(3))
next
  case False
  have "last n \<noteq> slash" using False assms(2) last_in_set by metis
  then have "\<not> HasSuffix (t @ slash # n) [slash]" using False by (simp add: HasSuffix_char)
  then show ?thesis
    using assms False
    by (simp add: configKey_def TrimSuffix_id SplitN_sep SplitN_nosep numeral_3_eq_3 Let_def del: SplitN.simps(3))
qed

lemma handleConfig_list:
  assumes "slash \<notin> set t" "slash \<notin> set n" and "rq_Method r = ''GET''" "rq_Path r = config_path @ t @ ''/'' @ n"
  shows "fst (handleConfig_reads S later later' srv r) = handleList_reads S later srv t n"
  using configKey_ns [OF assms(1,2)] assms(3,4) by (simp add: handleConfig_reads_def)

context kv_store
begin

lemma pull_body_list:
  assumes "invar (srv_store srv)" and "pickAddr cfg = Inr addr"
    and "get (pull_url cfg addr) = Inr (handleList_reads S later srv t n)"
  shows "pull_body get cfg = Some (Inr \<lparr>wcRevision = st_Rev S (later (srv_store srv)),
    wcConfigs = map (\<lambda>e. item_of (entryToConfig e)) (kv_list (srv_abs srv) (listPrefix t n))\<rparr>)"
  using assms
  by (simp add: pull_body_def handleList_reads_def list_spec Let_def writeJSON_def decode_configs_json comp_def)

text \<open>The listed items are the values under the prefix, as text.\<close>

lemma list_items:
  assumes "invar s" and "\<And>k e. kv_map (abs s) k = Some e \<Longrightarrow> HasPrefix k p \<Longrightarrow>
      utf8_valid k \<and> utf8_valid (bytes_str (eValue e))"
  defines "kvs \<equiv> map (\<lambda>i. (wiKey i, wiValue i)) (map (\<lambda>e. item_of (entryToConfig e)) (kv_list (abs s) p))"
  shows "(k, v) \<in> set kvs \<longleftrightarrow> HasPrefix k p \<and> as_text (kv_values (abs s)) k = Some (Some v)"
proof -
  have list: "set (kv_list (abs s) p) = {e. \<exists>k. kv_map (abs s) k = Some e \<and> HasPrefix k p}"
    using mem_list [OF assms(1), of p] list_spec [OF assms(1), of p] by auto
  have key: "utf8_coerce (eKey e) = k" "utf8_coerce (bytes_str (eValue e)) = bytes_str (eValue e)"
    if "kv_map (abs s) k = Some e" "HasPrefix k p" for k e
    using keys_ok [OF assms(1) that(1)] assms(2) [OF that] by (simp_all add: utf8_coerce_valid)
  show ?thesis
  proof
    assume "(k, v) \<in> set kvs"
    then obtain e k0 where e: "kv_map (abs s) k0 = Some e" "HasPrefix k0 p"
        "k = utf8_coerce (eKey e)" "v = utf8_coerce (bytes_str (eValue e))"
      by (auto simp: kvs_def list item_of_def entryToConfig_def)
    then show "HasPrefix k p \<and> as_text (kv_values (abs s)) k = Some (Some v)"
      using key [OF e(1,2)] by (simp add: as_text_def kv_values_def)
  next
    assume a: "HasPrefix k p \<and> as_text (kv_values (abs s)) k = Some (Some v)"
    then obtain e where e: "kv_map (abs s) k = Some e" "v = bytes_str (eValue e)"
      by (auto simp: as_text_def kv_values_def)
    then have "e \<in> set (kv_list (abs s) p)" using a by (auto simp: list)
    moreover have "(k, v) = (wiKey (item_of (entryToConfig e)), wiValue (item_of (entryToConfig e)))"
      using key [OF e(1)] a e(2) by (simp add: item_of_def entryToConfig_def)
    ultimately show "(k, v) \<in> set kvs" unfolding kvs_def by (metis (no_types, lifting) imageI list.set_map)
  qed
qed

end

section \<open>The cache file reads back\<close>

lemma keys_sorted: "sort (remdups (map fst kvs)) = sorted_list_of_set (dom (map_of kvs))"
  using sorted_list_of_set_sort_remdups [of "map fst kvs"] by (simp add: dom_map_of_conv_image_fst)

lemma map_json_cong: "map_of a = map_of b \<Longrightarrow> map_json a = map_json b"
  by (simp add: map_json_def keys_sorted)

definition strings_valid :: "(string \<times> string) list \<Rightarrow> bool" where
  "strings_valid kvs \<longleftrightarrow> (\<forall>(k, v) \<in> set kvs. utf8_valid k \<and> utf8_valid v)"

lemma map_json_wf [simp]: "wf_json (map_json kvs)"
  by (simp add: map_json_def list_all_iff)

lemma map_json_coerced: "strings_valid kvs \<Longrightarrow> coerced (map_json kvs) = map_json kvs"
  by (auto simp: map_json_def strings_valid_def utf8_coerce_valid dest!: map_of_SomeD intro!: map_cong)
    (metis (no_types, lifting) case_prodD fst_conv map_of_eq_None_iff option.collapse prod.collapse map_of_SomeD
      image_eqI utf8_coerce_valid)+

lemma set_string_members_map:
  "set_string_members (map (\<lambda>k. (k, JStr (f k))) ks) m
     = Some (foldl (\<lambda>m k. AList.update k (f k) m) m ks)"
  by (induction ks arbitrary: m) auto

lemma foldl_update_map:
  "map_of (foldl (\<lambda>m k. AList.update k (f k) m) m ks) k = (if k \<in> set ks then Some (f k) else map_of m k)"
  by (induction ks arbitrary: m) (auto simp: update_conv')

lemma foldl_update_distinct:
  "distinct (map fst m) \<Longrightarrow> distinct (map fst (foldl (\<lambda>m k. AList.update k (f k) m) m ks))"
  by (induction ks arbitrary: m) (simp_all add: distinct_update)

lemma set_string_map_json:
  obtains m where "set_string_map None (map_json kvs) = Some (Some m)" "map_of m = map_of kvs" "distinct (map fst m)"
proof -
  let ?f = "\<lambda>k. the (map_of kvs k)" and ?ks = "sort (remdups (map fst kvs))"
  let ?m = "foldl (\<lambda>m k. AList.update k (?f k) m) [] ?ks"
  have ks: "set ?ks = fst ` set kvs" by simp
  have "map_of ?m k = map_of kvs k" for k
    unfolding foldl_update_map ks using map_of_eq_None_iff [of kvs k] by (cases "map_of kvs k") simp_all
  then have "map_of ?m = map_of kvs" by (rule ext)
  moreover have "set_string_map None (map_json kvs) = Some (Some ?m)"
    unfolding set_string_map_def map_json_def by (simp add: set_string_members_map)
  moreover have "distinct (map fst ?m)" by (rule foldl_update_distinct) simp
  ultimately show ?thesis using that by blast
qed

lemma set_cache_field_simps [simp]:
  "set_cache_field ''checksum'' (JStr x) cf = Some (cf\<lparr>cf_CheckSum := x\<rparr>)"
  "set_cache_field ''revision'' (json_uint n) cf = Some (cf\<lparr>cf_Revision := n\<rparr>)"
  "set_cache_field ''configs'' j cf = map_option (\<lambda>x. cf\<lparr>cf_Configs := x\<rparr>) (set_string_map (cf_Configs cf) j)"
  by (simp_all add: set_cache_field_def field_name_def del: fold_name.simps)

lemma decode_cache_json:
  assumes "strings_valid kvs" and "utf8_valid digest"
  obtains m where "decode_cache (marshal_indent ''  '' (cache_json \<lparr>cf_CheckSum = digest, cf_Revision = r, cf_Configs = Some kvs\<rparr>))
      = Some \<lparr>cf_CheckSum = digest, cf_Revision = r, cf_Configs = Some m\<rparr>" "map_of m = map_of kvs" "distinct (map fst m)"
proof -
  let ?j = "cache_json \<lparr>cf_CheckSum = digest, cf_Revision = r, cf_Configs = Some kvs\<rparr>"
  have "wf_json ?j" by (simp add: cache_json_def configs_json_def)
  then have u: "unmarshal (marshal_indent ''  '' ?j) = Some (coerced ?j)"
    by (intro unmarshal_marshal_indent) (simp_all add: is_ws_def)
  have c: "coerced ?j = JObj [(''checksum'', JStr digest), (''revision'', json_uint r), (''configs'', map_json kvs)]"
    using assms by (simp add: cache_json_def configs_json_def map_json_coerced utf8_coerce_valid)
  obtain m where "set_string_map None (map_json kvs) = Some (Some m)" "map_of m = map_of kvs" "distinct (map fst m)"
    by (rule set_string_map_json)
  then show ?thesis using that u c by (simp add: decode_cache_def)
qed

lemma sha256Sum_valid: "utf8_valid (sha256Sum data)"
  unfolding sha256Sum_def by (rule utf8_valid_ascii [OF hex_encode_ascii])

text \<open>Loading what was saved gives the saved copy, with the values as text.\<close>

lemma load_saved:
  fixes c d :: "'f Client"
  assumes path: "cachePath (c_config c) \<noteq> None" "c_config d = c_config c"
    and valid: "\<forall>(k, v) \<in> set (c_configs c). utf8_valid k \<and> utf8_valid (bytes_str v)"
    and honest: "\<And>old out. write old out = Some out"
    and d: "c_configs d = []" "c_file d = c_file (saveToCache write c)"
  shows "\<exists>d'. loadFromCache d = (None, d') \<and> c_revision d' = c_revision c \<and>
    map_of (c_configs d') = as_text (map_of (c_configs c))"
proof -
  let ?kvs = "map (\<lambda>(k, v). (k, bytes_str v)) (c_configs c)"
  have "strings_valid ?kvs" using valid by (auto simp: strings_valid_def)
  then obtain m where m: "decode_cache (marshal_indent ''  '' (cache_json
        \<lparr>cf_CheckSum = sha256Sum (marshal (map_json ?kvs)), cf_Revision = c_revision c, cf_Configs = Some ?kvs\<rparr>))
      = Some \<lparr>cf_CheckSum = sha256Sum (marshal (map_json ?kvs)), cf_Revision = c_revision c, cf_Configs = Some m\<rparr>"
      "map_of m = map_of ?kvs" "distinct (map fst m)"
    using decode_cache_json [OF _ sha256Sum_valid] by blast
  have content: "c_file d = Some (marshal_indent ''  '' (cache_json
        \<lparr>cf_CheckSum = sha256Sum (marshal (map_json ?kvs)), cf_Revision = c_revision c, cf_Configs = Some ?kvs\<rparr>))"
    using path(1) d(2) honest by (auto simp: saveToCache_def Let_def)
  have "map_json m = map_json ?kvs" using m(2) by (rule map_json_cong)
  then have load: "\<exists>d'. loadFromCache d = (None, d') \<and> c_revision d' = c_revision c \<and> c_configs d' = store_strings m []"
    using path content m(1) d(1) by (auto simp: loadFromCache_def Let_def configs_json_def count_def)
  have "map_of (store_strings m []) k = (if k \<in> fst ` set m then map_option Some (map_of m k) else map_of [] k)" for k
    using m(3) by (intro map_of_store_strings) simp
  then have "map_of (store_strings m []) k = map_option Some (map_of m k)" for k
    using map_of_eq_None_iff [of m k] by (cases "map_of m k") simp_all
  moreover have "map_of ?kvs k = map_option bytes_str (map_of (c_configs c) k)" for k
    by (simp add: map_of_map)
  ultimately have "map_of (store_strings m []) = as_text (map_of (c_configs c))"
    using m(2) by (simp add: fun_eq_iff as_text_def option.map_comp comp_def)
  then show ?thesis using load by metis
qed

section \<open>Properties of the client\<close>

text \<open>C5: what a full pull brings. The server lists the namespace in one state of its store and reads the
  revision for the answer afterwards, when other requests may have been served: \<open>later\<close> is what
  they made of the store. Against a well-formed store whose keys and values in the namespace are
  valid UTF-8, the first full pull of a client succeeds; its copy holds exactly the values of the
  namespace in the listed state and no other key, and its revision is that of the later state.
  So it is in step with the later state exactly when the values of the namespace did not change
  in between, and always when nothing was written.\<close>

theorem full_pull_in_sync:
  assumes "bolt_api B" and "ws_wf B (srv_store srv)"
    and "slash \<notin> set (cfg_Tenant (c_config c))" "slash \<notin> set (cfg_Namespace (c_config c))"
    and "\<And>k e. kv_map (ws_abs B (srv_store srv)) k = Some e \<Longrightarrow>
      HasPrefix k (listPrefix (cfg_Tenant (c_config c)) (cfg_Namespace (c_config c))) \<Longrightarrow>
      utf8_valid k \<and> utf8_valid (bytes_str (eValue e))"
    and "pickAddr (c_config c) = Inr addr" and "rq_Method r = ''GET''"
    and "rq_Path r = config_path @ cfg_Tenant (c_config c) @ ''/'' @ cfg_Namespace (c_config c)"
    and "get (pull_url (c_config c) addr) = Inr (fst (handleConfig_reads (watchable_ops B) later later' srv r))"
    and "c_configs c = []" and "listPrefix (cfg_Tenant (c_config c)) (cfg_Namespace (c_config c)) = p"
  shows "\<exists>c'. fullPull write get c = Some (None, c') \<and> c_revision c' = ws_Rev (later (srv_store srv)) \<and>
    (\<forall>k. map_of (c_configs c') k = (if HasPrefix k p then as_text (kv_values (ws_abs B (srv_store srv))) k else None)) \<and>
    (in_sync B c' (later (srv_store srv)) p \<longleftrightarrow> (\<forall>k. HasPrefix k p \<longrightarrow>
       as_text (kv_values (ws_abs B (later (srv_store srv)))) k = as_text (kv_values (ws_abs B (srv_store srv))) k)) \<and>
    (later (srv_store srv) = srv_store srv \<longrightarrow> in_sync B c' (srv_store srv) p)"
proof -
  let ?t = "cfg_Tenant (c_config c)" and ?n = "cfg_Namespace (c_config c)" and ?a = "ws_abs B (srv_store srv)"
  let ?g = "\<lambda>k. map_option bytes_str (kv_values (ws_abs B (srv_store srv)) k)"
  define items where "items = map (\<lambda>e. item_of (entryToConfig e)) (kv_list ?a p)"
  define kvs where "kvs = map (\<lambda>i. (wiKey i, wiValue i)) items"
  have S: "kv_store (watchable_ops B) (ws_abs B) (ws_wf B)" by (rule bolt_api.ws_kv_store [OF assms(1)])
  have "get (pull_url (c_config c) addr) = Inr (handleList_reads (watchable_ops B) later srv ?t ?n)"
    using assms(9) handleConfig_list [OF assms(3,4,7,8), of "watchable_ops B" later later' srv] by simp
  then have pull: "pull_body get (c_config c) = Some (Inr \<lparr>wcRevision = ws_Rev (later (srv_store srv)), wcConfigs = items\<rparr>)"
    using kv_store.pull_body_list [where get = get, OF S assms(2,6)] by (simp add: items_def assms(11))
  have mem: "(k, v) \<in> set kvs \<longleftrightarrow> HasPrefix k p \<and> ?g k = Some v" for k v
    using kv_store.list_items [OF S assms(2), of p k v, OF assms(5) [unfolded assms(11)]]
    by (simp add: kvs_def items_def as_text_def option.map_comp comp_def)
  have "map_of (store_strings kvs []) k = (if k \<in> fst ` set kvs then map_option Some (?g k) else map_of [] k)" for k
    using mem by (intro map_of_store_strings) blast
  moreover have "k \<in> fst ` set kvs \<longleftrightarrow> HasPrefix k p \<and> (\<exists>v. ?g k = Some v)" for k
    unfolding image_iff using mem by (metis fst_conv prod.collapse)
  ultimately have copy: "map_of (store_strings kvs []) k = (if HasPrefix k p then as_text (kv_values ?a) k else None)" for k
    by (cases "kv_values ?a k") (simp_all add: as_text_def)
  obtain c' where c': "fullPull write get c = Some (None, c')" "c_revision c' = ws_Rev (later (srv_store srv))"
    "c_configs c' = store_strings kvs []"
    using pull assms(10) by (simp add: fullPull_def Let_def kvs_def)
  then show ?thesis using copy by (intro exI [of _ c']) (auto simp: in_sync_def)
qed

definition demo_config :: Config where
  "demo_config = \<lparr>cfg_Addrs = [''h:80''], cfg_Tenant = ''t'', cfg_Namespace = ''n'', cfg_CacheDir = ''d'',
     cfg_PollTimeout = 30 * second, cfg_RetryBackoff = second\<rparr>"

definition demo_sdk :: "string Client" where
  "demo_sdk = new_client demo_config None"

lemma demo_sdk_simps [simp]:
  "c_config demo_sdk = demo_config" "c_configs demo_sdk = []" "c_revision demo_sdk = 0" "c_file demo_sdk = None"
  "pickAddr demo_config = Inr ''h:80''" "cfg_Tenant demo_config = ''t''" "cfg_Namespace demo_config = ''n''"
  by (simp_all add: demo_sdk_def new_client_def default_config_def demo_config_def Let_def second_def pickAddr_def)

theorem full_pull_in_sync_witness:
  "\<exists>c'. fullPull (\<lambda>_. Some)
      (\<lambda>_. Inr (fst (handleConfig_reads (watchable_ops mem_sure) id id (snd demo_put_resp) (demo_request ''GET'' ''/api/v1/config/t/n'' []))))
      demo_sdk = Some (None, c') \<and>
    in_sync mem_sure c' (srv_store (snd demo_put_resp)) ''t/n/'' \<and> map_of (c_configs c') ''t/n/m'' = Some (Some ''v'')"
proof -
  let ?ws = "srv_store (snd demo_put_resp)" and ?r = "demo_request ''GET'' ''/api/v1/config/t/n'' []"
  have wf: "ws_wf mem_sure ?ws" and abs: "ws_abs mem_sure ?ws = kv_put kv_empty ''t/n/m'' (Some ''v'')"
    using demo_put_resp_ok by auto
  have "utf8_valid ''t/n/m''" "utf8_valid ''v''" by (simp_all add: utf8_valid_ascii)
  then have plain: "utf8_valid k \<and> utf8_valid (bytes_str (eValue e))" if "kv_map (ws_abs mem_sure ?ws) k = Some e" for k e
    using that unfolding abs by (auto simp: kv_put_def kv_empty_def kv_next_def Let_def split: if_splits)
  have p: "listPrefix (cfg_Tenant (c_config demo_sdk)) (cfg_Namespace (c_config demo_sdk)) = ''t/n/''" by (simp add: listPrefix_def)
  have r: "slash \<notin> set (cfg_Tenant (c_config demo_sdk))" "slash \<notin> set (cfg_Namespace (c_config demo_sdk))"
    "pickAddr (c_config demo_sdk) = Inr ''h:80''" "rq_Method ?r = ''GET''"
    "rq_Path ?r = config_path @ cfg_Tenant (c_config demo_sdk) @ ''/'' @ cfg_Namespace (c_config demo_sdk)" "c_configs demo_sdk = []"
    by (simp_all add: demo_request_def config_path_def)
  obtain c' where c': "fullPull (\<lambda>_. Some) (\<lambda>_. Inr (fst (handleConfig_reads (watchable_ops mem_sure) id id (snd demo_put_resp) ?r)))
      demo_sdk = Some (None, c')" "in_sync mem_sure c' ?ws ''t/n/''"
    using full_pull_in_sync [where get = "\<lambda>_. Inr (fst (handleConfig_reads (watchable_ops mem_sure) id id (snd demo_put_resp) ?r))",
        OF sure.bolt_api_axioms wf r(1,2) plain r(3,4,5) refl r(6) p, of "\<lambda>_. Some"] by auto
  have "kv_values (ws_abs mem_sure ?ws) ''t/n/m'' = Some (Some ''v'')" unfolding abs by (simp add: kv_values_put)
  moreover have "HasPrefix ''t/n/m'' ''t/n/''" by (simp add: HasPrefix_def)
  ultimately show ?thesis using c' by (auto simp: in_sync_def as_text_def)
qed

text \<open>
  What a poll does to the copy: the events of the answer are applied in order, and the revision of
  the answer is taken over unless it is zero.
\<close>

lemma poll_view:
  assumes "\<forall>ev \<in> set evs. event_text ev" and "pickAddr (c_config c) = Inr addr"
    and "get (watch_url (c_config c) addr (c_revision c)) = Inr (watch_reply rev1 rev2 evs)"
  obtains t wes where "watch_turn write get c = Some t" "\<not> t_backoff t" "those (map to_watch_event evs) = Some wes"
    "map_of (c_configs (t_client t)) = foldl wire_apply (map_of (c_configs c)) (map event_of wes)"
    "c_revision (t_client t) = (if 0 < rev2 then rev2 else c_revision c)"
proof -
  have "\<forall>ev \<in> set evs. evEntry ev \<noteq> None" using assms(1) by (auto simp: event_text_def split: option.splits)
  from to_watch_event_total [OF this] obtain wes where wes: "those (map to_watch_event evs) = Some wes" by blast
  have dec: "decode_watch (rsp_Body (watch_reply rev1 rev2 evs)) = Some \<lparr>wwRevision = rev2, wwEvents = map event_of wes\<rparr>"
    by (simp add: watch_reply_def wes decode_watch_json)
  show ?thesis
  proof (cases "wes = []")
    case True
    then show ?thesis using that [of _ wes] assms(2,3) dec wes by (simp add: watch_turn_def)
  next
    case False
    obtain c1 calls where c1: "applyEvents (count ''watch_polls'' ''events'' c) (map event_of wes) = Some (c1, calls)"
      "map_of (c_configs c1) = foldl wire_apply (map_of (c_configs c)) (map event_of wes)"
      "c_revision c1 = c_revision c" "c_config c1 = c_config c"
      using applyEvents_view [of "map event_of wes" "count ''watch_polls'' ''events'' c"] by (auto simp: event_of_def)
    with False show ?thesis using that [of _ wes] assms(2,3) dec wes by (simp add: watch_turn_def Let_def)
  qed
qed

lemma demo_run:
  defines "ws \<equiv> srv_store demo_server" and "ops \<equiv> [WPut ''t/n/m'' (Some ''v'')]"
  shows "getEventsLocked (ws_wc (ws_run mem_sure ws ops)) 0 ''t/n/'' = Some [put_event kv_empty ''t/n/m'' (Some ''v'')]"
    and "event_text (put_event kv_empty ''t/n/m'' (Some ''v''))" and "in_sync mem_sure demo_sdk ws ''t/n/''"
    and "wc_capacity (ws_wc ws) = 4096" and "ws_Rev ws = 0"
proof -
  let ?k = "''t/n/m''" and ?v = "Some ''v''"
  have hist: "ws_hist mem_sure ws []"
    using demo_server_ok(1) NewWatchCache_log [of 4096]
    by (auto simp: ws_def demo_server_def demo_fsm_def NewWatchableStore_def ws_wf_def ws_hist_def log_revs_def
        defaultWatchCacheSize_def)
  show rev: "ws_Rev ws = 0" and cap: "wc_capacity (ws_wc ws) = 4096"
    using demo_server_ok(2)
    by (simp_all add: ws_def ws_Rev_def bs_Rev_def demo_server_def demo_fsm_def NewWatchableStore_def NewWatchCache_def
        defaultWatchCacheSize_def)
  have r: "bs_rev (ws_bs ws) < max_rev" using rev by (simp add: ws_Rev_def bs_Rev_def max_rev_def)
  obtain ws' where put: "ws_Put mem_sure ws ?k ?v = (Inr \<lparr>prEntry = Some (kv_next kv_empty ?k ?v), prPrevEntry = kv_map kv_empty ?k\<rparr>, ws')"
    using sure.ws_Put_sure [OF demo_server_ok(1) r [unfolded ws_def], of ?k ?v] demo_server_ok(3)
    by (auto simp: ws_def blank_key_def)
  have "ws_hist mem_sure ws' [put_event kv_empty ?k ?v]" "wc_capacity (ws_wc ws') = 4096"
    using sure.ws_Put_ok [OF hist r put] demo_server_ok(3) cap by (auto simp: ws_def)
  then have "getEventsLocked (ws_wc ws') 0 ''t/n/'' = Some (filter (wanted 0 ''t/n/'') [put_event kv_empty ?k ?v])"
    using getEventsLocked_log [of "ws_wc ws'" "[put_event kv_empty ?k ?v]"] by (simp add: ws_hist_def last_n_def)
  moreover have "wanted 0 ''t/n/'' (put_event kv_empty ?k ?v)"
    by (simp add: wanted_def put_event_def kv_next_def kv_empty_def Let_def HasPrefix_def)
  ultimately show "getEventsLocked (ws_wc (ws_run mem_sure ws ops)) 0 ''t/n/'' = Some [put_event kv_empty ?k ?v]"
    using put by (simp add: ws_run_def ws_exec_def ops_def)
  show "event_text (put_event kv_empty ?k ?v)"
    by (simp add: event_text_def put_event_def kv_next_def Let_def utf8_valid_ascii)
  have "kv_values (ws_abs mem_sure ws) = (\<lambda>_. None)"
    unfolding ws_def demo_server_ok(3) by (simp add: kv_values_def kv_empty_def fun_eq_iff)
  then show "in_sync mem_sure demo_sdk ws ''t/n/''" using rev by (simp add: in_sync_def as_text_def)
qed

lemma demo_run_abs:
  "ws_abs mem_sure (ws_run mem_sure (srv_store demo_server) [WPut ''t/n/m'' (Some ''v'')]) = kv_put kv_empty ''t/n/m'' (Some ''v'')"
  "bs_rev (ws_bs (ws_run mem_sure (srv_store demo_server) [WPut ''t/n/m'' (Some ''v'')])) = 1"
proof -
  have r: "bs_rev (ws_bs (srv_store demo_server)) < max_rev"
    using demo_run(5) by (simp add: ws_Rev_def bs_Rev_def max_rev_def)
  show abs: "ws_abs mem_sure (ws_run mem_sure (srv_store demo_server) [WPut ''t/n/m'' (Some ''v'')])
      = kv_put kv_empty ''t/n/m'' (Some ''v'')"
    using sure.ws_Put_sure [OF demo_server_ok(1) r, of "''t/n/m''" "Some ''v''"]
    unfolding demo_server_ok(3) by (auto simp: blank_key_def ws_run_def ws_exec_def)
  show "bs_rev (ws_bs (ws_run mem_sure (srv_store demo_server) [WPut ''t/n/m'' (Some ''v'')])) = 1"
    using arg_cong [OF abs, of kv_rev] by (simp add: kv_put_def kv_empty_def)
qed

text \<open>Without an address there is no client.\<close>

lemma default_config_Addrs [simp]: "cfg_Addrs (default_config cfg) = cfg_Addrs cfg"
  by (simp add: default_config_def Let_def)

lemma New_panics: "New write get cfg file = None \<longleftrightarrow> cfg_Addrs cfg = []"
  by (simp add: New_def fullPull_def pull_body_def new_client_def pickAddr_def split: list.splits)

text \<open>C36: the fallback to the cache. A client whose first pull fails starts from the file that an
  earlier client of the same configuration saved: it has the saved revision and every saved
  key with its value, provided that they are valid UTF-8 and the write to the file succeeded. A
  failed pull is one that has an address to ask and gets an error, a status other than 200 or an
  undecodable body; without an address \<^verbatim>\<open>New\<close> panics, and there is no client (\<open>New_panics\<close>).\<close>

theorem cache_fallback:
  fixes c :: "'f Client"
  assumes "cachePath (c_config c) \<noteq> None" and "c_config c = default_config cfg"
    and "\<forall>(k, v) \<in> set (c_configs c). utf8_valid k \<and> utf8_valid (bytes_str v)"
    and "\<And>old out. write old out = Some out"
    and "pull_body get (default_config cfg) = Some (Inl e)"
  shows "\<exists>d :: 'f Client. New write get cfg (c_file (saveToCache write c)) = Some d \<and>
    c_revision d = c_revision c \<and> map_of (c_configs d) = as_text (map_of (c_configs c))"
proof -
  let ?d = "count ''full_pulls'' ''error'' (new_client cfg (c_file (saveToCache write c))) :: 'f Client"
  have d: "c_config ?d = c_config c" "c_configs ?d = []" "c_file ?d = c_file (saveToCache write c)"
    using assms(2) by (simp_all add: new_client_def)
  have "fullPull write get (new_client cfg (c_file (saveToCache write c)) :: 'f Client) = Some (Some e, ?d)"
    using assms(5) by (simp add: fullPull_def new_client_def)
  then show ?thesis
    using load_saved [OF assms(1) d(1) assms(3,4) d(2,3)] by (auto simp: New_def)
qed

theorem cache_fallback_witness:
  "\<exists>d :: string Client. New (\<lambda>_. Some) (\<lambda>_. Inl (ErrLib ''connection refused'')) demo_config
      (c_file (saveToCache (\<lambda>_. Some) (demo_sdk\<lparr>c_configs := [(''t/n/m'', Some ''v'')], c_revision := 7\<rparr>))) = Some d \<and>
    c_revision d = 7 \<and> map_of (c_configs d) ''t/n/m'' = Some (Some ''v'')"
proof -
  let ?c = "demo_sdk\<lparr>c_configs := [(''t/n/m'', Some ''v'')], c_revision := 7\<rparr>"
  have cfg: "default_config demo_config = demo_config"
    by (simp add: default_config_def demo_config_def second_def Let_def)
  have p: "cachePath (c_config ?c) \<noteq> None" by (simp add: cachePath_def) (simp add: demo_config_def)
  have v: "\<forall>(k, v) \<in> set (c_configs ?c). utf8_valid k \<and> utf8_valid (bytes_str v)" by (simp add: utf8_valid_ascii)
  have e: "pull_body (\<lambda>_. Inl (ErrLib ''connection refused'')) (default_config demo_config) = Some (Inl (ErrLib ''connection refused''))"
    by (simp add: cfg pull_body_def)
  from cache_fallback [OF p _ v _ e, of "\<lambda>_. Some"] cfg show ?thesis by (auto simp: as_text_def)
qed

text \<open>A damaged cache is not used. A load that fails, whether there is no file, the text is not
  the JSON of a cache or the checksum does not match the configuration in it, leaves the
  local copy and the revision alone; a load that succeeds has found the checksum of exactly
  the configuration it takes over.\<close>

lemma cache_load_validates:
  assumes "loadFromCache c = (r, c')"
  shows "case r of
      Some e \<Rightarrow> c_configs c' = c_configs c \<and> c_revision c' = c_revision c
    | None \<Rightarrow> (\<exists>data cf. c_file c = Some data \<and> decode_cache data = Some cf \<and>
        cf_CheckSum cf = sha256Sum (marshal (configs_json (cf_Configs cf))) \<and> c_revision c' = cf_Revision cf)"
  using assms by (auto simp: loadFromCache_def Let_def count_def split: option.splits if_splits)

text \<open>C38: the answer of a poll can make the client skip a change for good. The handler reads the
  revision after the events; if writes happen in between, the client adopts a revision that
  covers them without their events. A client in step with the store, answered with the
  events of the state \<open>ws\<close> but the revision of a later state \<open>ws'\<close>, keeps its old values, and
  the watch cache has nothing more for it at the revision it now asks with.\<close>

theorem watch_race_stale:
  assumes "bolt_api B" and "ws_wf B ws" and "in_sync B c ws p"
    and "unat (ws_Rev ws) + length ops < 2 ^ 64" and "\<forall>w \<in> set ops. utf8_valid (op_key w)"
    and "getEventsLocked (ws_wc ws) (c_revision c) p = Some evs"
    and "pickAddr (c_config c) = Inr addr" and "0 < ws_Rev (ws_run B ws ops)"
    and "get (watch_url (c_config c) addr (c_revision c)) = Inr (watch_reply rev1 (ws_Rev (ws_run B ws ops)) evs)"
    and "HasPrefix k p" and "as_text (kv_values (ws_abs B (ws_run B ws ops))) k \<noteq> as_text (kv_values (ws_abs B ws)) k"
  shows "\<exists>t. watch_turn write get c = Some t \<and>
    map_of (c_configs (t_client t)) k \<noteq> as_text (kv_values (ws_abs B (ws_run B ws ops))) k \<and>
    getEventsLocked (ws_wc (ws_run B ws ops)) (c_revision (t_client t)) p = Some []"
proof -
  have rev: "c_revision c = ws_Rev ws" and copy: "map_of (c_configs c) k = as_text (kv_values (ws_abs B ws)) k"
    using assms(3,10) by (simp_all add: in_sync_def)
  have "evs = []" using bolt_api.ws_query_current [OF assms(1,2), of p] assms(6) rev by simp
  then have dec: "decode_watch (rsp_Body (watch_reply rev1 (ws_Rev (ws_run B ws ops)) evs))
      = Some \<lparr>wwRevision = ws_Rev (ws_run B ws ops), wwEvents = []\<rparr>"
    by (simp add: watch_reply_def decode_watch_json [of _ "[]", simplified])
  have wf: "ws_wf B (ws_run B ws ops)" by (rule bolt_api.ws_run_wf(1) [OF assms(1,2,4,5)])
  show ?thesis
    using dec assms(7-9,11) copy bolt_api.ws_query_current [OF assms(1) wf, of p]
    by (simp add: watch_turn_def)
qed

theorem watch_race_stale_witness:
  "\<exists>t. watch_turn (\<lambda>_. Some)
      (\<lambda>_. Inr (watch_reply 0 (ws_Rev (ws_run mem_sure (srv_store demo_server) [WPut ''t/n/m'' (Some ''v'')])) [])) demo_sdk = Some t \<and>
    map_of (c_configs (t_client t)) ''t/n/m''
      \<noteq> as_text (kv_values (ws_abs mem_sure (ws_run mem_sure (srv_store demo_server) [WPut ''t/n/m'' (Some ''v'')]))) ''t/n/m''"
proof -
  let ?ws = "srv_store demo_server" and ?ops = "[WPut ''t/n/m'' (Some ''v'')]"
  have valid: "\<forall>w \<in> set ?ops. utf8_valid (op_key w)" by (simp add: op_key_def utf8_valid_ascii)
  have b: "unat (ws_Rev ?ws) + length ?ops < 2 ^ 64" by (simp add: demo_run(5))
  have q: "getEventsLocked (ws_wc ?ws) (c_revision demo_sdk) ''t/n/'' = Some []"
    using sure.ws_query_current [OF demo_server_ok(1), of "''t/n/''"] demo_run(5) by simp
  have a: "pickAddr (c_config demo_sdk) = Inr ''h:80''" by simp
  have p: "HasPrefix ''t/n/m'' ''t/n/''" by (simp add: HasPrefix_def)
  have "kv_values (ws_abs mem_sure (ws_run mem_sure ?ws ?ops)) ''t/n/m'' = Some (Some ''v'')"
    and r: "0 < ws_Rev (ws_run mem_sure ?ws ?ops)"
    using demo_run_abs by (simp_all add: kv_values_put ws_Rev_def bs_Rev_def)
  moreover have "kv_values (ws_abs mem_sure ?ws) ''t/n/m'' = None"
    unfolding demo_server_ok(3) by (simp add: kv_values_def kv_empty_def)
  ultimately have d: "as_text (kv_values (ws_abs mem_sure (ws_run mem_sure ?ws ?ops))) ''t/n/m''
      \<noteq> as_text (kv_values (ws_abs mem_sure ?ws)) ''t/n/m''" by (simp add: as_text_def)
  show ?thesis
    using watch_race_stale [OF sure.bolt_api_axioms demo_server_ok(1) demo_run(3) b valid q a r,
        where get = "\<lambda>_. Inr (watch_reply 0 (ws_Rev (ws_run mem_sure ?ws ?ops)) [])", OF refl p d, of "\<lambda>_. Some"]
    by blast
qed

text \<open>An error answer decodes as a response without events.\<close>

lemma error_answer:
  assumes "pickAddr (c_config c) = Inr addr"
    and "get (watch_url (c_config c) addr (c_revision c)) = Inr (httpError status msg)"
  shows "watch_turn write get c
    = Some \<lparr>t_client = count ''watch_polls'' ''empty'' c, t_calls = [], t_backoff = False\<rparr>"
proof -
  have "set_watch_field ''error'' j r = Some r" for j r
    by (simp add: set_watch_field_def field_name_def lower_char_def between_def)
  then have "decode_watch (rsp_Body (httpError status msg)) = Some \<lparr>wwRevision = 0, wwEvents = []\<rparr>"
    using decode_marshal [of "JObj [(''error'', JStr msg)]" "[CHR 0x0A]"]
    by (simp add: decode_watch_def httpError_def num_end_def num_char_def is_digit_def utf8_coerce_ascii)
  then show ?thesis using assms by (simp add: watch_turn_def set_revision_def)
qed

text \<open>C39: an error answer of the server is taken for an empty poll. Whatever the status and the
  message, the client decodes the error object as a response without events, keeps its state,
  and polls again at once, without the backoff.\<close>

theorem error_poll_spins:
  assumes "pickAddr (c_config c) = Inr addr"
    and "get (watch_url (c_config c) addr (c_revision c)) = Inr (httpError status msg)"
  shows "watch_turn write get c
    = Some \<lparr>t_client = count ''watch_polls'' ''empty'' c, t_calls = [], t_backoff = False\<rparr>"
  using error_answer [where get = get, OF assms] .

theorem error_poll_spins_witness:
  "watch_turn (\<lambda>_. Some) (\<lambda>_. Inr (httpError 400 ''invalid timeout: 0'')) demo_sdk
    = Some \<lparr>t_client = count ''watch_polls'' ''empty'' demo_sdk, t_calls = [], t_backoff = False\<rparr>"
  by (rule error_poll_spins [of _ "''h:80''"]) simp_all

text \<open>Two namespaces can share a cache file: the tenant and the namespace are joined with an
  underscore that both may contain.\<close>

lemma cache_path_collision:
  "cachePath (cfg\<lparr>cfg_Tenant := a @ ''_'' @ b, cfg_Namespace := d\<rparr>)
     = cachePath (cfg\<lparr>cfg_Tenant := a, cfg_Namespace := b @ ''_'' @ d\<rparr>)"
  by (simp add: cachePath_def)

end
