(* ===== verification/Sdk_Loop.thy ===== *)
theory Sdk_Loop
  imports Sdk_Client
begin

text \<open>
  The watch loop of \<^verbatim>\<open>sdk/client.go\<close> as a step relation: \<^verbatim>\<open>watchLoop\<close> with its context,
  \<^verbatim>\<open>sleep\<close> and \<^verbatim>\<open>Close\<close>, around \<open>watch_turn\<close>. The steps of the loop interleave with writes to the
  store and with the cancellation. The properties: the copy of the client is at every moment,
  up to the keys that the protocol can miss, the state of the namespace at some point of the
  store's history, and a cancelled loop ends.
\<close>

section \<open>The loop\<close>

text \<open>
  \<open>AtSelect\<close> is the check of the context at the head of the loop, \<open>Polling\<close> the request in
  flight, \<open>Backoff\<close> the sleep after a failed request, \<open>Crashed\<close> a panic.
\<close>

datatype loop_pc = AtSelect | Polling | Backoff | Stopped | Crashed

record 'f watch_loop =
  lw_client :: "'f Client"
  lw_cancelled :: bool
  lw_pc :: loop_pc
  lw_calls :: "('f \<times> string \<times> bytes \<times> bytes) list"

text \<open>The turn ends at the head of the loop or in the sleep.\<close>

definition after_turn :: "'f watch_loop \<Rightarrow> 'f turn \<Rightarrow> 'f watch_loop" where
  "after_turn w t = w\<lparr>lw_client := t_client t, lw_calls := lw_calls w @ t_calls t,
     lw_pc := (if t_backoff t then Backoff else AtSelect)\<rparr>"

text \<open>\<^verbatim>\<open>sleep\<close> returns when its time has elapsed or the context is cancelled.\<close>

definition sleep_returns :: "bool \<Rightarrow> bool \<Rightarrow> bool" where
  "sleep_returns elapsed cancelled \<longleftrightarrow> elapsed \<or> cancelled"

inductive loop_step ::
  "(string option \<Rightarrow> string \<Rightarrow> string option) \<Rightarrow> 'f watch_loop \<Rightarrow> 'f watch_loop \<Rightarrow> bool"
  for wr :: "string option \<Rightarrow> string \<Rightarrow> string option" where
  select_done: "lw_pc w = AtSelect \<Longrightarrow> lw_cancelled w \<Longrightarrow> loop_step wr w (w\<lparr>lw_pc := Stopped\<rparr>)"
| select_default: "lw_pc w = AtSelect \<Longrightarrow> \<not> lw_cancelled w \<Longrightarrow> loop_step wr w (w\<lparr>lw_pc := Polling\<rparr>)"
| poll: "lw_pc w = Polling \<Longrightarrow> watch_turn wr get (lw_client w) = Some t \<Longrightarrow> loop_step wr w (after_turn w t)"
| poll_panic: "lw_pc w = Polling \<Longrightarrow> watch_turn wr get (lw_client w) = None \<Longrightarrow>
    loop_step wr w (w\<lparr>lw_pc := Crashed\<rparr>)"
| sleep_over: "lw_pc w = Backoff \<Longrightarrow> sleep_returns elapsed (lw_cancelled w) \<Longrightarrow> loop_step wr w (w\<lparr>lw_pc := AtSelect\<rparr>)"

inductive_cases loop_stepE: "loop_step wr w w'"

text \<open>\<^verbatim>\<open>Close\<close> cancels the context and then waits until the loop has returned.\<close>

definition Close_cancel :: "'f watch_loop \<Rightarrow> 'f watch_loop" where
  "Close_cancel w = w\<lparr>lw_cancelled := True\<rparr>"

definition Close_waits :: "'f watch_loop \<Rightarrow> bool" where
  "Close_waits w \<longleftrightarrow> lw_pc w \<noteq> Stopped"

text \<open>The goroutine that \<^verbatim>\<open>New\<close> starts.\<close>

definition start_loop :: "'f Client \<Rightarrow> 'f watch_loop" where
  "start_loop c = \<lparr>lw_client = c, lw_cancelled = False, lw_pc = AtSelect, lw_calls = []\<rparr>"

section \<open>Cancellation\<close>

text \<open>The steps that a cancelled loop has left.\<close>

fun steps_left :: "loop_pc \<Rightarrow> nat" where
  "steps_left Polling = 3"
| "steps_left Backoff = 2"
| "steps_left AtSelect = 1"
| "steps_left Stopped = 0"
| "steps_left Crashed = 0"

lemma cancelled_step:
  assumes "loop_step wr w w'" "lw_cancelled w"
  shows "lw_cancelled w' \<and> steps_left (lw_pc w') < steps_left (lw_pc w)"
  using assms by (cases rule: loop_step.cases) (simp_all add: after_turn_def)

lemma cancelled_steps:
  "(loop_step wr ^^ n) w w' \<Longrightarrow> lw_cancelled w \<Longrightarrow> lw_cancelled w' \<and> n + steps_left (lw_pc w') \<le> steps_left (lw_pc w)"
proof (induction n arbitrary: w')
  case (Suc n)
  then obtain v where v: "(loop_step wr ^^ n) w v" "loop_step wr v w'" by auto
  with Suc.IH [OF v(1) Suc.prems(2)] cancelled_step [OF v(2)] show ?case by simp
qed simp

lemma loop_progress: "lw_pc w \<notin> {Stopped, Crashed} \<Longrightarrow> \<exists>w'. loop_step wr w w'"
proof (cases "lw_pc w")
  case AtSelect
  then show ?thesis by (cases "lw_cancelled w") (blast intro: loop_step.intros)+
next
  case Polling
  then show ?thesis
    by (cases "watch_turn wr (\<lambda>_. Inl ErrJson) (lw_client w)") (blast intro: loop_step.intros)+
next
  case Backoff
  then show ?thesis using loop_step.sleep_over [of w True] by (auto simp: sleep_returns_def)
qed (auto intro: loop_step.intros)

text \<open>C6: a closed client's loop ends. Once the context is cancelled, the loop makes at most three
  more steps, whatever the server answers: the poll in flight, its backoff and the check at
  the head; and it stops nowhere but at its return, or in a panic.\<close>

theorem close_stops_loop:
  assumes "(loop_step wr ^^ n) (Close_cancel w) w'"
  shows "n \<le> 3 \<and> (lw_pc w' \<in> {Stopped, Crashed} \<or> (\<exists>w''. loop_step wr w' w''))"
proof -
  have "steps_left pc \<le> 3" for pc by (cases pc) simp_all
  moreover have "n + steps_left (lw_pc w') \<le> steps_left (lw_pc (Close_cancel w))"
    using cancelled_steps [OF assms] by (simp add: Close_cancel_def)
  ultimately have "n \<le> 3" by (metis le_trans add_leE)
  with loop_progress show ?thesis by blast
qed

theorem close_stops_loop_witness:
  "(loop_step (\<lambda>_. Some) ^^ 1) (Close_cancel (start_loop demo_sdk)) ((Close_cancel (start_loop demo_sdk))\<lparr>lw_pc := Stopped\<rparr>) \<and>
   (1 :: nat) \<le> 3 \<and> \<not> Close_waits ((Close_cancel (start_loop demo_sdk))\<lparr>lw_pc := Stopped\<rparr>)"
proof -
  have "(loop_step (\<lambda>_. Some) ^^ 1) (Close_cancel (start_loop demo_sdk)) ((Close_cancel (start_loop demo_sdk))\<lparr>lw_pc := Stopped\<rparr>)"
    using loop_step.select_done [of "Close_cancel (start_loop demo_sdk)" "\<lambda>_. Some"]
    by (simp add: Close_cancel_def start_loop_def eq_OO)
  from this close_stops_loop [OF this] show ?thesis by (simp add: Close_waits_def)
qed

section \<open>The loop against the store\<close>

text \<open>
  What a client knows of a store, up to a set of keys that it may have stale: the revision, and
  the values of the other keys under its prefix.
\<close>

definition agrees :: "'db bolt \<Rightarrow> 'f Client \<Rightarrow> 'db WatchableStore \<Rightarrow> string \<Rightarrow> string set \<Rightarrow> bool" where
  "agrees B c ws p missed \<longleftrightarrow> c_revision c = ws_Rev ws \<and>
     (\<forall>k. HasPrefix k p \<and> k \<notin> missed \<longrightarrow> map_of (c_configs c) k = as_text (kv_values (ws_abs B ws)) k)"

lemma agrees_in_sync: "agrees B c ws p {} \<longleftrightarrow> in_sync B c ws p"
  by (simp add: agrees_def in_sync_def)

text \<open>
  An answered poll. Since the revision that the client asks with there have been the writes \<open>ops1\<close>
  when the handler reads the events \<open>evs\<close> from the cache, and the further writes \<open>ops2\<close> when it
  reads the revision for the body of the answer. Keys can become stale in two ways: more writes
  than the cache holds push events out of it, and the keys of \<open>ops2\<close> are covered by the revision
  but not by the events. A key that has an event in the answer is up to date whatever was
  known of it before.
\<close>

definition missed_after :: "nat \<Rightarrow> string set \<Rightarrow> wop list \<Rightarrow> wop list \<Rightarrow> Event list \<Rightarrow> string set" where
  "missed_after capacity missed ops1 ops2 evs =
     (missed \<union> (if length ops1 \<le> capacity then {} else op_key ` set ops1) - ev_key ` set evs) \<union> op_key ` set ops2"

lemma missed_after_serial: "length ops1 \<le> capacity \<Longrightarrow> missed_after capacity {} ops1 [] evs = {}"
  by (simp add: missed_after_def)

text \<open>
  \<open>tracked B wr p ws missed ops w\<close>: the loop \<open>w\<close> has run against a server, with writes to its store at
  any moment. \<open>ws\<close> is the state of the store whose revision the client has, \<open>ops\<close> are the writes
  since, and \<open>missed\<close> are the keys that the client may have stale. A poll may be answered
  (\<open>answered\<close>; \<open>closed\<close> for a cache that is closed, which answers without events), fail, be answered
  with an error of the server or with something that does not decode, or panic. Writes are taken
  one at a time, commit and append together.
\<close>

definition op_ok :: "'db WatchableStore \<Rightarrow> wop list \<Rightarrow> wop \<Rightarrow> bool" where
  "op_ok ws ops x \<longleftrightarrow> unat (ws_Rev ws) + Suc (length ops) < 2 ^ 64 \<and> utf8_valid (op_key x)"

definition poll_url :: "'f watch_loop \<Rightarrow> string \<Rightarrow> string" where
  "poll_url w addr = watch_url (c_config (lw_client w)) addr (c_revision (lw_client w))"

inductive tracked ::
  "'db bolt \<Rightarrow> (string option \<Rightarrow> string \<Rightarrow> string option) \<Rightarrow> string
     \<Rightarrow> 'db WatchableStore \<Rightarrow> string set \<Rightarrow> wop list \<Rightarrow> 'f watch_loop \<Rightarrow> bool"
  for B :: "'db bolt" and wr :: "string option \<Rightarrow> string \<Rightarrow> string option" and p :: string where
  start: "ws_wf B ws \<Longrightarrow> agrees B c ws p missed \<Longrightarrow> tracked B wr p ws missed [] (start_loop c)"
| store_write: "tracked B wr p ws missed ops w \<Longrightarrow> op_ok ws ops x \<Longrightarrow> tracked B wr p ws missed (ops @ [x]) w"
| cancel: "tracked B wr p ws missed ops w \<Longrightarrow> tracked B wr p ws missed ops (Close_cancel w)"
| own_step: "tracked B wr p ws missed ops w \<Longrightarrow> loop_step wr w w' \<Longrightarrow> lw_pc w \<noteq> Polling \<Longrightarrow> tracked B wr p ws missed ops w'"
| answered: "tracked B wr p ws missed (ops1 @ ops2 @ ops3) w \<Longrightarrow> lw_pc w = Polling \<Longrightarrow>
    pickAddr (c_config (lw_client w)) = Inr addr \<Longrightarrow>
    getEventsLocked (ws_wc (ws_run B ws ops1)) (c_revision (lw_client w)) p = Some evs \<Longrightarrow> \<forall>ev \<in> set evs. event_text ev \<Longrightarrow>
    get (poll_url w addr) = Inr (watch_reply rev1 (ws_Rev (ws_run B ws (ops1 @ ops2))) evs) \<Longrightarrow>
    watch_turn wr get (lw_client w) = Some t \<Longrightarrow>
    tracked B wr p (ws_run B ws (ops1 @ ops2)) (missed_after (wc_capacity (ws_wc ws)) missed ops1 ops2 evs) ops3 (after_turn w t)"
| closed: "tracked B wr p ws missed (ops2 @ ops3) w \<Longrightarrow> lw_pc w = Polling \<Longrightarrow>
    pickAddr (c_config (lw_client w)) = Inr addr \<Longrightarrow>
    get (poll_url w addr) = Inr (watch_reply rev1 (ws_Rev (ws_run B ws ops2)) []) \<Longrightarrow>
    watch_turn wr get (lw_client w) = Some t \<Longrightarrow>
    tracked B wr p (ws_run B ws ops2) (missed \<union> op_key ` set ops2) ops3 (after_turn w t)"
| failed: "tracked B wr p ws missed ops w \<Longrightarrow> lw_pc w = Polling \<Longrightarrow> pickAddr (c_config (lw_client w)) = Inr addr \<Longrightarrow>
    get (poll_url w addr) = Inl e \<Longrightarrow>
    watch_turn wr get (lw_client w) = Some t \<Longrightarrow> tracked B wr p ws missed ops (after_turn w t)"
| refused: "tracked B wr p ws missed ops w \<Longrightarrow> lw_pc w = Polling \<Longrightarrow> pickAddr (c_config (lw_client w)) = Inr addr \<Longrightarrow>
    get (poll_url w addr) = Inr (httpError status msg) \<Longrightarrow>
    watch_turn wr get (lw_client w) = Some t \<Longrightarrow> tracked B wr p ws missed ops (after_turn w t)"
| garbled: "tracked B wr p ws missed ops w \<Longrightarrow> lw_pc w = Polling \<Longrightarrow> pickAddr (c_config (lw_client w)) = Inr addr \<Longrightarrow>
    get (poll_url w addr) = Inr resp \<Longrightarrow> decode_watch (rsp_Body resp) = None \<Longrightarrow>
    watch_turn wr get (lw_client w) = Some t \<Longrightarrow> tracked B wr p ws missed ops (after_turn w t)"
| panicked: "tracked B wr p ws missed ops w \<Longrightarrow> lw_pc w = Polling \<Longrightarrow> watch_turn wr get (lw_client w) = None \<Longrightarrow>
    tracked B wr p ws missed ops (w\<lparr>lw_pc := Crashed\<rparr>)"

lemma agrees_count [simp]: "agrees B (count a b c) ws p missed = agrees B c ws p missed"
  by (simp add: agrees_def)

text \<open>The writes that are well-behaved from a state on, and what is left of them after some were done.\<close>

definition ops_ok :: "'db WatchableStore \<Rightarrow> wop list \<Rightarrow> bool" where
  "ops_ok ws ops \<longleftrightarrow> unat (ws_Rev ws) + length ops < 2 ^ 64 \<and> (\<forall>x \<in> set ops. utf8_valid (op_key x))"

lemma ops_ok_append:
  assumes "bolt_api B" and "ws_wf B ws" and "ops_ok ws (ops @ ops')"
  shows "ops_ok ws ops" and "ws_wf B (ws_run B ws ops)" and "ws_Rev ws \<le> ws_Rev (ws_run B ws ops)"
    and "ops_ok (ws_run B ws ops) ops'"
proof -
  show ok: "ops_ok ws ops" using assms(3) by (auto simp: ops_ok_def)
  show "ws_wf B (ws_run B ws ops)" "ws_Rev ws \<le> ws_Rev (ws_run B ws ops)"
    using bolt_api.ws_run_wf [OF assms(1,2)] ok by (simp_all add: ops_ok_def)
  show "ops_ok (ws_run B ws ops) ops'"
    using bolt_api.ws_run_frame [OF assms(1,2), of ops "[]"] ok assms(3) by (simp add: ops_ok_def)
qed

text \<open>One answered poll, key by key.\<close>

lemma answered_value:
  assumes "bolt_api B" and "ws_wf B ws" and "ops_ok ws (ops1 @ ops2)" and "agrees B c ws p missed"
    and "getEventsLocked (ws_wc (ws_run B ws ops1)) (ws_Rev ws) p = Some evs" and "\<forall>ev \<in> set evs. event_text ev"
    and "those (map to_watch_event evs) = Some wes"
    and "HasPrefix k p" and "k \<notin> missed_after (wc_capacity (ws_wc ws)) missed ops1 ops2 evs"
  shows "foldl wire_apply (map_of (c_configs c)) (map event_of wes) k = as_text (kv_values (ws_abs B (ws_run B ws (ops1 @ ops2)))) k"
proof -
  let ?v = "kv_values (ws_abs B ws)" and ?s1 = "ws_run B ws ops1"
  have ok: "ops_ok ws ops1" "ws_wf B ?s1" "ops_ok ?s1 ops2"
    using ops_ok_append [OF assms(1,2,3)] by simp_all
  have "k \<notin> op_key ` set ops2" using assms(9) by (simp add: missed_after_def)
  then have later: "kv_values (ws_abs B (ws_run B ws (ops1 @ ops2))) k = kv_values (ws_abs B ?s1) k"
    using bolt_api.ws_run_frame [OF assms(1) ok(2), of ops2 k] ok(3) by (simp add: ops_ok_def ws_run_def)
  obtain lost seen where tail: "evs = filter (\<lambda>ev. HasPrefix (ev_key ev) p) seen"
    "replay ?v (lost @ seen) = kv_values (ws_abs B ?s1)" "length ops1 \<le> wc_capacity (ws_wc ws) \<Longrightarrow> lost = []"
    "\<forall>ev \<in> set seen. evEntry ev \<noteq> None"
  proof (rule bolt_api.ws_run_tail [OF assms(1,2), of ops1 p])
    show "unat (ws_Rev ws) + length ops1 < 2 ^ 64" "\<forall>w \<in> set ops1. utf8_valid (op_key w)" using ok(1) by (simp_all add: ops_ok_def)
  qed (use assms(5) that in simp)
  have filtered: "replay m seen k = replay m evs k" for m
    unfolding tail(1) by (rule replay_filter [OF assms(8) refl])
  have wire: "foldl wire_apply (as_text m) (map event_of wes) k = as_text (replay m evs) k" for m
    using wire_replay [OF assms(7,6)] by simp
  show ?thesis
  proof (cases "k \<in> ev_key ` set evs")
    case True
    have "kv_values (ws_abs B ?s1) k = replay (replay ?v lost) evs k"
      unfolding tail(2) [symmetric] by (simp add: filtered)
    then show ?thesis
      using wire_decides [OF assms(7,6) True, of _ "as_text (replay ?v lost)"] wire [of "replay ?v lost"] later
      by (simp add: as_text_def)
  next
    case False
    then have k: "k \<notin> missed" "length ops1 \<le> wc_capacity (ws_wc ws) \<or> k \<notin> op_key ` set ops1"
      using assms(9) by (auto simp: missed_after_def split: if_splits)
    have same: "kv_values (ws_abs B ?s1) k = ?v k"
    proof (cases "length ops1 \<le> wc_capacity (ws_wc ws)")
      case True
      then show ?thesis using tail(2,3) filtered [of ?v] replay_other [OF False, of ?v] by (metis append_Nil)
    next
      case False
      then show ?thesis using k(2) bolt_api.ws_run_frame [OF assms(1,2), of ops1 k] ok(1) by (simp add: ops_ok_def)
    qed
    have "map_of (c_configs c) k = as_text ?v k" using assms(4,8) k(1) by (simp add: agrees_def)
    then have "foldl wire_apply (map_of (c_configs c)) (map event_of wes) k = foldl wire_apply (as_text ?v) (map event_of wes) k"
      by (rule wire_fold_cong)
    then show ?thesis using wire [of ?v] replay_other [OF False, of ?v] later same by (simp add: as_text_def)
  qed
qed

lemma answered_agrees:
  assumes "bolt_api B" and "ws_wf B ws" and "ops_ok ws (ops1 @ ops2)" and "agrees B c ws p missed"
    and "\<And>k wes. those (map to_watch_event evs) = Some wes \<Longrightarrow> HasPrefix k p \<Longrightarrow> k \<notin> missed' \<Longrightarrow>
      foldl wire_apply (map_of (c_configs c)) (map event_of wes) k = as_text (kv_values (ws_abs B (ws_run B ws (ops1 @ ops2)))) k"
    and "\<forall>ev \<in> set evs. event_text ev" and "pickAddr (c_config c) = Inr addr"
    and "get (watch_url (c_config c) addr (c_revision c)) = Inr (watch_reply rev1 (ws_Rev (ws_run B ws (ops1 @ ops2))) evs)"
    and "watch_turn wr get c = Some t"
  shows "agrees B (t_client t) (ws_run B ws (ops1 @ ops2)) p missed'"
proof -
  let ?r = "ws_Rev (ws_run B ws (ops1 @ ops2))"
  obtain wes where wes: "those (map to_watch_event evs) = Some wes"
    "map_of (c_configs (t_client t)) = foldl wire_apply (map_of (c_configs c)) (map event_of wes)"
    "c_revision (t_client t) = (if 0 < ?r then ?r else c_revision c)"
    using poll_view [where get = get, OF assms(6-8), of wr] assms(9) by auto
  have "ws_Rev ws \<le> ?r" using ops_ok_append(3) [OF assms(1,2), of "ops1 @ ops2" "[]"] assms(3) by simp
  then have "c_revision (t_client t) = ?r" using wes(3) assms(4) by (auto simp: agrees_def word_gt_0)
  then show ?thesis using assms(5) [OF wes(1)] by (simp add: agrees_def wes(2))
qed

lemma tracked_invariant:
  assumes "tracked B wr p ws missed ops w" and "bolt_api B"
  shows "ws_wf B ws \<and> agrees B (lw_client w) ws p missed \<and> ops_ok ws ops"
  using assms(1)
proof (induction rule: tracked.induct)
  case (start ws c missed)
  then show ?case using unsigned_less [of "ws_Rev ws"] by (simp add: start_loop_def ops_ok_def)
next
  case (store_write ws missed ops w x)
  then show ?case by (auto simp: op_ok_def ops_ok_def)
next
  case (cancel ws missed ops w)
  then show ?case by (simp add: Close_cancel_def)
next
  case (own_step ws missed ops w w')
  from own_step.hyps(2,3) have "lw_client w' = lw_client w" by (cases rule: loop_step.cases) simp_all
  with own_step.IH show ?case by simp
next
  case (answered ws missed ops1 ops2 ops3 w addr evs get rev1 t)
  then have wf: "ws_wf B ws" and ag: "agrees B (lw_client w) ws p missed" and ok: "ops_ok ws ((ops1 @ ops2) @ ops3)" by simp_all
  note fin = ops_ok_append [OF assms(2) wf ok]
  have rev: "c_revision (lw_client w) = ws_Rev ws" using ag by (simp add: agrees_def)
  have "agrees B (t_client t) (ws_run B ws (ops1 @ ops2)) p (missed_after (wc_capacity (ws_wc ws)) missed ops1 ops2 evs)"
    by (rule answered_agrees [where get = get, OF assms(2) wf fin(1) ag _ answered.hyps(5,3) answered.hyps(6) [unfolded poll_url_def] answered.hyps(7)])
      (rule answered_value [OF assms(2) wf fin(1) ag answered.hyps(4) [unfolded rev] answered.hyps(5)])
  then show ?case using fin(2,4) by (simp add: after_turn_def)
next
  case (closed ws missed ops2 ops3 w addr get rev1 t)
  then have wf: "ws_wf B ws" and ag: "agrees B (lw_client w) ws p missed" and ok: "ops_ok ws (ops2 @ ops3)" by simp_all
  note fin = ops_ok_append [OF assms(2) wf ok]
  have "map_of (c_configs (lw_client w)) k = as_text (kv_values (ws_abs B (ws_run B ws ops2))) k"
    if "HasPrefix k p" "k \<notin> missed \<union> op_key ` set ops2" for k
    using that ag bolt_api.ws_run_frame [OF assms(2) wf, of ops2 k] fin(1) by (simp add: agrees_def ops_ok_def as_text_def)
  then have "agrees B (t_client t) (ws_run B ws ([] @ ops2)) p (missed \<union> op_key ` set ops2)"
    using closed.hyps(4) fin(1)
    by (intro answered_agrees [where get = get and evs = "[]", OF assms(2) wf _ ag _ _ closed.hyps(3) _ closed.hyps(5)])
      (simp_all add: poll_url_def)
  then show ?case using fin(2,4) by (simp add: after_turn_def)
next
  case (failed ws missed ops w addr get e t)
  then have "t_client t = count ''watch_polls'' ''error'' (lw_client w)" by (auto simp: watch_turn_def poll_url_def)
  with failed.IH show ?case by (simp add: after_turn_def)
next
  case (refused ws missed ops w addr get status msg t)
  then have "t_client t = count ''watch_polls'' ''empty'' (lw_client w)"
    using error_answer [where get = get, OF refused.hyps(3) refused.hyps(4) [unfolded poll_url_def], of wr] by auto
  with refused.IH show ?case by (simp add: after_turn_def)
next
  case (garbled ws missed ops w addr get resp t)
  then have "t_client t = count ''watch_polls'' ''error'' (lw_client w)" by (auto simp: watch_turn_def poll_url_def)
  with garbled.IH show ?case by (simp add: after_turn_def)
next
  case (panicked ws missed ops w get)
  then show ?case by simp
qed

text \<open>C4: the client tracks the store. Writes to the store, one at a time, the polls of the loop, answers
  whose revision is read after further writes, bursts of writes that overflow the watch cache,
  failed, refused and undecodable polls and the cancellation may interleave in any way. At every
  moment the revision of the client is that of a past state of the store, from which the writes
  \<open>ops\<close> lead to the current state, and its copy is the values of its namespace in that state, for
  every key outside the set \<open>missed\<close>: the keys written between the two readings of an answer, or
  while the cache overflowed or was closed, and not seen in an event of a later answer. When no
  key is missed the client is in step with the past state, and right after an answer with the
  current one. Keys and values are valid UTF-8, and the revision does not wrap.\<close>

theorem sdk_tracks_store:
  assumes "tracked B wr p ws missed ops w" and "bolt_api B"
  shows "c_revision (lw_client w) = ws_Rev ws \<and>
    (\<forall>k. HasPrefix k p \<and> k \<notin> missed \<longrightarrow> map_of (c_configs (lw_client w)) k = as_text (kv_values (ws_abs B ws)) k) \<and>
    ws_wf B (ws_run B ws ops) \<and> ws_Rev ws \<le> ws_Rev (ws_run B ws ops) \<and>
    (missed = {} \<longrightarrow> in_sync B (lw_client w) ws p) \<and>
    (missed = {} \<and> ops = [] \<longrightarrow> in_sync B (lw_client w) (ws_run B ws ops) p)"
proof -
  have inv: "ws_wf B ws" "agrees B (lw_client w) ws p missed" "ops_ok ws (ops @ [])"
    using tracked_invariant [OF assms] by simp_all
  then show ?thesis
    using ops_ok_append(2,3) [OF assms(2) inv(1,3)] by (auto simp: agrees_def in_sync_def ws_run_def)
qed

text \<open>A run: the loop starts, a key is put, and the poll that is in flight returns its event.\<close>

definition demo_answer :: "string \<Rightarrow> err + Response" where
  "demo_answer = (\<lambda>_. Inr (watch_reply 1 (ws_Rev (ws_run mem_sure (srv_store demo_server) [WPut ''t/n/m'' (Some ''v'')]))
     [put_event kv_empty ''t/n/m'' (Some ''v'')]))"

definition demo_polling :: "string watch_loop" where
  "demo_polling = (start_loop demo_sdk)\<lparr>lw_pc := Polling\<rparr>"

lemma demo_tracked:
  "tracked mem_sure (\<lambda>_. Some) ''t/n/'' (srv_store demo_server) {} [WPut ''t/n/m'' (Some ''v'')] demo_polling"
proof -
  let ?T = "tracked mem_sure (\<lambda>_. Some) ''t/n/'' (srv_store demo_server) {}"
  have start: "?T [] (start_loop demo_sdk)"
    by (rule tracked.start [OF demo_server_ok(1)]) (simp add: agrees_in_sync demo_run(3))
  have "loop_step (\<lambda>_. Some) (start_loop demo_sdk) demo_polling"
    unfolding demo_polling_def by (rule loop_step.select_default) (simp_all add: start_loop_def)
  from tracked.own_step [OF start this] have polling: "?T [] demo_polling" by (simp add: start_loop_def)
  have "op_ok (srv_store demo_server) [] (WPut ''t/n/m'' (Some ''v''))"
    by (simp add: op_ok_def demo_run(5) op_key_def utf8_valid_ascii)
  from tracked.store_write [OF polling this] show ?thesis by simp
qed

lemma demo_turn: "\<exists>t. watch_turn (\<lambda>_. Some) demo_answer demo_sdk = Some t"
proof -
  have "\<forall>ev \<in> set [put_event kv_empty ''t/n/m'' (Some ''v'')]. event_text ev" using demo_run(2) by simp
  moreover have "pickAddr (c_config demo_sdk) = Inr ''h:80''" by simp
  ultimately show ?thesis
    using poll_view [where get = demo_answer, OF _ _ fun_cong [OF demo_answer_def], of demo_sdk "''h:80''" "\<lambda>_. Some"] by metis
qed

theorem sdk_tracks_store_witness:
  "\<exists>w :: string watch_loop. in_sync mem_sure (lw_client w) (ws_run mem_sure (srv_store demo_server) [WPut ''t/n/m'' (Some ''v'')]) ''t/n/'' \<and>
     kv_values (ws_abs mem_sure (ws_run mem_sure (srv_store demo_server) [WPut ''t/n/m'' (Some ''v'')])) ''t/n/m'' = Some (Some ''v'')"
proof -
  let ?ops = "[WPut ''t/n/m'' (Some ''v'')]"
  let ?ws = "ws_run mem_sure (srv_store demo_server) ?ops" and ?evs = "[put_event kv_empty ''t/n/m'' (Some ''v'')]"
  obtain t where t: "watch_turn (\<lambda>_. Some) demo_answer (lw_client demo_polling) = Some t"
    using demo_turn by (auto simp: demo_polling_def start_loop_def)
  have m: "missed_after (wc_capacity (ws_wc (srv_store demo_server))) {} ?ops [] ?evs = {}"
    by (rule missed_after_serial) (simp add: demo_run(4))
  have "tracked mem_sure (\<lambda>_. Some) ''t/n/'' (ws_run mem_sure (srv_store demo_server) (?ops @ []))
      (missed_after (wc_capacity (ws_wc (srv_store demo_server))) {} ?ops [] ?evs) [] (after_turn demo_polling t)"
    by (rule tracked.answered [where get = demo_answer and addr = "''h:80''" and ?rev1.0 = 1 and ?ops3.0 = "[]", OF _ _ _ _ _ _ t])
      (use demo_tracked demo_run(1,2) in \<open>simp_all add: demo_polling_def start_loop_def demo_answer_def\<close>)
  then have "tracked mem_sure (\<lambda>_. Some) ''t/n/'' ?ws {} [] (after_turn demo_polling t)" unfolding m by simp
  from sdk_tracks_store [OF this sure.bolt_api_axioms]
  have "in_sync mem_sure (lw_client (after_turn demo_polling t)) ?ws ''t/n/''" by simp
  moreover have "kv_values (ws_abs mem_sure ?ws) ''t/n/m'' = Some (Some ''v'')"
    unfolding demo_run_abs(1) by (simp add: kv_values_put)
  ultimately show ?thesis by blast
qed

end
