(* ===== verification/Metrics.thy ===== *)
theory Metrics
  imports Http_Server
begin

text \<open>
  \<^verbatim>\<open>internal/metrics\<close>: the status classes and the middleware that counts requests. A handler is
  seen here as the sequence of calls it makes on its response writer. The underlying writer
  of net/http keeps the first final status, and a write without one means 200; an
  informational status other than 101 is sent on its own and is not final. The recorder of
  the middleware shadows that, and the theorem says that its shadow is right.
\<close>

section \<open>Status classes\<close>

definition StatusClass :: "int \<Rightarrow> string" where
  "StatusClass st =
     (if st \<ge> 500 then ''5xx'' else if st \<ge> 400 then ''4xx'' else if st \<ge> 300 then ''3xx''
      else if st \<ge> 200 then ''2xx'' else ''1xx'')"

section \<open>Response writers\<close>

datatype wcall = WriteHeader int | Write string

record net_writer =
  nw_status :: "int option"
  nw_body :: string

definition nw_call :: "net_writer \<Rightarrow> wcall \<Rightarrow> net_writer" where
  "nw_call w c = (case c of
      WriteHeader st \<Rightarrow>
        (if nw_status w \<noteq> None then w
         else if 100 \<le> st \<and> st \<le> 199 \<and> st \<noteq> 101 then w
         else w\<lparr>nw_status := Some st\<rparr>)
    | Write b \<Rightarrow> w\<lparr>nw_status := (case nw_status w of None \<Rightarrow> Some 200 | s \<Rightarrow> s), nw_body := nw_body w @ b\<rparr>)"

text \<open>What the client sees: without any call, net/http answers 200.\<close>

definition nw_sent :: "net_writer \<Rightarrow> int" where
  "nw_sent w = (case nw_status w of None \<Rightarrow> 200 | Some s \<Rightarrow> s)"

record statusRecorder =
  sr_writer :: net_writer
  sr_status :: int
  sr_wroteHeader :: bool

definition sr_WriteHeader :: "statusRecorder \<Rightarrow> int \<Rightarrow> statusRecorder" where
  "sr_WriteHeader r st =
     (let r1 = (if \<not> sr_wroteHeader r then r\<lparr>sr_status := st, sr_wroteHeader := True\<rparr> else r) in
      r1\<lparr>sr_writer := nw_call (sr_writer r1) (WriteHeader st)\<rparr>)"

definition sr_Write :: "statusRecorder \<Rightarrow> string \<Rightarrow> statusRecorder" where
  "sr_Write r b =
     (let r1 = (if \<not> sr_wroteHeader r then r\<lparr>sr_wroteHeader := True\<rparr> else r) in
      r1\<lparr>sr_writer := nw_call (sr_writer r1) (Write b)\<rparr>)"

definition sr_call :: "statusRecorder \<Rightarrow> wcall \<Rightarrow> statusRecorder" where
  "sr_call r c = (case c of WriteHeader st \<Rightarrow> sr_WriteHeader r st | Write b \<Rightarrow> sr_Write r b)"

section \<open>The middleware\<close>

text \<open>
  The handler is the list of its calls; the middleware gives the underlying writer after them
  and the label values it counts: method, route and status class. The same call observes a
  duration under the method and the route; its value is left out.
\<close>

definition Middleware :: "string \<Rightarrow> string \<Rightarrow> wcall list \<Rightarrow> net_writer \<Rightarrow> net_writer \<times> string \<times> string \<times> string" where
  "Middleware route method calls w =
     (let rec = foldl sr_call \<lparr>sr_writer = w, sr_status = 200, sr_wroteHeader = False\<rparr> calls in
      (sr_writer rec, method, route, StatusClass (sr_status rec)))"

section \<open>Properties\<close>

lemma recorder_shadow:
  assumes "\<forall>c \<in> set calls. case c of WriteHeader st \<Rightarrow> 200 \<le> st | Write b \<Rightarrow> True"
    and "if sr_wroteHeader r then nw_status (sr_writer r) = Some (sr_status r)
         else nw_status (sr_writer r) = None \<and> sr_status r = 200"
  shows "sr_writer (foldl sr_call r calls) = foldl nw_call (sr_writer r) calls \<and>
    sr_status (foldl sr_call r calls) = nw_sent (foldl nw_call (sr_writer r) calls)"
  using assms
proof (induction calls arbitrary: r)
  case Nil
  then show ?case by (auto simp: nw_sent_def split: if_splits)
next
  case (Cons c calls)
  have w: "sr_writer (sr_call r c) = nw_call (sr_writer r) c"
    by (cases c) (simp_all add: sr_call_def sr_WriteHeader_def sr_Write_def Let_def)
  have "if sr_wroteHeader (sr_call r c) then nw_status (sr_writer (sr_call r c)) = Some (sr_status (sr_call r c))
      else nw_status (sr_writer (sr_call r c)) = None \<and> sr_status (sr_call r c) = 200"
    using Cons.prems
    by (cases c) (auto simp: sr_call_def sr_WriteHeader_def sr_Write_def Let_def nw_call_def split: if_splits)
  with Cons.IH [of "sr_call r c"] Cons.prems(1) w show ?case by simp
qed

text \<open>The middleware is transparent and counts the right class. For a handler that sends no
  informational status, the response is the one the handler makes without the middleware,
  and the class that is counted is that of the status the client gets, also when the handler
  writes a body first, sets the status twice or makes no call at all.\<close>

lemma middleware_transparent:
  assumes "\<forall>c \<in> set calls. case c of WriteHeader st \<Rightarrow> 200 \<le> st | Write b \<Rightarrow> True"
    and "nw_status w = None"
  shows "Middleware route method calls w
    = (foldl nw_call w calls, method, route, StatusClass (nw_sent (foldl nw_call w calls)))"
  using recorder_shadow [OF assms(1), of "\<lparr>sr_writer = w, sr_status = 200, sr_wroteHeader = False\<rparr>"] assms(2)
  by (simp add: Middleware_def Let_def)

end
