(* ===== verification/Metrics_Catalogue.thy ===== *)
theory Metrics_Catalogue
  imports Complex_Main Metrics Sdk_Loop
begin

text \<open>
  The catalogues of metrics: the series of the server in \<^verbatim>\<open>internal/metrics/metrics.go\<close> and those of
  a client in \<^verbatim>\<open>sdk/metrics.go\<close>, as descriptors, and the use that the client makes of its
  counters. The metrics library itself is not modelled; the conditions below are the ones that
  it documents for a registration and for \<^verbatim>\<open>WithLabelValues\<close> not to panic. Its default buckets
  are a parameter; help texts and the collectors of the Go runtime are left out.
\<close>

section \<open>Descriptors\<close>

datatype metric_kind = Counter | Gauge | Histogram "rat list"

record metric =
  mt_Namespace :: string
  mt_Subsystem :: string
  mt_Name :: string
  mt_Kind :: metric_kind
  mt_ConstLabels :: "(string \<times> string) list"
  mt_Labels :: "string list"

text \<open>The full name of a series: its non-empty parts, joined with underscores.\<close>

definition fq_name :: "metric \<Rightarrow> string" where
  "fq_name m = Join (filter (\<lambda>s. s \<noteq> []) [mt_Namespace m, mt_Subsystem m, mt_Name m]) ''_''"

text \<open>
  What a registration asks for: names that differ, label names that differ from each other and
  from the constant ones, and increasing buckets.
\<close>

definition strictly_increasing :: "rat list \<Rightarrow> bool" where
  "strictly_increasing xs \<longleftrightarrow> sorted_wrt (<) xs"

definition metric_ok :: "metric \<Rightarrow> bool" where
  "metric_ok m \<longleftrightarrow> distinct (map fst (mt_ConstLabels m) @ mt_Labels m) \<and>
     (case mt_Kind m of Histogram bs \<Rightarrow> strictly_increasing bs | _ \<Rightarrow> True)"

definition catalogue_ok :: "metric list \<Rightarrow> bool" where
  "catalogue_ok ms \<longleftrightarrow> distinct (map fq_name ms) \<and> list_all metric_ok ms"

section \<open>The server's metrics\<close>

definition metrics_namespace :: string where "metrics_namespace = ''paladin''"

definition subsystemHTTP :: string where "subsystemHTTP = ''http''"

definition subsystemRaft :: string where "subsystemRaft = ''raft''"

definition subsystemStore :: string where "subsystemStore = ''store''"

definition server_metric :: "string \<Rightarrow> string \<Rightarrow> metric_kind \<Rightarrow> string list \<Rightarrow> metric" where
  "server_metric subsystem name kind labels = \<lparr>mt_Namespace = metrics_namespace, mt_Subsystem = subsystem, mt_Name = name,
     mt_Kind = kind, mt_ConstLabels = [], mt_Labels = labels\<rparr>"

definition HTTPRequestsTotal :: metric where
  "HTTPRequestsTotal = server_metric subsystemHTTP ''requests_total'' Counter [''method'', ''route'', ''status'']"

definition HTTPRequestDuration :: metric where
  "HTTPRequestDuration = server_metric subsystemHTTP ''request_duration_seconds''
     (Histogram [1/1000, 1/400, 1/200, 1/100, 1/40, 1/20, 1/10, 1/4, 1/2, 1, 5/2, 5, 10]) [''method'', ''route'']"

definition RaftApplyTotal :: metric where
  "RaftApplyTotal = server_metric subsystemRaft ''apply_total'' Counter [''op'', ''outcome'']"

definition RaftApplyDuration :: metric where
  "RaftApplyDuration = server_metric subsystemRaft ''apply_duration_seconds''
     (Histogram [1/1000, 1/200, 1/100, 1/40, 1/20, 1/10, 1/4, 1/2, 1, 5/2, 5]) [''op'']"

definition StoreRevision :: metric where
  "StoreRevision = server_metric subsystemStore ''revision'' Gauge []"

text \<open>The registrations of \<^verbatim>\<open>init\<close>.\<close>

definition server_catalogue :: "metric list" where
  "server_catalogue = [HTTPRequestsTotal, HTTPRequestDuration, RaftApplyTotal, RaftApplyDuration, StoreRevision]"

section \<open>A client's metrics\<close>

record clientMetrics =
  cm_fullPullsTotal :: metric
  cm_fullPullDuration :: metric
  cm_watchPollsTotal :: metric
  cm_watchPollDuration :: metric
  cm_watchEventsTotal :: metric
  cm_cacheLoadsTotal :: metric
  cm_revision :: metric
  cm_configs :: metric

definition client_metric :: "string \<Rightarrow> string \<Rightarrow> string \<Rightarrow> metric_kind \<Rightarrow> string list \<Rightarrow> metric" where
  "client_metric tenant namespace name kind labels = \<lparr>mt_Namespace = ''paladin_sdk'', mt_Subsystem = [], mt_Name = name,
     mt_Kind = kind, mt_ConstLabels = [(''tenant'', tenant), (''namespace'', namespace)], mt_Labels = labels\<rparr>"

definition newClientMetrics :: "rat list \<Rightarrow> string \<Rightarrow> string \<Rightarrow> clientMetrics" where
  "newClientMetrics DefBuckets tenant namespace =
     (let metric = client_metric tenant namespace in
      \<lparr>cm_fullPullsTotal = metric ''full_pulls_total'' Counter [''outcome''],
       cm_fullPullDuration = metric ''full_pull_duration_seconds'' (Histogram DefBuckets) [],
       cm_watchPollsTotal = metric ''watch_polls_total'' Counter [''outcome''],
       cm_watchPollDuration = metric ''watch_poll_duration_seconds'' (Histogram [1/100, 1/10, 1/2, 1, 5/2, 5, 10, 30, 60]) [],
       cm_watchEventsTotal = metric ''watch_events_total'' Counter [''type''],
       cm_cacheLoadsTotal = metric ''cache_loads_total'' Counter [''outcome''],
       cm_revision = metric ''revision'' Gauge [],
       cm_configs = metric ''configs'' Gauge []\<rparr>)"

text \<open>The registrations at its end.\<close>

definition client_catalogue :: "clientMetrics \<Rightarrow> metric list" where
  "client_catalogue m = [cm_fullPullsTotal m, cm_fullPullDuration m, cm_watchPollsTotal m, cm_watchPollDuration m,
     cm_watchEventsTotal m, cm_cacheLoadsTotal m, cm_revision m, cm_configs m]"

definition MetricsRegistry :: "rat list \<Rightarrow> 'f Client \<Rightarrow> metric list" where
  "MetricsRegistry DefBuckets c =
     client_catalogue (newClientMetrics DefBuckets (cfg_Tenant (c_config c)) (cfg_Namespace (c_config c)))"

section \<open>Properties\<close>

text \<open>The registrations are sound. In the catalogue of the server and in that of every client,
  whatever its tenant and namespace, the full names differ, no label is named twice and the
  buckets of every histogram increase, as the metrics library demands; so neither the package
  initialisation nor \<^verbatim>\<open>sdk.New\<close> panics in \<^verbatim>\<open>MustRegister\<close>.\<close>

lemma catalogues_sound:
  assumes "strictly_increasing DefBuckets"
  shows "catalogue_ok server_catalogue \<and> catalogue_ok (client_catalogue (newClientMetrics DefBuckets tenant namespace))"
proof
  show "catalogue_ok server_catalogue"
    by (simp add: catalogue_ok_def server_catalogue_def metric_ok_def fq_name_def server_metric_def metrics_namespace_def subsystemHTTP_def subsystemRaft_def subsystemStore_def strictly_increasing_def
        HTTPRequestsTotal_def HTTPRequestDuration_def RaftApplyTotal_def RaftApplyDuration_def StoreRevision_def)
  show "catalogue_ok (client_catalogue (newClientMetrics DefBuckets tenant namespace))"
    using assms
    by (simp add: catalogue_ok_def client_catalogue_def newClientMetrics_def client_metric_def metric_ok_def fq_name_def
        strictly_increasing_def Let_def)
qed

lemma registry_sound: "strictly_increasing DefBuckets \<Longrightarrow> catalogue_ok (MetricsRegistry DefBuckets c)"
  using catalogues_sound by (simp add: MetricsRegistry_def)

text \<open>
  The series that the client model counts under a short name, and the values that the comments
  of \<^verbatim>\<open>clientMetrics\<close> give for the label.
\<close>

definition series_metric :: "clientMetrics \<Rightarrow> string \<Rightarrow> metric option" where
  "series_metric m s = map_of [(''full_pulls'', cm_fullPullsTotal m), (''watch_polls'', cm_watchPollsTotal m),
     (''watch_events'', cm_watchEventsTotal m), (''cache_loads'', cm_cacheLoadsTotal m)] s"

definition documented_labels :: "string \<Rightarrow> string list" where
  "documented_labels s = (if s = ''full_pulls'' then [''ok'', ''error'']
     else if s = ''watch_polls'' then [''events'', ''empty'', ''error'']
     else if s = ''watch_events'' then [''PUT'', ''DELETE'']
     else if s = ''cache_loads'' then [''ok'', ''error'', ''checksum_mismatch''] else [])"

definition label_ok :: "string \<times> string \<Rightarrow> bool" where
  "label_ok x \<longleftrightarrow> fst x = ''watch_events'' \<or> snd x \<in> set (documented_labels (fst x))"

definition counters_ok :: "'f Client \<Rightarrow> bool" where
  "counters_ok c \<longleftrightarrow> list_all label_ok (c_counters c)"

lemma counters_ok_count [simp]: "counters_ok (count s l c) \<longleftrightarrow> counters_ok c \<and> label_ok (s, l)"
  by (simp add: counters_ok_def count_def)

lemma counters_ok_frame [simp]:
  "counters_ok (c\<lparr>c_configs := a\<rparr>) = counters_ok c" "counters_ok (c\<lparr>c_revision := b\<rparr>) = counters_ok c"
  "counters_ok (c\<lparr>c_file := f\<rparr>) = counters_ok c" "counters_ok (c\<lparr>c_revGauge := g\<rparr>) = counters_ok c"
  "counters_ok (c\<lparr>c_cfgGauge := h\<rparr>) = counters_ok c"
  by (simp_all add: counters_ok_def)

lemma counters_ok_save [simp]: "counters_ok (saveToCache wr c) = counters_ok c"
  by (simp add: saveToCache_def Let_def split: option.splits prod.splits)

lemma counters_ok_revision [simp]: "counters_ok (set_revision rv c) = counters_ok c"
  by (simp add: set_revision_def)

lemma counters_ok_apply: "applyEvents c es = Some (c', calls) \<Longrightarrow> counters_ok c \<Longrightarrow> counters_ok c'"
proof (induction es arbitrary: c c' calls)
  case (Cons e es)
  from Cons.prems(1) obtain c1 calls1 calls2 where 1: "apply_event c e = Some (c1, calls1)" "applyEvents c1 es = Some (c', calls2)"
    by (auto split: option.splits prod.splits)
  from 1(1) Cons.prems(2) have "counters_ok c1"
    by (auto simp: apply_event_def Let_def label_ok_def split: option.splits prod.splits)
  with Cons.IH [OF 1(2)] show ?case .
qed simp

lemma counters_ok_turn: "watch_turn wr get c = Some t \<Longrightarrow> counters_ok c \<Longrightarrow> counters_ok (t_client t)"
  by (auto simp: watch_turn_def Let_def label_ok_def documented_labels_def counters_ok_apply
      split: sum.splits option.splits if_splits prod.splits)

lemma counters_ok_pull: "fullPull wr get c = Some (e, c') \<Longrightarrow> counters_ok c \<Longrightarrow> counters_ok c'"
  unfolding fullPull_def
  by (cases "pull_body get (c_config c)") (auto simp: Let_def label_ok_def documented_labels_def split: sum.splits)

lemma counters_ok_load: "counters_ok c \<Longrightarrow> counters_ok (snd (loadFromCache c))"
  by (auto simp: loadFromCache_def Let_def label_ok_def documented_labels_def split: option.splits prod.splits)

lemma counters_ok_New:
  assumes "New wr get cfg file = Some c"
  shows "counters_ok c"
proof -
  obtain e c0 where pull: "fullPull wr get (new_client cfg file) = Some (e, c0)" "c = (if e = None then c0 else snd (loadFromCache c0))"
    using assms by (auto simp: New_def)
  have "counters_ok (new_client cfg file)" by (simp add: counters_ok_def new_client_def)
  with pull counters_ok_pull counters_ok_load show ?thesis by metis
qed

lemma counters_ok_loop:
  "(loop_step wr)\<^sup>*\<^sup>* w w' \<Longrightarrow> counters_ok (lw_client w) \<Longrightarrow> counters_ok (lw_client w')"
proof (induction rule: rtranclp_induct)
  case (step v w')
  from step.hyps(2) show ?case
    by (cases rule: loop_step.cases) (use step counters_ok_turn in \<open>auto simp: after_turn_def\<close>)
qed

text \<open>C31: the client uses its counters as they are declared. Whatever the server answers, at every
  moment of a client's life each increment names one of its registered counters, with exactly
  one label value for its one label; outside \<^verbatim>\<open>watch_events_total\<close> that value is one of those
  that the comments list, so the number of series stays bounded.\<close>

theorem sdk_counters_typed:
  assumes "New wr get cfg file = Some c" and "(loop_step wr)\<^sup>*\<^sup>* (start_loop c) w" and "(s, l) \<in> set (c_counters (lw_client w))"
  shows "(\<exists>m. series_metric (newClientMetrics DefBuckets tenant namespace) s = Some m \<and>
      m \<in> set (client_catalogue (newClientMetrics DefBuckets tenant namespace)) \<and> mt_Kind m = Counter \<and> length (mt_Labels m) = 1) \<and>
    (s \<noteq> ''watch_events'' \<longrightarrow> l \<in> set (documented_labels s))"
proof -
  have "counters_ok (lw_client w)"
    by (rule counters_ok_loop [OF assms(2)]) (simp add: start_loop_def counters_ok_New [OF assms(1)])
  then have ok: "label_ok (s, l)" using assms(3) by (auto simp: counters_ok_def list_all_iff)
  then have "s \<in> {''full_pulls'', ''watch_polls'', ''watch_events'', ''cache_loads''}"
    by (auto simp: label_ok_def documented_labels_def split: if_splits)
  then show ?thesis
    using ok by (auto simp: label_ok_def series_metric_def newClientMetrics_def client_metric_def client_catalogue_def Let_def)
qed

theorem sdk_counters_typed_witness:
  "(''full_pulls'', ''error'') \<in> set (c_counters (the (New (\<lambda>_. Some) (\<lambda>_. Inl ErrJson) demo_config None :: string Client option))) \<and>
   ''error'' \<in> set (documented_labels ''full_pulls'')"
proof -
  let ?c = "the (New (\<lambda>_. Some) (\<lambda>_. Inl ErrJson) demo_config None :: string Client option)"
  have new: "(New (\<lambda>_. Some) (\<lambda>_. Inl ErrJson) demo_config None :: string Client option) = Some ?c"
  proof -
    have "cfg_Addrs demo_config \<noteq> []" by (simp add: demo_config_def)
    then have "(New (\<lambda>_. Some) (\<lambda>_. Inl ErrJson) demo_config None :: string Client option) \<noteq> None" using New_panics by blast
    then show ?thesis by (rule option.collapse [symmetric])
  qed
  have mem: "(''full_pulls'', ''error'') \<in> set (c_counters (lw_client (start_loop ?c)))"
    by (simp add: start_loop_def New_def fullPull_def pull_body_def new_client_def loadFromCache_def count_def default_config_def
        demo_config_def pickAddr_def cachePath_def second_def Let_def)
  from sdk_counters_typed [OF new rtranclp.rtrancl_refl this] mem show ?thesis by (simp add: start_loop_def)
qed

end
