(* ===== verification/Server_Routes.thy ===== *)
theory Server_Routes
  imports Raft_Server Metrics "HOL-Library.Monad_Syntax"
begin

text \<open>
  The wiring of the servers: \<^verbatim>\<open>New\<close>, \<^verbatim>\<open>newBase\<close>, \<^verbatim>\<open>handleFunc\<close> and \<^verbatim>\<open>ServeHTTP\<close> of
  \<^verbatim>\<open>server/server.go\<close>, \<^verbatim>\<open>registerWatchRoutes\<close> of \<^verbatim>\<open>server/watch.go\<close> and \<^verbatim>\<open>NewRaftServer\<close> of
  \<^verbatim>\<open>server/raft_server.go\<close>, over a model of \<^verbatim>\<open>http.ServeMux\<close> for patterns without methods, hosts and
  wildcards, the only ones the code uses. Every handler is wrapped in the metrics middleware.
  A request goes to the handler of the most specific pattern; a path that is not clean, or
  that lacks the slash of a subtree, is redirected.
\<close>

section \<open>http.ServeMux\<close>

text \<open>Percent-decoding of one path element; an element with a malformed escape is taken as it is.\<close>

fun PathUnescape :: "string \<Rightarrow> string option" where
  "PathUnescape [] = Some []"
| "PathUnescape (c # s) =
     (if c \<noteq> CHR ''%'' then map_option ((#) c) (PathUnescape s)
      else (case s of
          h # l # s' \<Rightarrow>
            (case (hex_val h, hex_val l) of
               (Some a, Some b) \<Rightarrow> map_option ((#) (char_of (16 * a + b))) (PathUnescape s')
             | _ \<Rightarrow> None)
        | _ \<Rightarrow> None))"

definition path_unescape :: "string \<Rightarrow> string" where
  "path_unescape s = (case PathUnescape s of None \<Rightarrow> s | Some u \<Rightarrow> u)"

text \<open>The elements of a request path as the routing tree sees them; a final slash is an element of its own.\<close>

function path_segments :: "string \<Rightarrow> string list" where
  "path_segments p =
     (if p = [] then []
      else if p = ''/'' then [''/'']
      else path_unescape (takeWhile (\<lambda>c. c \<noteq> CHR ''/'') (tl p)) # path_segments (dropWhile (\<lambda>c. c \<noteq> CHR ''/'') (tl p)))"
  by pat_completeness auto
termination
proof (relation "measure length")
  fix p :: string
  assume "p \<noteq> []"
  then have "length (tl p) < length p" by simp
  then show "(dropWhile (\<lambda>c. c \<noteq> CHR ''/'') (tl p), p) \<in> measure length"
    using length_dropWhile_le [of "\<lambda>c. c \<noteq> CHR ''/''" "tl p"] by simp
qed simp

declare path_segments.simps [simp del]

text \<open>A pattern: its literal elements, and whether it ends in a slash and so matches a subtree.\<close>

definition pattern_literals :: "string \<Rightarrow> string list" where
  "pattern_literals pat = Split (TrimSuffix (tl pat) ''/'') CHR ''/''"

definition pattern_multi :: "string \<Rightarrow> bool" where
  "pattern_multi pat = HasSuffix pat ''/''"

definition pattern_matches :: "string \<Rightarrow> string \<Rightarrow> bool" where
  "pattern_matches pat p =
     (let lits = pattern_literals pat; segs = path_segments p in
      if pattern_multi pat then take (length lits) segs = lits \<and> length lits < length segs
      else segs = lits)"

text \<open>The table, with panics on a pattern that is already registered (\<^term>\<open>None\<close>).\<close>

type_synonym 'h mux = "(string \<times> 'h) list"

definition mux_Handle :: "'h mux \<Rightarrow> string \<Rightarrow> 'h \<Rightarrow> 'h mux option" where
  "mux_Handle mux pat h = (if pat \<in> fst ` set mux then None else Some (mux @ [(pat, h)]))"

text \<open>The search of the tree prefers literal elements: it finds the matching pattern with the most.\<close>

definition more_specific :: "string \<times> 'h \<Rightarrow> string \<times> 'h \<Rightarrow> string \<times> 'h" where
  "more_specific a b = (if length (pattern_literals (fst a)) < length (pattern_literals (fst b)) then b else a)"

definition mux_match :: "'h mux \<Rightarrow> string \<Rightarrow> (string \<times> 'h) option" where
  "mux_match mux p = (case filter (\<lambda>(pat, _). pattern_matches pat p) mux of
     [] \<Rightarrow> None | e # es \<Rightarrow> Some (foldl more_specific e es))"

definition exactMatch :: "(string \<times> 'h) option \<Rightarrow> string \<Rightarrow> bool" where
  "exactMatch n p = (case n of None \<Rightarrow> False
     | Some (pat, _) \<Rightarrow>
         if \<not> pattern_multi pat then True
         else if p \<noteq> [] \<and> last p \<noteq> CHR ''/'' then False
         else length (pattern_literals pat) + 1 = length (filter (\<lambda>c. c = CHR ''/'') p))"

text \<open>Whether a request for \<open>p\<close> is redirected to \<^verbatim>\<open>p + "/"\<close>.\<close>

definition redirect_slash :: "'h mux \<Rightarrow> string \<Rightarrow> bool" where
  "redirect_slash mux p \<longleftrightarrow> \<not> exactMatch (mux_match mux p) p \<and> \<not> HasSuffix p ''/'' \<and>
     exactMatch (mux_match mux (p @ ''/'')) (p @ ''/'')"

datatype 'h routed = Handler string 'h | Redirect string | NotFound

definition mux_route :: "'h mux \<Rightarrow> Request \<Rightarrow> 'h routed" where
  "mux_route mux r =
     (let p = (if rq_Method r = ''CONNECT'' then rq_EscapedPath r else cleanPath (rq_EscapedPath r)) in
      if redirect_slash mux p then Redirect (cleanPath (rq_Path r) @ ''/'')
      else if p \<noteq> rq_EscapedPath r then Redirect p
      else (case mux_match mux p of None \<Rightarrow> NotFound | Some (pat, h) \<Rightarrow> Handler pat h))"

section \<open>Handlers behind the middleware\<close>

text \<open>
  The state of a running server with the increments of \<^verbatim>\<open>metrics.HTTPRequestsTotal\<close> by method,
  route and status class.
\<close>

record 's web =
  web_state :: 's
  web_requests :: "(string \<times> string \<times> string) list"

type_synonym 's handler = "Request \<Rightarrow> 's web \<Rightarrow> Response \<times> 's web"

text \<open>A handler writes its status and then its body. A panic passes the middleware uncounted.\<close>

definition with_metrics :: "string \<Rightarrow> (Request \<Rightarrow> 's \<Rightarrow> Response \<times> 's) \<Rightarrow> 's handler" where
  "with_metrics route fn r w =
     (case fn r (web_state w) of (resp, s) \<Rightarrow>
        if resp = aborted then (resp, w\<lparr>web_state := s\<rparr>)
        else (case Middleware route (rq_Method r) [WriteHeader (int (rsp_Status resp)), Write (rsp_Body resp)]
                \<lparr>nw_status = None, nw_body = []\<rparr> of
            (nw, labels) \<Rightarrow> (resp\<lparr>rsp_Status := nat (nw_sent nw), rsp_Body := nw_body nw\<rparr>,
              w\<lparr>web_state := s, web_requests := web_requests w @ [labels]\<rparr>)))"

definition handleFunc :: "'s handler mux \<Rightarrow> string \<Rightarrow> (Request \<Rightarrow> 's \<Rightarrow> Response \<times> 's) \<Rightarrow> 's handler mux option" where
  "handleFunc mux pattern fn = mux_Handle mux pattern (with_metrics pattern fn)"

section \<open>The routes\<close>

text \<open>
  What happens around a watch: the events that the wait returns and the revisions that the
  handler reads after it.
\<close>

record watch_env =
  we_wait :: "u64 \<Rightarrow> string \<Rightarrow> int \<Rightarrow> Event list"
  we_rev1 :: u64
  we_rev2 :: u64

definition registerWatchRoutes :: "watch_env \<Rightarrow> 's handler mux \<Rightarrow> 's handler mux option" where
  "registerWatchRoutes env mux =
     handleFunc mux ''/api/v1/watch/'' (\<lambda>r s. (handleWatch (we_wait env) (we_rev1 env) (we_rev2 env) r, s))"

definition healthz :: Response where
  "healthz = \<lparr>rsp_Status = 200, rsp_Header = [], rsp_Body = ''ok''\<rparr>"

text \<open>
  \<open>base\<close> gives the embedded base server of a state, \<open>wc\<close> the watch cache if the store is a
  watchable one, \<open>prom\<close> the handler of the metrics library, which is not wrapped.
\<close>

definition newBase :: "('s \<Rightarrow> 'a Server) \<Rightarrow> 'a Store \<Rightarrow> watch_env option \<Rightarrow> 's handler \<Rightarrow> 's handler mux option" where
  "newBase base S wc prom = do {
     mux \<leftarrow> handleFunc [] ''/api/v1/rev'' (\<lambda>r s. (handleRev S (base s), s));
     mux \<leftarrow> (case wc of None \<Rightarrow> Some mux | Some env \<Rightarrow> registerWatchRoutes env mux);
     mux \<leftarrow> handleFunc mux ''/healthz'' (\<lambda>r s. (healthz, s));
     mux_Handle mux ''/metrics'' prom
   }"

definition New_server :: "'a Store \<Rightarrow> watch_env option \<Rightarrow> 'a Server handler \<Rightarrow> 'a Server handler mux option" where
  "New_server S wc prom = do {
     mux \<leftarrow> newBase (\<lambda>s. s) S wc prom;
     handleFunc mux ''/api/v1/config/'' (\<lambda>r s. handleConfig S s r)
   }"

definition NewRaftServer ::
  "http_client \<Rightarrow> 'r raft \<Rightarrow> 'db bolt \<Rightarrow> watch_env \<Rightarrow> ('r, 'db) RaftServer handler
     \<Rightarrow> ('r, 'db) RaftServer handler mux option" where
  "NewRaftServer H R B env prom = do {
     mux \<leftarrow> newBase base_server (watchable_ops B) (Some env) prom;
     mux \<leftarrow> handleFunc mux ''/api/v1/config/'' (\<lambda>r rs. handleRaftConfig H R B rs r);
     mux \<leftarrow> handleFunc mux ''/admin/join'' (\<lambda>r rs. handleJoin R B rs r);
     mux \<leftarrow> handleFunc mux ''/admin/leave'' (\<lambda>r rs. handleLeave R rs r);
     handleFunc mux ''/admin/stats'' (\<lambda>r rs. (handleStats R rs, rs))
   }"

text \<open>
  \<^verbatim>\<open>ServeHTTP\<close>. \<open>redir\<close> is the answer of \<^verbatim>\<open>http.RedirectHandler\<close> with 301 for a target; a request for
  \<^verbatim>\<open>*\<close> is refused.
\<close>

definition notFound :: Response where
  "notFound = \<lparr>rsp_Status = 404,
     rsp_Header = [(''Content-Type'', ''text/plain; charset=utf-8''), (''X-Content-Type-Options'', ''nosniff'')],
     rsp_Body = ''404 page not found'' @ [CHR 0x0A]\<rparr>"

definition ServeHTTP :: "(Request \<Rightarrow> string \<Rightarrow> Response) \<Rightarrow> 's handler mux \<Rightarrow> 's handler" where
  "ServeHTTP redir mux r w =
     (if rq_Path r = ''*'' then (\<lparr>rsp_Status = 400, rsp_Header = [], rsp_Body = []\<rparr>, w)
      else (case mux_route mux r of
          Handler pat h \<Rightarrow> h r w
        | Redirect target \<Rightarrow> (redir r target, w)
        | NotFound \<Rightarrow> (notFound, w)))"

section \<open>The table\<close>

lemma mux_match_None: "mux_match mux p = None \<longleftrightarrow> (\<forall>(pat, h) \<in> set mux. \<not> pattern_matches pat p)"
proof -
  have "mux_match mux p = None \<longleftrightarrow> filter (\<lambda>(pat, _). pattern_matches pat p) mux = []"
    by (simp add: mux_match_def split: list.splits)
  then show ?thesis by (auto simp: filter_empty_conv)
qed

lemma foldl_more_specific:
  "foldl more_specific e es \<in> set (e # es) \<and>
   (\<forall>x \<in> set (e # es). length (pattern_literals (fst x)) \<le> length (pattern_literals (fst (foldl more_specific e es))))"
proof (induction es rule: rev_induct)
  case (snoc x es)
  then show ?case by (auto simp: more_specific_def split: if_splits)
qed simp

text \<open>The search finds a pattern of the table that matches, and none that matches is more specific.\<close>

lemma mux_match_Some:
  assumes "mux_match mux p = Some (pat, h)"
  shows "(pat, h) \<in> set mux" and "pattern_matches pat p"
    and "(pat', h') \<in> set mux \<Longrightarrow> pattern_matches pat' p \<Longrightarrow> length (pattern_literals pat') \<le> length (pattern_literals pat)"
proof -
  obtain e es where es: "filter (\<lambda>(pat, _). pattern_matches pat p) mux = e # es" "foldl more_specific e es = (pat, h)"
    using assms by (auto simp: mux_match_def split: list.splits)
  have mem: "x \<in> set (e # es) \<longleftrightarrow> x \<in> set mux \<and> pattern_matches (fst x) p" for x
    unfolding es(1) [symmetric] by (auto split: prod.splits)
  have "(pat, h) \<in> set (e # es)" using foldl_more_specific [of e es] es(2) by simp
  then show "(pat, h) \<in> set mux" and "pattern_matches pat p" using mem by auto
  show "(pat', h') \<in> set mux \<Longrightarrow> pattern_matches pat' p \<Longrightarrow> length (pattern_literals pat') \<le> length (pattern_literals pat)"
    using foldl_more_specific [of e es] es(2) mem [of "(pat', h')"] by fastforce
qed

lemma mux_match_only:
  assumes "distinct (map fst mux)" and "(pat, h) \<in> set mux" and "pattern_matches pat p"
    and "\<And>pat' h'. (pat', h') \<in> set mux \<Longrightarrow> pattern_matches pat' p \<Longrightarrow> pat' = pat"
  shows "mux_match mux p = Some (pat, h)"
proof -
  obtain pat' h' where m: "mux_match mux p = Some (pat', h')"
    using mux_match_None [of mux p] assms(2,3) by fastforce
  then have "pat' = pat" using mux_match_Some(1,2) assms(4) by metis
  with mux_match_Some(1) [OF m] assms(1,2) m show ?thesis by (metis eq_key_imp_eq_value)
qed

lemma path_unescape_plain: "CHR ''%'' \<notin> set s \<Longrightarrow> path_unescape s = s"
proof -
  have "CHR ''%'' \<notin> set s \<Longrightarrow> PathUnescape s = Some s" by (induction s) auto
  then show "CHR ''%'' \<notin> set s \<Longrightarrow> path_unescape s = s" by (simp add: path_unescape_def)
qed

lemma path_segments_step:
  assumes "CHR ''/'' \<notin> set e" "CHR ''%'' \<notin> set e" "e \<noteq> [] \<or> p \<noteq> []" "p \<noteq> [] \<Longrightarrow> hd p = CHR ''/''"
  shows "path_segments (CHR ''/'' # e @ p) = e # path_segments p"
proof -
  have "takeWhile (\<lambda>c. c \<noteq> CHR ''/'') (e @ p) = e" "dropWhile (\<lambda>c. c \<noteq> CHR ''/'') (e @ p) = p"
    using assms(1,4) by (cases p; auto simp: takeWhile_append dropWhile_append)+
  then show ?thesis
    using assms(2,3) by (subst path_segments.simps) (auto simp: path_unescape_plain)
qed

lemma path_segments_ne: "p \<noteq> [] \<Longrightarrow> path_segments p \<noteq> []"
  by (subst path_segments.simps) auto

lemma config_segments:
  "path_segments (config_path @ rest) = [''api'', ''v1'', ''config''] @ path_segments (CHR ''/'' # rest)"
  using path_segments_step [of "''api''" "''/v1/config/'' @ rest"] path_segments_step [of "''v1''" "''/config/'' @ rest"]
    path_segments_step [of "''config''" "''/'' @ rest"]
  by (simp add: config_path_def)

lemma config_slashes: "4 \<le> length (filter (\<lambda>c. c = CHR ''/'') (config_path @ rest))"
  by (simp add: config_path_def)

section \<open>The middleware on responses\<close>

lemma with_metrics_counts:
  assumes "fn r (web_state w) = (resp, s)" and "200 \<le> rsp_Status resp"
  shows "with_metrics route fn r w =
    (resp, \<lparr>web_state = s, web_requests = web_requests w @ [(rq_Method r, route, StatusClass (int (rsp_Status resp)))]\<rparr>)"
proof -
  have "resp \<noteq> aborted" using assms(2) by (auto simp: aborted_def)
  then show ?thesis
    using assms
    by (cases w; simp add: with_metrics_def Middleware_def Let_def sr_call_def sr_WriteHeader_def sr_Write_def nw_call_def nw_sent_def)
qed

text \<open>Whatever the handler does, the only labels added are the method, the route and a class.\<close>

definition status_classes :: "string list" where
  "status_classes = [''1xx'', ''2xx'', ''3xx'', ''4xx'', ''5xx'']"

lemma with_metrics_labels:
  assumes "(m, rt, c) \<in> set (web_requests (snd (with_metrics route fn r w)))" and "(m, rt, c) \<notin> set (web_requests w)"
  shows "m = rq_Method r \<and> rt = route \<and> c \<in> set status_classes"
proof -
  have "StatusClass st \<in> set status_classes" for st by (simp add: StatusClass_def status_classes_def)
  with assms show ?thesis by (auto simp: with_metrics_def Middleware_def Let_def split: prod.splits if_splits)
qed

section \<open>What a table promises\<close>

text \<open>
  A table whose config subtree belongs to a handler \<open>fn\<close> behind the middleware. Clean requests
  under the prefix reach that handler and are counted under the route, whatever else is
  registered.
\<close>

locale config_routes =
  fixes mux :: "'s handler mux" and fn :: "Request \<Rightarrow> 's \<Rightarrow> Response \<times> 's"
  assumes config_match: "mux_match mux (config_path @ rest) = Some (config_path, with_metrics config_path fn)"
begin

lemma config_route:
  assumes "rq_EscapedPath r = config_path @ rest" and "cleanPath (rq_EscapedPath r) = rq_EscapedPath r"
  shows "mux_route mux r = Handler config_path (with_metrics config_path fn)"
proof -
  have "\<not> redirect_slash mux (config_path @ rest)"
    using config_slashes [of "rest @ ''/''"] config_match [of "rest @ ''/''"]
    by (auto simp: redirect_slash_def exactMatch_def config_path_def pattern_multi_def pattern_literals_def HasSuffix_def
        TrimSuffix_def)
  then show ?thesis using assms config_match by (simp add: mux_route_def Let_def)
qed

lemma config_serve:
  assumes "rq_EscapedPath r = config_path @ rest" "cleanPath (rq_EscapedPath r) = rq_EscapedPath r" "rq_Path r \<noteq> ''*''"
    and "200 \<le> rsp_Status (fst (fn r (web_state w)))"
  shows "ServeHTTP redir mux r w = (fst (fn r (web_state w)), \<lparr>web_state = snd (fn r (web_state w)),
    web_requests = web_requests w @ [(rq_Method r, config_path, StatusClass (int (rsp_Status (fst (fn r (web_state w))))))]\<rparr>)"
  using assms(3,4) config_route [OF assms(1,2)]
  by (simp add: ServeHTTP_def with_metrics_counts [of fn r w "fst (fn r (web_state w))" "snd (fn r (web_state w))"])

end

text \<open>The tables of the two servers. Building them never panics.\<close>

lemma New_server_table:
  "New_server S wc prom = Some
     ([(''/api/v1/rev'', with_metrics ''/api/v1/rev'' (\<lambda>r s. (handleRev S s, s)))] @
      (case wc of None \<Rightarrow> [] | Some env \<Rightarrow> [(''/api/v1/watch/'', with_metrics ''/api/v1/watch/''
         (\<lambda>r s. (handleWatch (we_wait env) (we_rev1 env) (we_rev2 env) r, s)))]) @
      [(''/healthz'', with_metrics ''/healthz'' (\<lambda>r s. (healthz, s))), (''/metrics'', prom),
       (config_path, with_metrics config_path (\<lambda>r s. handleConfig S s r))])"
  by (cases wc) (simp_all add: New_server_def newBase_def handleFunc_def registerWatchRoutes_def mux_Handle_def config_path_def)

lemma NewRaftServer_table:
  "NewRaftServer H R B env prom = Some
     [(''/api/v1/rev'', with_metrics ''/api/v1/rev'' (\<lambda>r rs. (handleRev (watchable_ops B) (base_server rs), rs))),
      (''/api/v1/watch/'', with_metrics ''/api/v1/watch/''
         (\<lambda>r s. (handleWatch (we_wait env) (we_rev1 env) (we_rev2 env) r, s))),
      (''/healthz'', with_metrics ''/healthz'' (\<lambda>r s. (healthz, s))), (''/metrics'', prom),
      (config_path, with_metrics config_path (\<lambda>r rs. handleRaftConfig H R B rs r)),
      (''/admin/join'', with_metrics ''/admin/join'' (\<lambda>r rs. handleJoin R B rs r)),
      (''/admin/leave'', with_metrics ''/admin/leave'' (\<lambda>r rs. handleLeave R rs r)),
      (''/admin/stats'', with_metrics ''/admin/stats'' (\<lambda>r rs. (handleStats R rs, rs)))]"
  by (simp add: NewRaftServer_def newBase_def handleFunc_def registerWatchRoutes_def mux_Handle_def config_path_def)

lemma pattern_config [simp]: "pattern_matches config_path (config_path @ rest)"
  using path_segments_ne [of "CHR ''/'' # rest"]
  by (simp add: pattern_matches_def config_segments Let_def)
    (simp add: pattern_literals_def pattern_multi_def config_path_def TrimSuffix_def HasSuffix_def)

lemma pattern_others:
  "pat \<in> {''/api/v1/rev'', ''/api/v1/watch/'', ''/healthz'', ''/metrics'', ''/admin/join'', ''/admin/leave'', ''/admin/stats''} \<Longrightarrow>
     \<not> pattern_matches pat (config_path @ rest)"
  by (auto simp: pattern_matches_def config_segments pattern_literals_def pattern_multi_def TrimSuffix_def HasSuffix_def Let_def)

text \<open>A table with the config route and any of the others finds the config route.\<close>

definition other_patterns :: "string list" where
  "other_patterns = [''/api/v1/rev'', ''/api/v1/watch/'', ''/healthz'', ''/metrics'', ''/admin/join'', ''/admin/leave'', ''/admin/stats'']"

lemma table_config:
  assumes "distinct (map fst mux)" and "(config_path, h) \<in> set mux" and "fst ` set mux \<subseteq> insert config_path (set other_patterns)"
  shows "mux_match mux (config_path @ rest) = Some (config_path, h)"
proof (rule mux_match_only [OF assms(1,2) pattern_config])
  fix pat' h'
  assume "(pat', h') \<in> set mux" "pattern_matches pat' (config_path @ rest)"
  then show "pat' = config_path"
    using assms(3) pattern_others [of pat' rest] by (force simp: other_patterns_def)
qed

lemma config_not_other: "config_path \<notin> set other_patterns"
  by (simp add: config_path_def other_patterns_def)

lemma New_server_patterns:
  "map fst (the (New_server S wc prom)) = [''/api/v1/rev''] @ (if wc = None then [] else [''/api/v1/watch/'']) @
     [''/healthz'', ''/metrics'', config_path]"
  by (cases wc) (simp_all add: New_server_table)

lemma NewRaftServer_patterns:
  "map fst (the (NewRaftServer H R B env prom)) = [''/api/v1/rev'', ''/api/v1/watch/'', ''/healthz'', ''/metrics'', config_path,
     ''/admin/join'', ''/admin/leave'', ''/admin/stats'']"
  by (simp add: NewRaftServer_table)

interpretation standalone: config_routes "the (New_server S wc prom)" "\<lambda>r s. handleConfig S s r" for S wc prom
proof
  fix rest
  let ?mux = "the (New_server S wc prom)"
  have "distinct (map fst ?mux)" unfolding New_server_patterns by (simp add: config_path_def)
  moreover have "set (map fst ?mux) \<subseteq> insert config_path (set other_patterns)"
    unfolding New_server_patterns by (simp add: other_patterns_def)
  moreover have "(config_path, with_metrics config_path (\<lambda>r s. handleConfig S s r)) \<in> set ?mux"
    by (simp add: New_server_table)
  ultimately show "mux_match ?mux (config_path @ rest) = Some (config_path, with_metrics config_path (\<lambda>r s. handleConfig S s r))"
    by (intro table_config) simp_all
qed

interpretation clustered: config_routes "the (NewRaftServer H R B env prom)" "\<lambda>r rs. handleRaftConfig H R B rs r" for H R B env prom
proof
  fix rest
  let ?mux = "the (NewRaftServer H R B env prom)"
  have "distinct (map fst ?mux)" unfolding NewRaftServer_patterns by (simp add: config_path_def)
  moreover have "set (map fst ?mux) \<subseteq> insert config_path (set other_patterns)"
    unfolding NewRaftServer_patterns by (simp add: other_patterns_def)
  moreover have "(config_path, with_metrics config_path (\<lambda>r rs. handleRaftConfig H R B rs r)) \<in> set ?mux"
    by (simp add: NewRaftServer_table)
  ultimately show "mux_match ?mux (config_path @ rest)
      = Some (config_path, with_metrics config_path (\<lambda>r rs. handleRaftConfig H R B rs r))"
    by (intro table_config) simp_all
qed

section \<open>Properties of the servers\<close>

text \<open>\<^verbatim>\<open>NewRaftServer\<close> may not start from the table of \<^verbatim>\<open>New\<close>: the second config route would panic.\<close>

lemma config_registered_twice: "handleFunc (the (New_server S wc prom)) config_path fn = None"
proof -
  have "config_path \<in> set (map fst (the (New_server S wc prom)))" unfolding New_server_patterns by simp
  then show ?thesis by (simp add: handleFunc_def mux_Handle_def)
qed

text \<open>A request whose path is not clean never reaches a handler.\<close>

lemma unclean_redirected:
  assumes "rq_Method r \<noteq> ''CONNECT''" "cleanPath (rq_EscapedPath r) \<noteq> rq_EscapedPath r" "rq_Path r \<noteq> ''*''"
  shows "\<exists>target. ServeHTTP redir mux r w = (redir r target, w)"
  using assms by (simp add: ServeHTTP_def mux_route_def Let_def) blast

text \<open>The statuses of the config routes.\<close>

definition config_statuses :: "nat list" where
  "config_statuses = [200, 201, 400, 404, 405, 500]"

context kv_store
begin

lemma handleConfig_status:
  assumes inv: "invar (srv_store s)" and r: "kv_rev (abs (srv_store s)) < max_rev"
  shows "rsp_Status (fst (handleConfig S s r)) \<in> set config_statuses"
proof -
  obtain t n m where k: "configKey (rq_Path r) = Inr (t, n, m)" using configKey_total by (metis prod_cases3)
  have put: "rsp_Status (fst (handlePut S s r t n m)) \<in> set config_statuses"
  proof (cases "read_limited body_limit (rq_Body r)")
    case (Inl e)
    then show ?thesis by (simp add: handlePut_def httpError_def config_statuses_def)
  next
    case (Inr body)
    obtain q s' where "handlePut S s r t n m = (q, s')" by (cases "handlePut S s r t n m")
    with handlePut_spec [OF inv r Inr this] show ?thesis
      by (auto simp: writeJSON_def httpError_def config_statuses_def split: prod.splits sum.splits if_splits)
  qed
  have del: "rsp_Status (fst (handleDelete S s t n m)) \<in> set config_statuses"
  proof -
    obtain q s' where "handleDelete S s t n m = (q, s')" by (cases "handleDelete S s t n m")
    with handleDelete_spec [OF inv r this] show ?thesis
      by (auto simp: writeJSON_def config_statuses_def split: prod.splits sum.splits)
  qed
  have "rsp_Status (handleGet S s t n m) \<in> set config_statuses" "rsp_Status (handleList S s t n) \<in> set config_statuses"
    unfolding handleGet_spec [OF inv] handleList_spec [OF inv]
    by (simp_all add: writeJSON_def httpError_def config_statuses_def split: option.splits)
  then show ?thesis
    using put del by (simp add: handleConfig_serial k httpError_def) (simp add: config_statuses_def)
qed

end

text \<open>C11: the standalone server routes and answers every config request. Over a well-formed store, a
  request under the config prefix whose path is clean is answered by the config handler, with
  the handler's state, and with one of the statuses 200, 201, 400, 404, 405 and 500: no panic,
  no redirect. It is counted exactly once, under the route and the class of that status.\<close>

theorem standalone_serves:
  assumes "bolt_api B" and "ws_wf B (srv_store (web_state w))" and "kv_rev (ws_abs B (srv_store (web_state w))) < max_rev"
    and "HasPrefix (rq_EscapedPath r) config_path" "cleanPath (rq_EscapedPath r) = rq_EscapedPath r" "rq_Path r \<noteq> ''*''"
    and "handleConfig (watchable_ops B) (web_state w) r = (resp, s')"
  shows "\<exists>mux. New_server (watchable_ops B) wc prom = Some mux \<and>
    ServeHTTP redir mux r w = (resp, \<lparr>web_state = s',
      web_requests = web_requests w @ [(rq_Method r, config_path, StatusClass (int (rsp_Status resp)))]\<rparr>) \<and>
    rsp_Status resp \<in> set config_statuses"
proof -
  obtain rest where rest: "rq_EscapedPath r = config_path @ rest" using assms(4) by (auto simp: HasPrefix_iff)
  have st: "rsp_Status resp \<in> set config_statuses"
    using kv_store.handleConfig_status [OF bolt_api.ws_kv_store [OF assms(1)] assms(2,3), of r] assms(7) by simp
  then have "200 \<le> rsp_Status (fst (handleConfig (watchable_ops B) (web_state w) r))"
    by (auto simp: assms(7) config_statuses_def)
  from standalone.config_serve [OF rest assms(5,6) this, of redir wc prom] show ?thesis
    using st assms(7) New_server_table [of "watchable_ops B" wc prom] by auto
qed

theorem standalone_serves_witness:
  "\<exists>mux. New_server (watchable_ops mem_sure) None (\<lambda>r w. (healthz, w)) = Some mux \<and>
    ServeHTTP (\<lambda>r t. notFound) mux (demo_request ''PUT'' ''/api/v1/config/t/n/m'' ''v'')
      \<lparr>web_state = demo_server, web_requests = []\<rparr>
    = (fst demo_put_resp, \<lparr>web_state = snd demo_put_resp, web_requests = [(''PUT'', ''/api/v1/config/'', ''2xx'')]\<rparr>)"
proof -
  let ?r = "demo_request ''PUT'' ''/api/v1/config/t/n/m'' ''v''" and ?w = "\<lparr>web_state = demo_server, web_requests = []\<rparr>"
  have w: "web_state ?w = demo_server" by simp
  have wf: "ws_wf mem_sure (srv_store (web_state ?w))" unfolding w by (rule demo_server_ok(1))
  have rev: "kv_rev (ws_abs mem_sure (srv_store (web_state ?w))) < max_rev"
    unfolding w by (simp only: demo_server_ok(2)) (simp add: max_rev_def)
  have h: "handleConfig (watchable_ops mem_sure) (web_state ?w) ?r = (fst demo_put_resp, snd demo_put_resp)"
    by (simp add: demo_put_resp_def)
  have p: "HasPrefix (rq_EscapedPath ?r) config_path" "cleanPath (rq_EscapedPath ?r) = rq_EscapedPath ?r" "rq_Path ?r \<noteq> ''*''"
    by (simp_all add: demo_request_def HasPrefix_def config_path_def cleanPath_def path_Clean_def)
  have c: "StatusClass (int (rsp_Status (fst demo_put_resp))) = ''2xx''" by (simp add: demo_put_status StatusClass_def)
  show ?thesis
    using standalone_serves [OF sure.bolt_api_axioms wf rev p h, of None "\<lambda>r w. (healthz, w)" "\<lambda>r t. notFound"]
    unfolding c by (auto simp: demo_request_def config_path_def)
qed

text \<open>The requests of a server's life, in the order in which they are counted.\<close>

definition serve_all :: "(Request \<Rightarrow> string \<Rightarrow> Response) \<Rightarrow> 's handler mux \<Rightarrow> 's web \<Rightarrow> Request list \<Rightarrow> 's web" where
  "serve_all redir mux w rs = foldl (\<lambda>w r. snd (ServeHTTP redir mux r w)) w rs"

text \<open>Every handler of a table counts under its pattern or does not count.\<close>

definition silent :: "'s handler \<Rightarrow> bool" where
  "silent h \<longleftrightarrow> (\<forall>r w. web_requests (snd (h r w)) = web_requests w)"

definition counting_table :: "'s handler mux \<Rightarrow> bool" where
  "counting_table mux \<longleftrightarrow> (\<forall>(pat, h) \<in> set mux.
     (\<exists>fn. h = with_metrics pat fn) \<or> silent h)"

lemma ServeHTTP_labels:
  assumes "counting_table mux" and "(m, rt, c) \<in> set (web_requests (snd (ServeHTTP redir mux r w)))"
    and "(m, rt, c) \<notin> set (web_requests w)"
  shows "m = rq_Method r \<and> c \<in> set status_classes \<and> (\<exists>h. (rt, h) \<in> set mux \<and> \<not> silent h)"
proof -
  obtain pat h where h: "mux_route mux r = Handler pat h" "(m, rt, c) \<in> set (web_requests (snd (h r w)))"
    using assms(2,3) by (auto simp: ServeHTTP_def split: if_splits routed.splits)
  then have "(pat, h) \<in> set mux"
    using mux_match_Some(1) by (auto simp: mux_route_def Let_def split: if_splits option.splits)
  moreover have "\<not> silent h" using h(2) assms(3) unfolding silent_def by metis
  moreover from calculation assms(1) obtain fn where "h = with_metrics pat fn" by (fastforce simp: counting_table_def)
  ultimately show ?thesis using with_metrics_labels [of m rt c pat fn r w] h(2) assms(3) by auto
qed

lemma serve_all_labels:
  assumes "counting_table mux" and "(m, rt, c) \<in> set (web_requests (serve_all redir mux w rs))"
    and "(m, rt, c) \<notin> set (web_requests w)"
  shows "m \<in> rq_Method ` set rs \<and> c \<in> set status_classes \<and> (\<exists>h. (rt, h) \<in> set mux \<and> \<not> silent h)"
  using assms(2)
proof (induction rs rule: rev_induct)
  case Nil
  then show ?case using assms(3) by (simp add: serve_all_def)
next
  case (snoc r rs)
  show ?case
  proof (cases "(m, rt, c) \<in> set (web_requests (serve_all redir mux w rs))")
    case True
    then show ?thesis using snoc.IH by auto
  next
    case False
    then show ?thesis using ServeHTTP_labels [OF assms(1) _ False, of redir r] snoc.prems by (simp add: serve_all_def)
  qed
qed

text \<open>C14: the labels of the request counter stay bounded, but for the method. Whatever requests a
  cluster node serves, each series of \<^verbatim>\<open>paladin_http_requests_total\<close> has one of the seven counted
  route patterns, never a raw path, and one of five status classes; its method is one that some
  request carried, whatever that is.\<close>

theorem route_labels_bounded:
  assumes "NewRaftServer H R B env prom = Some mux" and "\<And>r w. web_requests (snd (prom r w)) = web_requests w"
    and "web_requests w = []" and "(m, route, c) \<in> set (web_requests (serve_all redir mux w rs))"
  shows "route \<in> {''/api/v1/rev'', ''/api/v1/watch/'', ''/healthz'', ''/api/v1/config/'', ''/admin/join'', ''/admin/leave'',
      ''/admin/stats''} \<and> c \<in> set status_classes \<and> m \<in> rq_Method ` set rs"
proof -
  have mux: "mux = the (NewRaftServer H R B env prom)" using assms(1) by simp
  have prom: "silent prom" using assms(2) by (simp add: silent_def)
  then have "counting_table mux" unfolding mux NewRaftServer_table by (auto simp: counting_table_def)
  from serve_all_labels [OF this assms(4)] assms(3) obtain h
    where h: "m \<in> rq_Method ` set rs" "c \<in> set status_classes" "(route, h) \<in> set mux" "\<not> silent h" by auto
  from h(3,4) prom have "route \<in> set (map fst mux) - {''/metrics''}"
    unfolding mux NewRaftServer_table by (auto simp: config_path_def)
  with h(1,2) show ?thesis unfolding mux NewRaftServer_patterns config_path_def by auto
qed

theorem route_labels_bounded_witness:
  "(''BREW'', ''/healthz'', ''2xx'') \<in> set (web_requests (serve_all (\<lambda>r t. notFound)
     (the (NewRaftServer demo_client follower_raft mem_sure \<lparr>we_wait = \<lambda>_ _ _. [], we_rev1 = 0, we_rev2 = 0\<rparr> (\<lambda>r w. (healthz, w))))
     \<lparr>web_state = demo_follower, web_requests = []\<rparr> [demo_request ''BREW'' ''/healthz'' []])) \<and>
   ''/healthz'' \<in> {''/api/v1/rev'', ''/api/v1/watch/'', ''/healthz'', ''/api/v1/config/'', ''/admin/join'', ''/admin/leave'',
      ''/admin/stats''} \<and> ''2xx'' \<in> set status_classes"
proof -
  let ?prom = "\<lambda>r w. (healthz, w)" and ?env = "\<lparr>we_wait = \<lambda>_ _ _. [], we_rev1 = 0, we_rev2 = 0\<rparr>"
  let ?mux = "the (NewRaftServer demo_client follower_raft mem_sure ?env ?prom)"
  have segs: "path_segments ''/healthz'' = [''healthz'']" "path_segments ''/healthz/'' = [''healthz'', ''/'']"
    using path_segments_step [of "''healthz''" "[]"] path_segments_step [of "''healthz''" "''/''"]
    by (simp_all add: path_segments.simps [of "[]"] path_segments.simps [of "''/''"])
  have "mux_match ?mux ''/healthz'' = Some (''/healthz'', with_metrics ''/healthz'' (\<lambda>r s. (healthz, s)))"
    by (simp add: mux_match_def NewRaftServer_table pattern_matches_def segs pattern_literals_def pattern_multi_def
        TrimSuffix_def HasSuffix_def config_path_def)
  moreover have "cleanPath ''/healthz'' = ''/healthz''" by (simp add: cleanPath_def path_Clean_def)
  ultimately have "mux_route ?mux (demo_request ''BREW'' ''/healthz'' []) =
      Handler ''/healthz'' (with_metrics ''/healthz'' (\<lambda>r s. (healthz, s)))"
    by (simp add: mux_route_def demo_request_def redirect_slash_def exactMatch_def pattern_multi_def HasSuffix_def Let_def)
  then have l: "(''BREW'', ''/healthz'', ''2xx'') \<in> set (web_requests (serve_all (\<lambda>r t. notFound) ?mux
      \<lparr>web_state = demo_follower, web_requests = []\<rparr> [demo_request ''BREW'' ''/healthz'' []]))"
    by (simp add: serve_all_def ServeHTTP_def demo_request_def with_metrics_counts healthz_def StatusClass_def)
  have "NewRaftServer demo_client follower_raft mem_sure ?env ?prom = Some ?mux" by (simp add: NewRaftServer_table)
  from route_labels_bounded [OF this _ _ l] l show ?thesis by simp
qed

end
