(* ===== verification/Logger.thy ===== *)
theory Logger
  imports Go_Fields
begin

text \<open>
  \<^verbatim>\<open>internal/logger/logger.go\<close>: the choice of level and format, and the state of the package, the
  \<^verbatim>\<open>sync.Once\<close> and the root logger. A logger is its handler's settings and the attributes that
  \<^verbatim>\<open>With\<close> added. The environment variables, what \<^verbatim>\<open>Stat\<close> gives for standard error, and
  standard error itself are parameters. Writers are values of a type \<open>'w\<close>.
\<close>

section \<open>Configuration\<close>

definition FormatText :: string where "FormatText = ''text''"

definition FormatJSON :: string where "FormatJSON = ''json''"

definition envLevel :: string where "envLevel = ''PALADIN_LOG_LEVEL''"

definition envFormat :: string where "envFormat = ''PALADIN_LOG_FORMAT''"

record 'w log_config =
  lc_Level :: string
  lc_Format :: string
  lc_Writer :: "'w option"
  lc_AddSource :: bool

definition zero_config :: "'w log_config" where
  "zero_config = \<lparr>lc_Level = [], lc_Format = [], lc_Writer = None, lc_AddSource = False\<rparr>"

record 'w log_env =
  le_Getenv :: "string \<Rightarrow> string"
  le_Stderr :: 'w
  le_Stat :: "string + 32 word"

datatype log_level = LevelDebug | LevelInfo | LevelWarn | LevelError

definition resolveLevel :: "string \<Rightarrow> string \<Rightarrow> log_level" where
  "resolveLevel cfg env =
     (let pick = (if cfg = [] then env else cfg); l = ToLower (TrimSpace pick) in
      if l = ''debug'' then LevelDebug
      else if l = ''warn'' \<or> l = ''warning'' then LevelWarn
      else if l = ''error'' then LevelError
      else LevelInfo)"

text \<open>The check of \<^verbatim>\<open>os.Stderr\<close>: its mode, or the error of \<^verbatim>\<open>Stat\<close>; a terminal is a character device.\<close>

definition ModeCharDevice :: "32 word" where
  "ModeCharDevice = push_bit 21 1"

definition isTerminal :: "string + 32 word \<Rightarrow> bool" where
  "isTerminal stat = (case stat of Inl e \<Rightarrow> False | Inr mode \<Rightarrow> and mode ModeCharDevice \<noteq> 0)"

definition resolveFormat :: "bool \<Rightarrow> string \<Rightarrow> string \<Rightarrow> string" where
  "resolveFormat terminal cfg env =
     (let pick = (if cfg = [] then env else cfg); f = ToLower (TrimSpace pick) in
      if f = FormatJSON then FormatJSON
      else if f = FormatText then FormatText
      else if terminal then FormatText
      else FormatJSON)"

section \<open>Loggers\<close>

datatype log_handler = JSONHandler | TextHandler

record 'w slogger =
  lg_handler :: log_handler
  lg_writer :: 'w
  lg_level :: log_level
  lg_addSource :: bool
  lg_attrs :: "(string \<times> string) list"

definition build :: "'w log_env \<Rightarrow> 'w log_config \<Rightarrow> 'w slogger" where
  "build E cfg =
     (let level = resolveLevel (lc_Level cfg) (le_Getenv E envLevel);
          fmt = resolveFormat (isTerminal (le_Stat E)) (lc_Format cfg) (le_Getenv E envFormat);
          w = (case lc_Writer cfg of None \<Rightarrow> le_Stderr E | Some w \<Rightarrow> w) in
      \<lparr>lg_handler = (if fmt = FormatJSON then JSONHandler else TextHandler), lg_writer = w, lg_level = level,
       lg_addSource = lc_AddSource cfg, lg_attrs = []\<rparr>)"

definition logger_With :: "'w slogger \<Rightarrow> string \<Rightarrow> string \<Rightarrow> 'w slogger" where
  "logger_With lg k v = lg\<lparr>lg_attrs := lg_attrs lg @ [(k, v)]\<rparr>"

section \<open>The state of the package\<close>

text \<open>\<open>ls_done\<close> says whether the \<^verbatim>\<open>sync.Once\<close> has run, \<open>ls_default\<close> what \<^verbatim>\<open>slog.SetDefault\<close> got.\<close>

record 'w log_state =
  ls_done :: bool
  ls_base :: "'w slogger option"
  ls_default :: "'w slogger option"

definition log_start :: "'w log_state" where
  "log_start = \<lparr>ls_done = False, ls_base = None, ls_default = None\<rparr>"

definition log_Init :: "'w log_env \<Rightarrow> 'w log_config \<Rightarrow> 'w log_state \<Rightarrow> 'w log_state" where
  "log_Init E cfg st =
     (if ls_done st then st
      else \<lparr>ls_done = True, ls_base = Some (build E cfg), ls_default = Some (build E cfg)\<rparr>)"

definition log_Reset :: "'w log_state \<Rightarrow> 'w log_state" where
  "log_Reset st = st\<lparr>ls_done := False, ls_base := None\<rparr>"

text \<open>\<^verbatim>\<open>L\<close> and \<^verbatim>\<open>Default\<close>; a nil root logger is a panic in \<^verbatim>\<open>L\<close> and a nil result of \<^verbatim>\<open>Default\<close>.\<close>

definition auto_init :: "'w log_env \<Rightarrow> 'w log_state \<Rightarrow> 'w log_state" where
  "auto_init E st = (if ls_base st = None then log_Init E zero_config st else st)"

definition log_L :: "'w log_env \<Rightarrow> string \<Rightarrow> 'w log_state \<Rightarrow> 'w slogger option \<times> 'w log_state" where
  "log_L E subsystem st =
     (let st = auto_init E st in (map_option (\<lambda>b. logger_With b ''subsystem'' subsystem) (ls_base st), st))"

definition log_Default :: "'w log_env \<Rightarrow> 'w log_state \<Rightarrow> 'w slogger option \<times> 'w log_state" where
  "log_Default E st = (let st = auto_init E st in (ls_base st, st))"

section \<open>Properties\<close>

text \<open>Calls on the package, and the state after a sequence of them.\<close>

datatype 'w log_call = CInit "'w log_config" | CL string | CDefault | CReset

definition log_exec :: "'w log_env \<Rightarrow> 'w log_state \<Rightarrow> 'w log_call \<Rightarrow> 'w log_state" where
  "log_exec E st c = (case c of CInit cfg \<Rightarrow> log_Init E cfg st | CL s \<Rightarrow> snd (log_L E s st)
     | CDefault \<Rightarrow> snd (log_Default E st) | CReset \<Rightarrow> log_Reset st)"

definition log_run :: "'w log_env \<Rightarrow> 'w log_call list \<Rightarrow> 'w log_state" where
  "log_run E cs = foldl (log_exec E) log_start cs"

text \<open>The once has run exactly when there is a root logger.\<close>

definition log_ok :: "'w log_state \<Rightarrow> bool" where
  "log_ok st \<longleftrightarrow> (ls_done st \<longleftrightarrow> ls_base st \<noteq> None)"

lemma log_exec_ok: "log_ok st \<Longrightarrow> log_ok (log_exec E st c)"
  by (cases c) (auto simp: log_exec_def log_ok_def log_Init_def log_L_def log_Default_def log_Reset_def auto_init_def Let_def)

lemma log_run_ok: "log_ok (log_run E cs)"
  by (induction cs rule: rev_induct) (simp_all add: log_run_def log_exec_ok, simp add: log_ok_def log_start_def)

text \<open>The configuration that a call would initialise the package with.\<close>

definition call_config :: "'w log_call \<Rightarrow> 'w log_config" where
  "call_config c = (case c of CInit cfg \<Rightarrow> cfg | _ \<Rightarrow> zero_config)"

text \<open>A state without a root logger whose once has not run: the start, and after \<^verbatim>\<open>Reset\<close>.\<close>

definition log_fresh :: "'w log_state \<Rightarrow> bool" where
  "log_fresh st \<longleftrightarrow> \<not> ls_done st \<and> ls_base st = None"

lemma log_exec_first: "log_fresh st \<Longrightarrow> c \<noteq> CReset \<Longrightarrow> log_exec E st c =
    \<lparr>ls_done = True, ls_base = Some (build E (call_config c)), ls_default = Some (build E (call_config c))\<rparr>"
  by (cases c) (auto simp: log_exec_def log_Init_def log_L_def log_Default_def auto_init_def log_fresh_def call_config_def Let_def)

lemma log_exec_later: "ls_done st \<Longrightarrow> ls_base st = Some b \<Longrightarrow> c \<noteq> CReset \<Longrightarrow> log_exec E st c = st"
  by (cases c) (auto simp: log_exec_def log_Init_def log_L_def log_Default_def auto_init_def Let_def)

lemma log_run_fresh: "pre = [] \<or> last pre = CReset \<Longrightarrow> log_fresh (log_run E pre)"
  by (cases pre rule: rev_cases) (auto simp: log_run_def log_fresh_def log_start_def log_exec_def log_Reset_def)

lemma log_run_first:
  assumes "pre = [] \<or> last pre = CReset"
  shows "CReset \<notin> set (c # cs) \<Longrightarrow> log_run E (pre @ c # cs) =
    \<lparr>ls_done = True, ls_base = Some (build E (call_config c)), ls_default = Some (build E (call_config c))\<rparr>"
proof (induction cs rule: rev_induct)
  case Nil
  then show ?case using log_exec_first [OF log_run_fresh [OF assms, of E], of c E] by (simp add: log_run_def)
next
  case (snoc x cs)
  then have "log_run E (pre @ c # cs) = \<lparr>ls_done = True, ls_base = Some (build E (call_config c)), ls_default = Some (build E (call_config c))\<rparr>"
    by simp
  then show ?case using snoc.prems log_exec_later [of "log_run E (pre @ c # cs)" _ x E] by (auto simp: log_run_def)
qed

lemma logger_With_sel: "lg_level (logger_With lg k v) = lg_level lg" "lg_handler (logger_With lg k v) = lg_handler lg"
  by (simp_all add: logger_With_def)

text \<open>The root logger has no attributes.\<close>

lemma log_run_attrs: "ls_base (log_run E cs) = Some b \<Longrightarrow> lg_attrs b = []"
proof (induction cs arbitrary: b rule: rev_induct)
  case Nil
  then show ?case by (simp add: log_run_def log_start_def)
next
  case (snoc c cs)
  let ?st = "log_run E cs"
  have step: "log_run E (cs @ [c]) = log_exec E ?st c" by (simp add: log_run_def)
  show ?case
  proof (cases "ls_base ?st")
    case None
    then have "\<not> ls_done ?st" using log_run_ok [of E cs] by (simp add: log_ok_def)
    then show ?thesis using snoc.prems None unfolding step
      by (cases c) (auto simp: log_exec_def log_Init_def log_L_def log_Default_def log_Reset_def auto_init_def Let_def build_def)
  next
    case (Some a)
    then have "ls_done ?st" using log_run_ok [of E cs] by (simp add: log_ok_def)
    with Some snoc show ?thesis unfolding step
      by (cases "c = CReset") (auto simp: log_exec_later, simp add: log_exec_def log_Reset_def)
  qed
qed

text \<open>C30: the first call after a reset decides. After any calls of \<^verbatim>\<open>Init\<close>, \<^verbatim>\<open>L\<close>, \<^verbatim>\<open>Default\<close> and \<^verbatim>\<open>Reset\<close>, \<^verbatim>\<open>L\<close>
  returns a logger and does not panic, with the subsystem as its only attribute. Its settings
  are those of the first call since the last \<^verbatim>\<open>Reset\<close>, or since the start of the process: the
  configuration of that call, or the defaults when it was not \<^verbatim>\<open>Init\<close>, whatever was configured
  before the reset and whatever later calls ask for. Right after a \<^verbatim>\<open>Reset\<close>, \<^verbatim>\<open>L\<close> itself is the
  first call and takes the defaults.\<close>

theorem first_call_decides:
  fixes E :: "'w log_env"
  shows "\<exists>lg st. log_L E sub (log_run E cs) = (Some lg, st) \<and> lg_attrs lg = [(''subsystem'', sub)] \<and>
    (\<forall>before c after. cs = before @ c # after \<and> (before = [] \<or> last before = CReset) \<and> CReset \<notin> set (c # after) \<longrightarrow>
       lg = logger_With (build E (call_config c)) ''subsystem'' sub) \<and>
    (cs = [] \<or> last cs = CReset \<longrightarrow> lg = logger_With (build E zero_config) ''subsystem'' sub)"
proof (cases "ls_base (log_run E cs)")
  case None
  then have "\<not> ls_done (log_run E cs)" using log_run_ok [of E cs] by (simp add: log_ok_def)
  then have L: "log_L E sub (log_run E cs) = (Some (logger_With (build E zero_config) ''subsystem'' sub), log_Init E zero_config (log_run E cs))"
    using None by (simp add: log_L_def auto_init_def log_Init_def Let_def)
  have "False" if "cs = before @ c # after" "before = [] \<or> last before = CReset" "CReset \<notin> set (c # after)" for before c after
    using log_run_first [OF that(2,3), of E] None that(1) by simp
  then show ?thesis unfolding L by (fastforce simp: logger_With_def build_def Let_def)
next
  case (Some b)
  then have L: "log_L E sub (log_run E cs) = (Some (logger_With b ''subsystem'' sub), log_run E cs)"
    by (simp add: log_L_def auto_init_def Let_def)
  have "b = build E (call_config c)"
    if "cs = before @ c # after" "before = [] \<or> last before = CReset" "CReset \<notin> set (c # after)" for before c after
    using log_run_first [OF that(2,3), of E] Some that(1) by simp
  moreover have "\<not> (cs = [] \<or> last cs = CReset)" using log_run_fresh [of cs E] Some by (auto simp: log_fresh_def)
  moreover have "lg_attrs (logger_With b ''subsystem'' sub) = [(''subsystem'', sub)]" using log_run_attrs [OF Some] by (simp add: logger_With_def)
  ultimately show ?thesis unfolding L by blast
qed

definition demo_log_env :: "unit log_env" where
  "demo_log_env = \<lparr>le_Getenv = (\<lambda>_. ''error''), le_Stderr = (), le_Stat = Inr 0\<rparr>"

definition demo_log_calls :: "unit log_call list" where
  "demo_log_calls = [CInit (zero_config\<lparr>lc_Level := ''warn''\<rparr>), CReset, CInit (zero_config\<lparr>lc_Level := ''  DEBUG''\<rparr>), CDefault]"

theorem first_call_decides_witness:
  "\<exists>lg st. log_L demo_log_env ''raft'' (log_run demo_log_env demo_log_calls) = (Some lg, st) \<and>
     lg_level lg = LevelDebug \<and> lg_handler lg = JSONHandler"
proof -
  let ?c = "CInit (zero_config\<lparr>lc_Level := ''  DEBUG''\<rparr>) :: unit log_call"
  have "resolveLevel ''  DEBUG'' ''error'' = LevelDebug" "resolveFormat False [] ''error'' = FormatJSON"
    by code_simp+
  then have b: "lg_level (build demo_log_env (call_config ?c)) = LevelDebug" "lg_handler (build demo_log_env (call_config ?c)) = JSONHandler"
    by (simp_all add: build_def demo_log_env_def call_config_def zero_config_def isTerminal_def Let_def)
  have split: "demo_log_calls = [CInit (zero_config\<lparr>lc_Level := ''warn''\<rparr>), CReset] @ ?c # [CDefault]" "CReset \<notin> set (?c # [CDefault])"
    "last [CInit (zero_config\<lparr>lc_Level := ''warn''\<rparr>), CReset] = (CReset :: unit log_call)"
    by (simp_all add: demo_log_calls_def)
  obtain lg st where "log_L demo_log_env ''raft'' (log_run demo_log_env demo_log_calls) = (Some lg, st)"
    "lg = logger_With (build demo_log_env (call_config ?c)) ''subsystem'' ''raft''"
    using first_call_decides [of demo_log_env "''raft''" demo_log_calls] split by blast
  then show ?thesis using b by (simp add: logger_With_sel)
qed

end
