(* ===== verification/Go_Float.thy ===== *)
theory Go_Float
  imports Complex_Main "HOL-Library.Log_Nat" Go_Fields
begin

text \<open>
  The \<^verbatim>\<open>float64\<close> arithmetic of the statistics code, exactly: a finite non-negative double is the
  rational number it stands for, and every operation rounds its exact result to the nearest
  double, ties to even. All values here lie far inside the normal range, so neither subnormal
  numbers nor infinities occur. The verb \<^verbatim>\<open>%.nf\<close> prints the decimal nearest to the exact value.
\<close>

section \<open>Rounding\<close>

definition round_even :: "rat \<Rightarrow> int" where
  "round_even x = (let f = \<lfloor>x\<rfloor>; d = x - of_int f in
     if d < 1/2 \<or> (d = 1/2 \<and> even f) then f else f + 1)"

text \<open>The exponent of a positive number to a base.\<close>

definition ilog :: "nat \<Rightarrow> rat \<Rightarrow> int" where
  "ilog b x = (let (p, q) = quotient_of x; e = int (floorlog b (nat p)) - int (floorlog b (nat q)) in
     if of_nat b powi e \<le> x then e else e - 1)"

abbreviation ilog2 :: "rat \<Rightarrow> int" where
  "ilog2 \<equiv> ilog 2"

definition float64 :: "rat \<Rightarrow> rat" where
  "float64 x = (if x \<le> 0 then 0
     else let u = 2 powi (ilog2 x - 52) in of_int (round_even (x / u)) * u)"

section \<open>Printing\<close>

text \<open>\<^verbatim>\<open>%.nf\<close> of a non-negative number: the digits before and after the point.\<close>

definition pad_left :: "nat \<Rightarrow> string \<Rightarrow> string" where
  "pad_left w s = replicate (w - length s) CHR ''0'' @ s"

definition fmt_fixed :: "nat \<Rightarrow> rat \<Rightarrow> string" where
  "fmt_fixed n x = (let k = nat (round_even (x * 10 ^ n)) in
     dec_of_nat (k div 10 ^ n) @ (if n = 0 then [] else ''.'' @ pad_left n (dec_of_nat (k mod 10 ^ n))))"

section \<open>Lemmas\<close>

lemma round_even_int [simp]: "round_even (of_int n) = n"
  by (simp add: round_even_def)

lemma round_even_le: "x \<le> of_int n \<Longrightarrow> round_even x \<le> n"
proof -
  assume x: "x \<le> of_int n"
  show ?thesis
  proof (cases "\<lfloor>x\<rfloor> < n")
    case True
    then show ?thesis by (auto simp: round_even_def Let_def)
  next
    case False
    with x have "x = of_int n" by (metis floor_le_iff linorder_not_less le_floor_iff order_antisym_conv)
    then show ?thesis by simp
  qed
qed

lemma round_even_ge:
  assumes "of_int n \<le> x"
  shows "n \<le> round_even x"
proof -
  have "n \<le> \<lfloor>x\<rfloor>" using assms by (simp add: le_floor_iff)
  then show ?thesis by (auto simp: round_even_def Let_def)
qed

lemma floorlog_rat:
  assumes "0 < (a :: int)" "1 < b"
  shows "(of_nat b :: rat) ^ floorlog b (nat a) / of_nat b \<le> of_int a" and "of_int a < (of_nat b :: rat) ^ floorlog b (nat a)"
proof -
  let ?f = "floorlog b (nat a)"
  have f: "b ^ (?f - 1) \<le> nat a" "nat a < b ^ ?f" using assms floorlog_bounds [of "nat a" b] by auto
  have "?f \<noteq> 0" using assms by (simp add: floorlog_eq_zero_iff)
  then obtain g where g: "?f = Suc g" using not0_implies_Suc by blast
  have "int (b ^ g) \<le> a" "a < int (b ^ ?f)" using f assms g by (simp_all add: le_nat_iff nat_less_iff)
  then have "rat_of_int (int (b ^ g)) \<le> of_int a" "rat_of_int a < of_int (int (b ^ ?f))" by (simp_all only: of_int_le_iff of_int_less_iff)
  then show "(of_nat b :: rat) ^ ?f / of_nat b \<le> of_int a" and "of_int a < (of_nat b :: rat) ^ ?f" using assms(2) by (simp_all add: g)
qed

lemma ilog_bounds:
  assumes "0 < x" "1 < b"
  shows "of_nat b powi (ilog b x) \<le> x" and "x < of_nat b powi (ilog b x + 1)"
proof -
  define r where "r = rat_of_nat b"
  have r: "0 < r" using assms(2) by (simp add: r_def)
  obtain p q where pq: "quotient_of x = (p, q)" by (cases "quotient_of x")
  then have q: "0 < q" and x: "x = of_int p / of_int q" by (auto simp: quotient_of_denom_pos quotient_of_div)
  with assms have p: "0 < p" by (simp add: zero_less_divide_iff)
  define A where "A = r ^ floorlog b (nat p)"
  define B where "B = r ^ floorlog b (nat q)"
  define e where "e = int (floorlog b (nat p)) - int (floorlog b (nat q))"
  have pos: "0 < A" "0 < B" using r by (simp_all add: A_def B_def)
  have e: "r powi e = A / B" "r powi (e - 1) = A / B / r" "r powi (e + 1) = A / B * r"
    using r by (simp_all add: e_def A_def B_def power_int_diff power_int_add)
  have AB: "A / r \<le> of_int p" "of_int p < A" "B / r \<le> of_int q" "of_int q < B"
    using floorlog_rat [OF p assms(2)] floorlog_rat [OF q assms(2)] by (simp_all add: A_def B_def r_def)
  have q': "0 < rat_of_int q" using q by simp
  have "A / B / r \<le> x"
  proof -
    have "A \<le> of_int p * r" using AB(1) r by (simp add: field_simps)
    then have "A * of_int q \<le> of_int p * r * B" using mult_mono [of A "of_int p * r" "of_int q" B] AB pos q' p r by simp
    then show ?thesis unfolding x using pos q' r by (simp add: field_simps)
  qed
  moreover have "x < A / B * r"
  proof -
    have "B \<le> of_int q * r" using AB(3) r by (simp add: field_simps)
    then have "of_int p * B < A * (of_int q * r)"
      using mult_less_le_imp_less [of "of_int p" A B "of_int q * r"] AB pos p by simp
    then show ?thesis unfolding x using pos q' by (simp add: field_simps)
  qed
  moreover have "ilog b x = (if r powi e \<le> x then e else e - 1)" by (simp add: ilog_def pq e_def r_def)
  ultimately show "of_nat b powi (ilog b x) \<le> x" and "x < of_nat b powi (ilog b x + 1)"
    using e by (auto simp: r_def [symmetric] split: if_splits)
qed

lemmas ilog2_bounds = ilog_bounds [where b = 2, simplified]

text \<open>The mantissa of a positive number has 53 bits.\<close>

lemma float64_mantissa:
  assumes "0 < x"
  shows "of_int (2 ^ 52) \<le> x / 2 powi (ilog2 x - 52)"
  using ilog2_bounds(1) [OF assms] by (simp add: power_int_diff field_simps)

lemma float64_pos: "0 < x \<Longrightarrow> 0 < float64 x"
proof -
  assume x: "0 < x"
  have "2 ^ 52 \<le> round_even (x / 2 powi (ilog2 x - 52))" by (rule round_even_ge [OF float64_mantissa [OF x]])
  then show ?thesis using x by (simp add: float64_def Let_def)
qed

text \<open>Rounding does not pass a natural number of at most 53 bits, and such numbers are exact.\<close>

lemma unit_divides:
  assumes "0 < x" "x < 2 ^ 53"
  shows "\<exists>m. of_nat n / 2 powi (ilog2 x - 52) = (of_int m :: rat)"
proof -
  have "(2 :: rat) powi ilog2 x < 2 powi 53" using ilog2_bounds(1) [OF assms(1)] assms(2) by simp
  then have "ilog2 x < 53" using power_int_increasing [of 53 "ilog2 x" "2 :: rat"] by (meson leD not_le one_le_numeral)
  define k where "k = nat (52 - ilog2 x)"
  have k: "ilog2 x - 52 = - int k" using \<open>ilog2 x < 53\<close> by (simp add: k_def)
  have "of_nat n / 2 powi (ilog2 x - 52) = (of_int (int n * 2 ^ k) :: rat)"
    unfolding k by (simp add: power_int_minus field_simps)
  then show ?thesis by blast
qed

lemma float64_le_nat:
  assumes "x \<le> of_nat n" "n < 2 ^ 53"
  shows "float64 x \<le> of_nat n"
proof (cases "0 < x")
  case True
  let ?u = "2 powi (ilog2 x - 52) :: rat"
  have "rat_of_nat n < of_nat (2 ^ 53)" using assms(2) by (simp only: of_nat_less_iff)
  then obtain m where m: "of_nat n / ?u = (of_int m :: rat)" using unit_divides [OF True] assms(1) by fastforce
  have u: "0 < ?u" by simp
  have "x / ?u \<le> of_int m" unfolding m [symmetric] using assms(1) u by (simp add: divide_right_mono)
  then have "rat_of_int (round_even (x / ?u)) \<le> of_int m" using round_even_le by simp
  then have "rat_of_int (round_even (x / ?u)) * ?u \<le> of_nat n" unfolding m [symmetric] using u by (simp add: field_simps)
  then show ?thesis using True by (simp add: float64_def Let_def)
qed (simp add: float64_def)

lemma float64_nat:
  assumes "n < 2 ^ 53"
  shows "float64 (of_nat n) = of_nat n"
proof (cases "n = 0")
  case False
  have "rat_of_nat n < of_nat (2 ^ 53)" using assms by (simp only: of_nat_less_iff)
  then obtain m where m: "of_nat n / 2 powi (ilog2 (of_nat n) - 52) = (of_int m :: rat)"
    using unit_divides [of "of_nat n"] False by fastforce
  have "rat_of_int m * 2 powi (ilog2 (of_nat n) - 52) = of_nat n" unfolding m [symmetric] by simp
  then show ?thesis using False m by (simp add: float64_def Let_def)
qed (simp add: float64_def)

end
