(* ===== verification/Go_Duration.thy ===== *)
theory Go_Duration
  imports Go_Float
begin

text \<open>
  \<^verbatim>\<open>time.Duration\<close> as text: \<^verbatim>\<open>String\<close> and \<^verbatim>\<open>time.ParseDuration\<close>, the latter with its overflow checks
  and its \<^verbatim>\<open>float64\<close> arithmetic for fractions. Every duration reads back from its text.
\<close>

section \<open>Printing\<close>

text \<open>A fraction without its trailing zeros, and the units.\<close>

definition frac_digits :: "nat \<Rightarrow> nat \<Rightarrow> string" where
  "frac_digits prec v = rev (dropWhile (\<lambda>c. c = CHR ''0'') (rev (pad_left prec (dec_of_nat (v mod 10 ^ prec)))))"

definition frac_text :: "nat \<Rightarrow> nat \<Rightarrow> string" where
  "frac_text prec v =
     (let ds = frac_digits prec v in dec_of_nat (v div 10 ^ prec) @ (if ds = [] then [] else CHR ''.'' # ds))"

definition micro :: string where
  "micro = [CHR 0xC2, CHR 0xB5, CHR ''s'']"

definition nat_duration :: "nat \<Rightarrow> string" where
  "nat_duration u =
     (if u = 0 then ''0s''
      else if u < 1000 then dec_of_nat u @ ''ns''
      else if u < 1000000 then frac_text 3 u @ micro
      else if u < 1000000000 then frac_text 6 u @ ''ms''
      else let secs = u div 1000000000; mins = secs div 60; hours = mins div 60 in
        (if hours = 0 then [] else dec_of_nat hours @ ''h'') @
        (if mins = 0 then [] else dec_of_nat (mins mod 60) @ ''m'') @
        frac_text 9 (u mod (60 * 1000000000)) @ ''s'')"

definition duration_String :: "int \<Rightarrow> string" where
  "duration_String d = (if d < 0 then CHR ''-'' # nat_duration (nat (- d)) else nat_duration (nat d))"

section \<open>Parsing\<close>

definition digit_val :: "char \<Rightarrow> nat" where
  "digit_val c = code c - 48"

text \<open>The leading digits as a number of at most \<open>2 ^ 63\<close>, and the rest; \<^term>\<open>None\<close> is an overflow.\<close>

fun leadingInt :: "nat \<Rightarrow> string \<Rightarrow> (nat \<times> string) option" where
  "leadingInt x [] = Some (x, [])"
| "leadingInt x (c # s) =
     (if \<not> is_digit c then Some (x, c # s)
      else if x > 2 ^ 63 div 10 then None
      else let x = x * 10 + digit_val c in
        if x > 2 ^ 63 then None else leadingInt x s)"

text \<open>The digits of a fraction as an integer and its scale; digits that do not fit are skipped.\<close>

fun leadingFraction :: "nat \<Rightarrow> rat \<Rightarrow> bool \<Rightarrow> string \<Rightarrow> nat \<times> rat \<times> string" where
  "leadingFraction x scale overflow [] = (x, scale, [])"
| "leadingFraction x scale overflow (c # s) =
     (if \<not> is_digit c then (x, scale, c # s)
      else if overflow \<or> x > (2 ^ 63 - 1) div 10 then leadingFraction x scale True s
      else let y = x * 10 + digit_val c in
        if y > 2 ^ 63 then leadingFraction x scale True s
        else leadingFraction y (float64 (scale * 10)) False s)"

definition unitMap :: "string \<Rightarrow> nat option" where
  "unitMap = map_of [(''ns'', 1), (''us'', 1000), (micro, 1000), ([CHR 0xCE, CHR 0xBC, CHR ''s''], 1000),
     (''ms'', 1000000), (''s'', 1000000000), (''m'', 60 * 1000000000), (''h'', 60 * 60 * 1000000000)]"

definition unit_char :: "char \<Rightarrow> bool" where
  "unit_char c \<longleftrightarrow> c \<noteq> CHR ''.'' \<and> \<not> is_digit c"

text \<open>One number with its unit, in nanoseconds; \<^term>\<open>None\<close> is any of the errors.\<close>

definition parse_unit :: "string \<Rightarrow> (nat \<times> string) option" where
  "parse_unit s =
     (if s = [] \<or> unit_char (hd s) then None
      else (case leadingInt 0 s of None \<Rightarrow> None | Some (v, s1) \<Rightarrow>
        (let pre = (length s \<noteq> length s1);
             dot = (s1 \<noteq> [] \<and> hd s1 = CHR ''.'');
             (f, scale, s2) = (if dot then leadingFraction 0 1 False (tl s1) else (0, 1, s1));
             post = (dot \<and> length (tl s1) \<noteq> length s2);
             u = takeWhile unit_char s2 in
         if \<not> pre \<and> \<not> post then None
         else if u = [] then None
         else (case unitMap u of None \<Rightarrow> None | Some unit \<Rightarrow>
           if v > 2 ^ 63 div unit then None
           else let v1 = v * unit;
                    v2 = (if f > 0 then (v1 + nat \<lfloor>float64 (float64 (of_nat f) * float64 (float64 (of_nat unit) / scale))\<rfloor>) mod 2 ^ 64 else v1) in
             if f > 0 \<and> v2 > 2 ^ 63 then None else Some (v2, dropWhile unit_char s2)))))"

lemma leadingInt_rest: "leadingInt x s = Some (v, r) \<Longrightarrow> length r \<le> length s"
  by (induction x s rule: leadingInt.induct) (auto simp: Let_def split: if_splits)

lemma leadingFraction_rest: "leadingFraction x sc ov s = (f, sc', r) \<Longrightarrow> length r \<le> length s"
  by (induction x sc ov s rule: leadingFraction.induct) (auto simp: Let_def split: if_splits)

lemma parse_unit_shorter: "parse_unit s = Some (v, r) \<Longrightarrow> length r < length s"
proof -
  assume p: "parse_unit s = Some (v, r)"
  obtain x s1 where 1: "leadingInt 0 s = Some (x, s1)" using p by (auto simp: parse_unit_def split: if_splits option.splits)
  obtain f sc s2 where 2: "(if s1 \<noteq> [] \<and> hd s1 = CHR ''.'' then leadingFraction 0 1 False (tl s1) else (0, 1, s1)) = (f, sc, s2)"
    by (metis prod_cases3)
  have "length s2 \<le> length s1" using 2 leadingFraction_rest by (fastforce split: if_splits)
  have "takeWhile unit_char s2 \<noteq> []" "r = dropWhile unit_char s2"
    using p by (auto simp: parse_unit_def 1 2 Let_def split: if_splits option.splits)
  then have "length r < length s2"
    by (metis add.commute length_append length_greater_0_conv less_add_same_cancel1 takeWhile_dropWhile_id)
  with \<open>length s2 \<le> length s1\<close> show ?thesis using leadingInt_rest [OF 1] by linarith
qed

function parse_units :: "nat \<Rightarrow> string \<Rightarrow> nat option" where
  "parse_units d s =
     (if s = [] then Some d
      else (case parse_unit s of None \<Rightarrow> None
        | Some (v, rest) \<Rightarrow>
            (let d' = (d + v) mod 2 ^ 64 in if d' > 2 ^ 63 then None else parse_units d' rest)))"
  by pat_completeness auto
termination
  by (relation "measure (\<lambda>(_, s). length s)") (auto simp: parse_unit_shorter)

declare parse_units.simps [simp del]

definition ParseDuration :: "string \<Rightarrow> int option" where
  "ParseDuration orig =
     (let neg = (orig \<noteq> [] \<and> hd orig = CHR ''-'');
          s = (if orig \<noteq> [] \<and> hd orig \<in> {CHR ''-'', CHR ''+''} then tl orig else orig) in
      if s = ''0'' then Some 0
      else if s = [] then None
      else (case parse_units 0 s of None \<Rightarrow> None
        | Some d \<Rightarrow> if neg then Some (- int d) else if d > 2 ^ 63 - 1 then None else Some (int d)))"

section \<open>Round trip\<close>

lemma nat_of_dec_le: "nat_of_dec s \<le> nat_of_dec (s @ t)"
  by (induction t rule: rev_induct) (simp_all add: nat_of_dec_snoc flip: append_assoc)

lemma nat_of_dec_bound: "list_all is_digit s \<Longrightarrow> nat_of_dec s < 10 ^ length s"
proof (induction s rule: rev_induct)
  case (snoc c s)
  then have "nat_of_dec s + 1 \<le> 10 ^ length s" "code c - 48 \<le> 9" by (auto simp: is_digit_def)
  then have "nat_of_dec (s @ [c]) < (nat_of_dec s + 1) * 10" "(nat_of_dec s + 1) * 10 \<le> 10 ^ length s * 10"
    by (simp_all add: nat_of_dec_snoc)
  then show ?case by simp
qed (simp add: nat_of_dec_def)

text \<open>The loops on a block of digits that fits.\<close>

lemma leadingInt_digits:
  assumes "list_all is_digit ds" and "nat_of_dec (pre @ ds) \<le> 2 ^ 63" and "rest = [] \<or> \<not> is_digit (hd rest)"
  shows "leadingInt (nat_of_dec pre) (ds @ rest) = Some (nat_of_dec (pre @ ds), rest)"
  using assms(1,2)
proof (induction ds arbitrary: pre)
  case Nil
  then show ?case using assms(3) by (cases rest) simp_all
next
  case (Cons c ds)
  have step: "nat_of_dec pre * 10 + digit_val c = nat_of_dec (pre @ [c])" by (simp add: nat_of_dec_snoc digit_val_def)
  have le: "nat_of_dec (pre @ [c]) \<le> 2 ^ 63" using Cons.prems(2) nat_of_dec_le [of "pre @ [c]" ds] by simp
  then have "\<not> nat_of_dec pre > 2 ^ 63 div 10" unfolding step [symmetric] by simp
  then show ?case using Cons.IH [of "pre @ [c]"] Cons.prems le by (simp add: step Let_def)
qed

lemma leadingFraction_digits:
  assumes "list_all is_digit ds" and "length pre + length ds \<le> 9" and "rest = [] \<or> \<not> is_digit (hd rest)"
    and "list_all is_digit pre"
  shows "leadingFraction (nat_of_dec pre) (10 ^ length pre) False (ds @ rest) = (nat_of_dec (pre @ ds), 10 ^ (length pre + length ds), rest)"
  using assms(1,2,4)
proof (induction ds arbitrary: pre)
  case Nil
  then show ?case using assms(3) by (cases rest) simp_all
next
  case (Cons c ds)
  have step: "nat_of_dec pre * 10 + digit_val c = nat_of_dec (pre @ [c])" by (simp add: nat_of_dec_snoc digit_val_def)
  have len: "length pre \<le> 8" using Cons.prems(2) by simp
  have "nat_of_dec pre < 10 ^ length pre" "nat_of_dec (pre @ [c]) < 10 ^ Suc (length pre)"
    using nat_of_dec_bound [of pre] nat_of_dec_bound [of "pre @ [c]"] Cons.prems by simp_all
  moreover have p: "(10 :: nat) ^ length pre \<le> 10 ^ 8" "(10 :: nat) ^ Suc (length pre) \<le> 10 ^ 9"
    using len by (intro power_increasing; simp)+
  ultimately have fits: "\<not> nat_of_dec pre > (2 ^ 63 - 1) div 10" "\<not> nat_of_dec (pre @ [c]) > 2 ^ 63" by simp_all
  have "float64 (10 ^ length pre * 10) = 10 ^ length (pre @ [c])"
    using float64_nat [of "10 ^ Suc (length pre)"] p(2) by (simp add: mult.commute)
  with Cons.IH [of "pre @ [c]"] Cons.prems fits show ?case by (simp add: step Let_def)
qed

text \<open>The digits of a fraction.\<close>

lemma nat_of_dec_zeros: "nat_of_dec (s @ replicate k CHR ''0'') = nat_of_dec s * 10 ^ k"
proof (induction k)
  case (Suc k)
  have "s @ replicate (Suc k) CHR ''0'' = (s @ replicate k CHR ''0'') @ [CHR ''0'']"
    using replicate_append_same [of k "CHR ''0''"] by simp
  then show ?case by (simp only: nat_of_dec_snoc Suc.IH) simp
qed simp

lemma nat_of_dec_lead: "nat_of_dec (replicate k CHR ''0'' @ s) = nat_of_dec s"
  by (induction k) (simp_all add: nat_of_dec_def)

lemma dec_of_nat_length: "n < 10 ^ k \<Longrightarrow> 0 < k \<Longrightarrow> length (dec_of_nat n) \<le> k"
proof (induction n arbitrary: k rule: dec_of_nat.induct)
  case (1 n)
  obtain j where k: "k = Suc j" using 1(3) by (cases k) auto
  show ?case
  proof (cases "n < 10")
    case False
    then have "0 < j" using 1(2) k by (cases j) auto
    moreover have "n div 10 < 10 ^ j" using 1(2) k by (simp add: less_mult_imp_div_less mult.commute)
    ultimately show ?thesis using 1(1) [OF False] False k by (simp add: dec_of_nat.simps [of n])
  qed (use k in \<open>simp add: dec_of_nat.simps [of n]\<close>)
qed

lemma frac_digits:
  fixes prec v :: nat
  defines "ds \<equiv> frac_digits prec v"
  assumes "0 < prec"
  shows "list_all is_digit ds" and "length ds \<le> prec" and "nat_of_dec ds * 10 ^ (prec - length ds) = v mod 10 ^ prec"
proof -
  define w where "w = pad_left prec (dec_of_nat (v mod 10 ^ prec))"
  define z where "z = takeWhile (\<lambda>c. c = CHR ''0'') (rev w)"
  have z: "z = replicate (length z) CHR ''0''"
    by (rule replicate_length_same [symmetric]) (auto simp: z_def dest: set_takeWhileD)
  have "rev w = z @ rev ds" by (simp add: z_def ds_def frac_digits_def w_def)
  then have "w = ds @ rev z" using rev_append [of z "rev ds"] rev_rev_ident [of w] by simp
  moreover have "rev z = replicate (length z) CHR ''0''" using arg_cong [OF z, of rev] by simp
  ultimately have w: "w = ds @ replicate (length z) CHR ''0''" by simp
  have "length w = prec" using dec_of_nat_length [of "v mod 10 ^ prec" prec] assms by (simp add: w_def pad_left_def)
  with w have l: "length ds + length z = prec" by simp
  then show "length ds \<le> prec" by simp
  have "list_all is_digit w" 
    using dec_of_nat_digits [of "v mod 10 ^ prec"] by (auto simp: w_def pad_left_def list_all_iff is_digit_def)
  with w show "list_all is_digit ds" by simp
  have "nat_of_dec w = v mod 10 ^ prec" by (simp add: w_def pad_left_def nat_of_dec_lead nat_of_dec_of_nat)
  with w nat_of_dec_zeros [of ds "length z"] have "nat_of_dec ds * 10 ^ length z = v mod 10 ^ prec" by simp
  moreover have "prec - length ds = length z" using l by simp
  ultimately show "nat_of_dec ds * 10 ^ (prec - length ds) = v mod 10 ^ prec" by simp
qed

text \<open>A number, perhaps with a fraction, and its unit.\<close>

lemma fraction_exact:
  assumes "f < 10 ^ k" and "10 ^ k dvd unit" and "unit < 2 ^ 53" and "0 < unit"
  shows "nat \<lfloor>float64 (float64 (of_nat f) * float64 (float64 (of_nat unit) / 10 ^ k))\<rfloor> = f * (unit div 10 ^ k)"
    and "f * (unit div 10 ^ k) < unit"
proof -
  obtain q where q: "unit = 10 ^ k * q" using assms(2) by (auto simp: dvd_def)
  then have "0 < q" using assms(4) by simp
  with q assms(1) have lt: "f * q < unit" by simp
  have "q \<le> unit" "10 ^ k \<le> unit" using q \<open>0 < q\<close> by simp_all
  then have b: "q < 2 ^ 53" "f < 2 ^ 53" "f * q < 2 ^ 53" using assms lt by linarith+
  have "of_nat unit / 10 ^ k = rat_of_nat q" by (simp add: q)
  then have "float64 (of_nat unit) / 10 ^ k = of_nat q" using float64_nat [OF assms(3)] by simp
  then have "float64 (float64 (of_nat f) * float64 (float64 (of_nat unit) / 10 ^ k)) = float64 (of_nat (f * q))"
    using b by (simp add: float64_nat)
  also have "\<dots> = of_nat (f * q)" by (rule float64_nat [OF b(3)])
  finally show "nat \<lfloor>float64 (float64 (of_nat f) * float64 (float64 (of_nat unit) / 10 ^ k))\<rfloor> = f * (unit div 10 ^ k)"
    by (simp add: q del: of_nat_mult)
  show "f * (unit div 10 ^ k) < unit" using lt by (simp add: q)
qed

lemma parse_unit_number:
  assumes ds: "list_all is_digit ds" "length ds \<le> 9" "10 ^ length ds dvd unit"
    and u: "list_all unit_char u" "u \<noteq> []" "unitMap u = Some unit" "unit < 2 ^ 53" "0 < unit"
    and rest: "rest = [] \<or> is_digit (hd rest)"
    and v: "n * unit + nat_of_dec ds * (unit div 10 ^ length ds) \<le> 2 ^ 63"
  shows "parse_unit (dec_of_nat n @ (if ds = [] then [] else CHR ''.'' # ds) @ u @ rest) =
     Some (n * unit + nat_of_dec ds * (unit div 10 ^ length ds), rest)"
proof -
  let ?s1 = "(if ds = [] then [] else CHR ''.'' # ds) @ u @ rest"
  have uc: "u = hd u # tl u" "unit_char (hd u)" using u(1,2) by (cases u; simp)+
  then have ud: "\<not> is_digit (hd (u @ rest))" "hd (u @ rest) \<noteq> CHR ''.''" using u(2) by (auto simp: unit_char_def)
  have nd: "\<not> is_digit (hd ?s1)" using ud by (auto simp: is_digit_def)
  have "n * 1 \<le> n * unit" using u(5) by (intro mult_le_mono) simp_all
  then have "n \<le> 2 ^ 63" using v by linarith
  then have "leadingInt 0 (dec_of_nat n @ s) = Some (n, s)" if "\<not> is_digit (hd s)" for s
    using leadingInt_digits [OF dec_of_nat_digits, of "[]" n s] that by (simp add: nat_of_dec_of_nat) (simp add: nat_of_dec_def)
  from this [OF nd] have li: "leadingInt 0 (dec_of_nat n @ ?s1) = Some (n, ?s1)" .
  have lf: "leadingFraction 0 1 False (ds @ u @ rest) = (nat_of_dec ds, 10 ^ length ds, u @ rest)"
    using leadingFraction_digits [OF ds(1), of "[]" "u @ rest"] ds(2) ud(1) by (simp add: nat_of_dec_def)
  have tw: "takeWhile unit_char (u @ rest) = u" "dropWhile unit_char (u @ rest) = rest"
    using u(1) rest by (cases rest; simp add: list_all_iff unit_char_def)+
  have hd: "\<not> unit_char (hd (dec_of_nat n))"
    using dec_of_nat_digits [of n] dec_of_nat_ne [of n] by (cases "dec_of_nat n") (auto simp: unit_char_def)
  have frac: "nat_of_dec ds < 10 ^ length ds" by (rule nat_of_dec_bound [OF ds(1)])
  note fe = fraction_exact [OF frac ds(3) u(4,5)]
  have le: "\<not> n > 2 ^ 63 div unit" using v u(5) by (simp add: less_eq_div_iff_mult_less_eq not_less)
  have sum: "(n * unit + nat_of_dec ds * (unit div 10 ^ length ds)) mod 2 ^ 64 = n * unit + nat_of_dec ds * (unit div 10 ^ length ds)"
    using v by simp
  show ?thesis
  proof (cases "ds = []")
    case True
    then show ?thesis using li hd tw u ud le by (simp add: parse_unit_def Let_def nat_of_dec_def)
  next
    case False
    then show ?thesis using li hd tw u le lf fe(1) sum v by (simp add: parse_unit_def Let_def)
  qed
qed

lemma parse_unit_frac_text:
  assumes "0 < prec" "prec \<le> 9" "unitMap u = Some (10 ^ prec)" "list_all unit_char u" "u \<noteq> []" "rest = [] \<or> is_digit (hd rest)" "v \<le> 2 ^ 63"
  shows "parse_unit (frac_text prec v @ u @ rest) = Some (v, rest)"
proof -
  define ds where "ds = frac_digits prec v"
  note fd = frac_digits [OF assms(1), of v, folded ds_def]
  have d: "(10 :: nat) ^ length ds dvd 10 ^ prec" using fd(2) by (rule le_imp_power_dvd)
  have "(10 :: nat) ^ prec div 10 ^ length ds = 10 ^ (prec - length ds)" by (rule power_diff [symmetric]) (use fd(2) in simp_all)
  then have e: "v div 10 ^ prec * 10 ^ prec + nat_of_dec ds * (10 ^ prec div 10 ^ length ds) = v"
    using div_mult_mod_eq [of v "10 ^ prec"] by (simp add: fd(3))
  have "(10 :: nat) ^ prec \<le> 10 ^ 9" using assms(2) by (intro power_increasing) simp_all
  then have "(10 :: nat) ^ prec < 2 ^ 53" by simp
  from parse_unit_number [OF fd(1) _ d assms(4,5,3) this _ assms(6), of "v div 10 ^ prec", unfolded e]
  show ?thesis using fd(2) assms(2,7) by (simp add: frac_text_def ds_def [symmetric] Let_def)
qed

text \<open>The units of a printed duration.\<close>

lemma units:
  "unitMap ''ns'' = Some 1" "unitMap micro = Some (10 ^ 3)" "unitMap ''ms'' = Some (10 ^ 6)" "unitMap ''s'' = Some (10 ^ 9)"
  "unitMap ''m'' = Some 60000000000" "unitMap ''h'' = Some 3600000000000"
  "list_all unit_char ''ns''" "list_all unit_char micro" "list_all unit_char ''ms''" "list_all unit_char ''s''"
  "list_all unit_char ''m''" "list_all unit_char ''h''" "micro \<noteq> []"
  by (simp_all add: unitMap_def micro_def unit_char_def is_digit_def)

lemma parse_unit_dec:
  assumes "unitMap u = Some unit" "list_all unit_char u" "u \<noteq> []" "rest = [] \<or> is_digit (hd rest)" "n * unit \<le> 2 ^ 63" "unit < 2 ^ 53" "0 < unit"
  shows "parse_unit (dec_of_nat n @ u @ rest) = Some (n * unit, rest)"
  using parse_unit_number [of "[]" unit u rest n] assms by (simp add: nat_of_dec_def)

lemma parse_units_step:
  assumes "parse_unit s = Some (v, rest)" and "d + v \<le> 2 ^ 63"
  shows "parse_units d s = parse_units (d + v) rest"
proof -
  have "s \<noteq> []" using assms(1) by (auto simp: parse_unit_def)
  then show ?thesis using assms by (subst parse_units.simps) (simp add: Let_def)
qed

lemma parse_units_Nil [simp]: "parse_units d [] = Some d"
  by (simp add: parse_units.simps)

lemma frac_text_hd: "frac_text prec v \<noteq> []" "is_digit (hd (frac_text prec v @ s))" "is_digit (hd (dec_of_nat n @ s))"
  using dec_of_nat_digits [of "v div 10 ^ prec"] dec_of_nat_digits [of n]
  by (simp_all add: frac_text_def Let_def list_all_iff)

lemmas text_hd = frac_text_hd frac_text_hd(2) [where s = "[]", simplified] frac_text_hd(3) [where s = "[]", simplified]

lemma parse_units_sub:
  assumes "unitMap u = Some (10 ^ prec)" "list_all unit_char u" "u \<noteq> []" "0 < prec" "prec \<le> 9" "d + v \<le> 2 ^ 63"
  shows "parse_units d (frac_text prec v @ u) = Some (d + v)"
  using parse_units_step [OF parse_unit_frac_text [of prec u "[]" v], of d] assms by simp

lemma parse_nat_duration:
  assumes "0 < u" "u \<le> 2 ^ 63"
  shows "parse_units 0 (nat_duration u) = Some u"
proof -
  consider "u < 1000" | "1000 \<le> u" "u < 1000000" | "1000000 \<le> u" "u < 1000000000" | "1000000000 \<le> u" by linarith
  then show ?thesis
  proof cases
    case 1
    then show ?thesis
      using parse_units_step [OF parse_unit_dec [of "''ns''" 1 "[]" u], of 0] units assms by (simp add: nat_duration_def)
  next
    case 4
    define secs where "secs = u div 1000000000"
    define mins where "mins = secs div 60"
    define hours where "hours = mins div 60"
    define S where "S = frac_text 9 (u mod (60 * 1000000000)) @ ''s''"
    have nd: "nat_duration u = (if hours = 0 then [] else dec_of_nat hours @ ''h'') @ (if mins = 0 then [] else dec_of_nat (mins mod 60) @ ''m'') @ S"
      using 4 by (simp add: nat_duration_def secs_def mins_def hours_def S_def Let_def)
    have m: "mins = u div 60000000000" by (simp add: mins_def secs_def flip: div_mult2_eq)
    have um: "u = mins * 60000000000 + u mod 60000000000" unfolding m by simp
    have hm: "mins = hours * 60 + mins mod 60" by (simp add: hours_def)
    have sec: "parse_units d S = Some (d + u mod 60000000000)" if "d + u mod 60000000000 \<le> 2 ^ 63" for d
      using parse_units_sub [of "''s''" 9 d "u mod 60000000000"] units that by (simp add: S_def)
    have Sd: "is_digit (hd S)" by (simp add: S_def text_hd)
    have min: "parse_units d (dec_of_nat (mins mod 60) @ ''m'' @ S) = Some (d + mins mod 60 * 60000000000 + u mod 60000000000)"
      if "d + mins mod 60 * 60000000000 + u mod 60000000000 \<le> 2 ^ 63" for d
      using parse_units_step [OF parse_unit_dec [of "''m''" 60000000000 S "mins mod 60"], of d]
        sec [of "d + mins mod 60 * 60000000000"] Sd units that by simp
    show ?thesis
    proof (cases "mins = 0")
      case True
      then show ?thesis using sec [of 0] um assms by (simp add: nd hours_def)
    next
      case False
      show ?thesis
      proof (cases "hours = 0")
        case True
        have "0 + mins mod 60 * 60000000000 + u mod 60000000000 = u" using hm True um by simp
        with min [of 0] assms show ?thesis using True False by (simp add: nd)
      next
        case H: False
        have tot: "hours * 3600000000000 + mins mod 60 * 60000000000 + u mod 60000000000 = u" using hm um by linarith
        then have "hours * 3600000000000 \<le> 2 ^ 63" using assms by linarith
        then have "parse_units 0 (dec_of_nat hours @ ''h'' @ dec_of_nat (mins mod 60) @ ''m'' @ S) =
            parse_units (hours * 3600000000000) (dec_of_nat (mins mod 60) @ ''m'' @ S)"
          using parse_units_step [OF parse_unit_dec [of "''h''" 3600000000000 "dec_of_nat (mins mod 60) @ ''m'' @ S" hours], of 0]
            units frac_text_hd(3) [of "mins mod 60" "''m'' @ S"] by simp
        with min [of "hours * 3600000000000"] tot assms show ?thesis using H False by (simp add: nd)
      qed
    qed
  qed (use parse_units_sub [of micro 3 0 u] parse_units_sub [of "''ms''" 6 0 u] units assms in \<open>simp_all add: nat_duration_def\<close>)
qed

lemma nat_duration_hd: "0 < u \<Longrightarrow> nat_duration u \<noteq> []" "0 < u \<Longrightarrow> is_digit (hd (nat_duration u))"
  by (simp_all add: nat_duration_def Let_def text_hd)

lemma nat_duration_zero: "parse_units 0 ''0s'' = Some 0"
proof -
  have "dec_of_nat 0 = ''0''" by code_simp
  then show ?thesis using parse_units_step [OF parse_unit_dec [of "''s''" "10 ^ 9" "[]" 0], of 0] units by simp
qed

text \<open>From the smallest to the largest \<^verbatim>\<open>int64\<close>.\<close>

lemma duration_roundtrip:
  assumes "- (2 ^ 63) \<le> d" and "d < 2 ^ 63"
  shows "ParseDuration (duration_String d) = Some d"
proof -
  consider "d = 0" | "0 < d" | "d < 0" by linarith
  then show ?thesis
  proof cases
    case 1
    then show ?thesis by (simp add: ParseDuration_def duration_String_def nat_duration_def nat_duration_zero)
  next
    case 2
    then have p: "parse_units 0 (nat_duration (nat d)) = Some (nat d)" using assms parse_nat_duration [of "nat d"] by simp
    then have "nat_duration (nat d) \<noteq> ''0''" by (auto simp: parse_units.simps parse_unit_def is_digit_def unit_char_def digit_val_def)
    moreover have "is_digit (hd (nat_duration (nat d)))" "nat_duration (nat d) \<noteq> []" using nat_duration_hd [of "nat d"] 2 by simp_all
    ultimately show ?thesis using p 2 assms by (auto simp: ParseDuration_def duration_String_def is_digit_def)
  next
    case 3
    then have p: "parse_units 0 (nat_duration (nat (- d))) = Some (nat (- d))" using assms parse_nat_duration [of "nat (- d)"] by simp
    then have "nat_duration (nat (- d)) \<noteq> ''0''" by (auto simp: parse_units.simps parse_unit_def is_digit_def unit_char_def digit_val_def)
    with p nat_duration_hd(1) [of "nat (- d)"] 3 show ?thesis by (simp add: ParseDuration_def duration_String_def)
  qed
qed

end
