(* ===== verification/Go_Flags.thy ===== *)
theory Go_Flags
  imports Go_Duration Go_Json
begin

text \<open>
  The package \<^verbatim>\<open>flag\<close> for string, boolean, integer and duration flags, with \<^verbatim>\<open>strconv.ParseInt\<close> in base
  0 (base prefixes and underscores). Flags in the form \<^verbatim>\<open>--name=value\<close> are all parsed, in order,
  and every \<^verbatim>\<open>int64\<close> reads back from its decimal text.
\<close>

section \<open>Integers in base 0\<close>

text \<open>\<^verbatim>\<open>lower\<close> sets one bit; only letters become small letters by it.\<close>

definition lower :: "char \<Rightarrow> char" where
  "lower c = (if 65 \<le> code c \<and> code c \<le> 90 then char_of (code c + 32) else c)"

definition base_digit :: "char \<Rightarrow> nat option" where
  "base_digit c =
     (if is_digit c then Some (digit_val c)
      else if 97 \<le> code (lower c) \<and> code (lower c) \<le> 122 then Some (code (lower c) - 97 + 10) else None)"

text \<open>The digits of a number in a base; underscores are skipped here. \<^term>\<open>None\<close> is a bad digit.\<close>

fun base_digits :: "nat \<Rightarrow> nat \<Rightarrow> string \<Rightarrow> nat option" where
  "base_digits base n [] = Some n"
| "base_digits base n (c # s) =
     (if c = CHR ''_'' then base_digits base n s
      else (case base_digit c of
          None \<Rightarrow> None
        | Some d \<Rightarrow> if d \<ge> base then None else base_digits base (n * base + d) s))"

definition base_prefix :: "string \<Rightarrow> nat \<times> string" where
  "base_prefix s =
     (if s \<noteq> [] \<and> hd s = CHR ''0'' then
        if length s \<ge> 3 \<and> lower (s ! 1) = CHR ''b'' then (2, drop 2 s)
        else if length s \<ge> 3 \<and> lower (s ! 1) = CHR ''o'' then (8, drop 2 s)
        else if length s \<ge> 3 \<and> lower (s ! 1) = CHR ''x'' then (16, drop 2 s)
        else (8, drop 1 s)
      else (10, s))"

text \<open>An underscore stands between digits, or between a base prefix and a digit.\<close>

datatype saw = SawStart | SawDigit | SawUnderscore | SawOther

fun underscores_ok :: "bool \<Rightarrow> saw \<Rightarrow> string \<Rightarrow> bool" where
  "underscores_ok hex sw [] \<longleftrightarrow> sw \<noteq> SawUnderscore"
| "underscores_ok hex sw (c # s) \<longleftrightarrow>
     (if is_digit c \<or> hex \<and> 97 \<le> code (lower c) \<and> code (lower c) \<le> 102 then underscores_ok hex SawDigit s
      else if c = CHR ''_'' then sw = SawDigit \<and> underscores_ok hex SawUnderscore s
      else sw \<noteq> SawUnderscore \<and> underscores_ok hex SawOther s)"

definition underscoreOK :: "string \<Rightarrow> bool" where
  "underscoreOK s0 =
     (let s = (if s0 \<noteq> [] \<and> hd s0 \<in> {CHR ''-'', CHR ''+''} then tl s0 else s0) in
      if length s \<ge> 2 \<and> hd s = CHR ''0'' \<and> lower (s ! 1) \<in> {CHR ''b'', CHR ''o'', CHR ''x''}
      then underscores_ok (lower (s ! 1) = CHR ''x'') SawDigit (drop 2 s)
      else underscores_ok False SawStart s)"

text \<open>\<^verbatim>\<open>ParseUint\<close> and \<^verbatim>\<open>ParseInt\<close> with base 0 and 64 bits; \<^term>\<open>None\<close> is a syntax or a range error.\<close>

definition ParseUint0 :: "string \<Rightarrow> nat option" where
  "ParseUint0 s =
     (if s = [] then None
      else let (base, ds) = base_prefix s in
        (case base_digits base 0 ds of
           None \<Rightarrow> None
         | Some n \<Rightarrow> if n \<ge> 2 ^ 64 then None
             else if CHR ''_'' \<in> set ds \<and> \<not> underscoreOK s then None else Some n))"

definition ParseInt0 :: "string \<Rightarrow> int option" where
  "ParseInt0 s =
     (if s = [] then None
      else let neg = (hd s = CHR ''-''); t = (if hd s \<in> {CHR ''+'', CHR ''-''} then tl s else s) in
        (case ParseUint0 t of
           None \<Rightarrow> None
         | Some un \<Rightarrow> if \<not> neg \<and> un \<ge> 2 ^ 63 then None
             else if neg \<and> un > 2 ^ 63 then None
             else Some (if neg then - int un else int un)))"

section \<open>Flags\<close>

text \<open>
  \<^verbatim>\<open>flag.FlagSet.Parse\<close>: one argument, and the loop, which stops at the first argument that is not a
  flag. With \<^verbatim>\<open>ExitOnError\<close> a bad flag ends the process with exit code 2, a request for help with
  0. A value is checked when it is assigned.
\<close>

datatype flag_kind = StringFlag | BoolFlag | IntFlag | DurationFlag

definition ParseBool :: "string \<Rightarrow> bool option" where
  "ParseBool s =
     (if s \<in> {''1'', ''t'', ''T'', ''true'', ''TRUE'', ''True''} then Some True
      else if s \<in> {''0'', ''f'', ''F'', ''false'', ''FALSE'', ''False''} then Some False
      else None)"

datatype flag_step = NoFlag | Assign string string "string list" | BadFlag | HelpFlag

definition accepts :: "flag_kind \<Rightarrow> string \<Rightarrow> bool" where
  "accepts k v = (case k of StringFlag \<Rightarrow> True | BoolFlag \<Rightarrow> ParseBool v \<noteq> None
    | IntFlag \<Rightarrow> ParseInt0 v \<noteq> None | DurationFlag \<Rightarrow> ParseDuration v \<noteq> None)"

definition set_flag :: "flag_kind \<Rightarrow> string \<Rightarrow> string \<Rightarrow> string list \<Rightarrow> flag_step" where
  "set_flag k n v rest = (if accepts k v then Assign n v rest else BadFlag)"

text \<open>The value of a flag: after the equals sign, or the next argument; a boolean flag needs none.\<close>

definition flag_value :: "flag_kind \<Rightarrow> string \<Rightarrow> string \<Rightarrow> string list \<Rightarrow> flag_step" where
  "flag_value k n v rest =
     (if v \<noteq> [] then set_flag k n (tl v) rest
      else if k = BoolFlag then Assign n ''true'' rest
      else (case rest of [] \<Rightarrow> BadFlag | x # rest' \<Rightarrow> set_flag k n x rest'))"

fun parseOne :: "(string \<Rightarrow> flag_kind option) \<Rightarrow> string list \<Rightarrow> flag_step" where
  "parseOne kind [] = NoFlag"
| "parseOne kind (s # rest) =
     (if length s < 2 \<or> s ! 0 \<noteq> CHR ''-'' \<or> s = ''--'' then NoFlag
      else let name = drop (if s ! 1 = CHR ''-'' then 2 else 1) s;
               n = takeWhile (\<lambda>c. c \<noteq> CHR ''='') name; v = dropWhile (\<lambda>c. c \<noteq> CHR ''='') name in
        if name = [] \<or> name ! 0 = CHR ''-'' \<or> name ! 0 = CHR ''='' then BadFlag
        else (case kind n of
            None \<Rightarrow> if n = ''help'' \<or> n = ''h'' then HelpFlag else BadFlag
          | Some k \<Rightarrow> flag_value k n v rest))"

lemma parseOne_shorter: "parseOne kind args = Assign n v rest \<Longrightarrow> length rest < length args"
  by (cases "(kind, args)" rule: parseOne.cases)
    (auto simp: flag_value_def set_flag_def Let_def split: if_splits option.splits list.splits)

function parse_flags :: "(string \<Rightarrow> flag_kind option) \<Rightarrow> string list \<Rightarrow> nat + (string \<times> string) list" where
  "parse_flags kind args = (case parseOne kind args of
      NoFlag \<Rightarrow> Inr []
    | BadFlag \<Rightarrow> Inl 2
    | HelpFlag \<Rightarrow> Inl 0
    | Assign n v rest \<Rightarrow> map_sum (\<lambda>c. c) ((#) (n, v)) (parse_flags kind rest))"
  by pat_completeness auto
termination
  by (relation "measure (\<lambda>(_, args). length args)") (auto simp: parseOne_shorter)

declare parse_flags.simps [simp del]

section \<open>Lemmas\<close>

lemma base_digits_dec: "list_all is_digit ds \<Longrightarrow> base_digits 10 (nat_of_dec pre) ds = Some (nat_of_dec (pre @ ds))"
proof (induction ds arbitrary: pre)
  case (Cons c ds)
  have "nat_of_dec pre * 10 + digit_val c = nat_of_dec (pre @ [c])" by (simp add: nat_of_dec_snoc digit_val_def)
  moreover have "c \<noteq> CHR ''_''" "digit_val c < 10" using Cons.prems by (auto simp: is_digit_def digit_val_def)
  ultimately show ?case using Cons.IH [of "pre @ [c]"] Cons.prems by (simp add: base_digit_def)
qed simp

lemma dec_of_nat_lead: "0 < n \<Longrightarrow> hd (dec_of_nat n) \<noteq> CHR ''0''"
  using dec_of_nat_hd [of n] code_digit_char [of n] by (cases "n < 10") (auto simp: dec_of_nat.simps [of n])

lemma ParseUint0_dec: "n < 2 ^ 64 \<Longrightarrow> ParseUint0 (dec_of_nat n) = Some n"
proof (cases "n = 0")
  case True
  moreover have "dec_of_nat 0 = ''0''" by code_simp
  ultimately show ?thesis by (simp add: ParseUint0_def base_prefix_def)
next
  case False
  assume "n < 2 ^ 64"
  moreover have "CHR ''_'' \<notin> set (dec_of_nat n)" using dec_of_nat_digits [of n] by (auto simp: list_all_iff is_digit_def)
  ultimately show ?thesis
    using base_digits_dec [OF dec_of_nat_digits, of "[]" n] dec_of_nat_lead [of n] False
    by (simp add: ParseUint0_def base_prefix_def nat_of_dec_of_nat) (simp add: nat_of_dec_def)
qed

lemma ParseInt0_FormatInt:
  assumes "- (2 ^ 63) \<le> i" and "i < 2 ^ 63"
  shows "ParseInt0 (FormatInt i) = Some i"
proof (cases "i < 0")
  case True
  then show ?thesis using ParseUint0_dec [of "nat (- i)"] assms by (simp add: ParseInt0_def FormatInt_def)
next
  case False
  have "is_digit (hd (dec_of_nat (nat i)))" using dec_of_nat_digits [of "nat i"] by (simp add: list_all_iff)
  then have "hd (dec_of_nat (nat i)) \<notin> {CHR ''+'', CHR ''-''}" by (auto simp: is_digit_def)
  then show ?thesis using ParseUint0_dec [of "nat i"] assms False by (simp add: ParseInt0_def FormatInt_def Let_def)
qed

text \<open>Flags with their values after an equals sign.\<close>

definition flag_arg :: "string \<times> string \<Rightarrow> string" where
  "flag_arg = (\<lambda>(n, v). ''--'' @ n @ ''='' @ v)"

definition flag_name_ok :: "string \<Rightarrow> bool" where
  "flag_name_ok n \<longleftrightarrow> n \<noteq> [] \<and> hd n \<noteq> CHR ''-'' \<and> CHR ''='' \<notin> set n"

lemma parseOne_arg:
  assumes "flag_name_ok n" "kind n = Some k" "accepts k v"
  shows "parseOne kind (flag_arg (n, v) # rest) = Assign n v rest"
proof -
  have "takeWhile (\<lambda>c. c \<noteq> CHR ''='') (n @ CHR ''='' # v) = n" "dropWhile (\<lambda>c. c \<noteq> CHR ''='') (n @ CHR ''='' # v) = CHR ''='' # v"
    using assms(1) by (auto simp: flag_name_ok_def takeWhile_tail dropWhile_append3 dropWhile_append)
  moreover have "hd n \<noteq> CHR ''=''" using assms(1) by (cases n) (auto simp: flag_name_ok_def)
  ultimately show ?thesis
    using assms by (cases n) (simp_all add: flag_arg_def flag_value_def set_flag_def flag_name_ok_def)
qed

lemma parse_flags_args:
  assumes "\<forall>(n, v) \<in> set as. flag_name_ok n \<and> (\<exists>k. kind n = Some k \<and> accepts k v)"
  shows "parse_flags kind (map flag_arg as) = Inr as"
  using assms
proof (induction as)
  case Nil
  show ?case by (simp add: parse_flags.simps)
next
  case (Cons a as)
  obtain n v k where "a = (n, v)" "flag_name_ok n" "kind n = Some k" "accepts k v" using Cons.prems by force
  with Cons show ?case by (simp add: parse_flags.simps [of kind "flag_arg (n, v) # map flag_arg as"] parseOne_arg del: parseOne.simps)
qed

end
