(* ===== verification/Command_Line.thy ===== *)
theory Command_Line
  imports Server_Routes Logger Go_Flags
begin

text \<open>
  \<^verbatim>\<open>cmd/paladin-core/main.go\<close>: the dispatch on the arguments, the local commands on the database
  file, the standalone server, and the start of a cluster node with its flags, its request to
  join a cluster and its self-registration. The file, the HTTP client and the listener are
  parameters. A run of a local command refines the abstract versioned map; that a node that
  joined is found under the address that it advertised is a property of the cluster (\<open>Cluster\<close>).
\<close>

section \<open>Processes\<close>

text \<open>
  What a command leaves behind: its standard output, the message of \<^verbatim>\<open>fatal\<close> or \<^verbatim>\<open>usage\<close> (log lines are left
  out), the exit code, and the database file if it was opened.
\<close>

record 'db process =
  pr_stdout :: string
  pr_fatal :: "string option"
  pr_exit :: nat
  pr_db :: "'db option"

abbreviation newline :: string where
  "newline \<equiv> [CHR 0x0A]"

definition finish :: "string \<Rightarrow> 'db \<Rightarrow> 'db process" where
  "finish out db = \<lparr>pr_stdout = out, pr_fatal = None, pr_exit = 0, pr_db = Some db\<rparr>"

definition fatal :: "string \<Rightarrow> 'db option \<Rightarrow> 'db process" where
  "fatal msg db = \<lparr>pr_stdout = [], pr_fatal = Some (''error: '' @ msg @ newline), pr_exit = 1, pr_db = db\<rparr>"

text \<open>An error that a method returned goes to \<^verbatim>\<open>fatal\<close>; a panic ends the process with exit code 2.\<close>

definition fail_with :: "string \<Rightarrow> err \<Rightarrow> 'db option \<Rightarrow> 'db process" where
  "fail_with what e db = (case e of
      Panic m \<Rightarrow> \<lparr>pr_stdout = [], pr_fatal = None, pr_exit = 2, pr_db = db\<rparr>
    | _ \<Rightarrow> fatal (what @ '': '' @ err_text e) db)"

section \<open>Dispatch\<close>

datatype command = RunCLI string | RunStandalone | RunCluster | Usage

definition main_core :: "string list \<Rightarrow> command" where
  "main_core args =
     (if length args < 2 then Usage
      else let cmd = args ! 1 in
        if cmd \<in> {''put'', ''get'', ''delete'', ''list'', ''rev''} then RunCLI cmd
        else if cmd = ''serve'' then RunStandalone
        else if cmd = ''cluster'' then RunCluster
        else Usage)"

text \<open>The text of \<^verbatim>\<open>usage\<close> by lines, and the exit after it.\<close>

definition usage_core :: "string list" where
  "usage_core =
    [''PaladinCore '' @ [CHR 0xE2, CHR 0x80, CHR 0x94] @ '' Distributed Configuration Center'',
     [],
     ''Commands:'',
     ''  serve [addr]                  Standalone HTTP server'',
     ''  cluster --id ID [options]     Raft cluster node'',
     [],
     ''Cluster Options:'',
     ''  --id ID              Node ID (required)'',
     ''  --raft ADDR          Raft bind address (default 127.0.0.1:9001)'',
     ''  --http ADDR          HTTP listen address (default :8080)'',
     ''  --data DIR           Data directory (default data-{id})'',
     ''  --bootstrap          Bootstrap as initial leader'',
     ''  --join LEADER:PORT   Join an existing cluster'',
     [],
     ''CLI Commands:'',
     ''  put <key> <value>    Create/update config'',
     ''  get <key>            Get config'',
     ''  delete <key>         Delete config'',
     ''  list [prefix]        List configs'',
     ''  rev                  Show revision'']"

definition usage :: "'db process" where
  "usage = \<lparr>pr_stdout = [], pr_fatal = Some (concat (map (\<lambda>l. l @ newline) usage_core)), pr_exit = 1, pr_db = None\<rparr>"

definition defaultDBPath :: string where
  "defaultDBPath = ''paladin-core.db''"

section \<open>Local commands\<close>

text \<open>\<^verbatim>\<open>%-30s\<close> pads on the right to a number of runes; a byte that is not valid UTF-8 counts as one.\<close>

function rune_count :: "string \<Rightarrow> nat" where
  "rune_count s = (if s = [] then 0 else Suc (rune_count (drop (max 1 (rune_len s)) s)))"
  by pat_completeness auto
termination
  by (relation "measure length") auto

declare rune_count.simps [simp del]

definition pad_right :: "nat \<Rightarrow> string \<Rightarrow> string" where
  "pad_right n s = s @ replicate (n - rune_count s) CHR '' ''"

definition put_line :: "string \<Rightarrow> Entry \<Rightarrow> string" where
  "put_line key e = ''OK rev='' @ FormatUint (eRevision e) @ '' version='' @ FormatUint (eVersion e) @ '' key='' @ key @ newline"

definition get_line :: "Entry \<Rightarrow> string" where
  "get_line e = ''key='' @ eKey e @ '' value='' @ bytes_str (eValue e) @ '' rev='' @ FormatUint (eRevision e) @ newline"

definition delete_line :: "string \<Rightarrow> Entry \<Rightarrow> string" where
  "delete_line key e = ''DELETED key='' @ key @ '' rev='' @ FormatUint (eRevision e) @ newline"

definition list_line :: "Entry \<Rightarrow> string" where
  "list_line e = ''  '' @ pad_right 30 (eKey e) @ '' = '' @ pad_right 20 (bytes_str (eValue e)) @
     ''  rev='' @ FormatUint (eRevision e) @ newline"

definition rev_line :: "u64 \<Rightarrow> string" where
  "rev_line r = ''rev='' @ FormatUint r @ newline"

definition list_prefix :: "string list \<Rightarrow> string" where
  "list_prefix args = (if length args \<ge> 3 then args ! 2 else [])"

definition runCLI :: "'db bolt \<Rightarrow> err + 'db \<Rightarrow> string \<Rightarrow> string list \<Rightarrow> 'db process" where
  "runCLI B opened cmd args =
     (case NewBoltStore B opened of
        Inl e \<Rightarrow> fail_with ''open store'' e None
      | Inr s \<Rightarrow>
          if cmd = ''put'' then
            if length args < 4 then fatal ''usage: paladin-core put <key> <value>'' (Some (bs_db s))
            else (case bs_Put B s (args ! 2) (Some (args ! 3)) of
                (Inl e, s') \<Rightarrow> fail_with ''put'' e (Some (bs_db s'))
              | (Inr res, s') \<Rightarrow>
                  (case prEntry res of
                     None \<Rightarrow> fail_with ''put'' (Panic ''nil pointer'') (Some (bs_db s'))
                   | Some e \<Rightarrow> finish (put_line (args ! 2) e) (bs_db s')))
          else if cmd = ''get'' then
            if length args < 3 then fatal ''usage: paladin-core get <key>'' (Some (bs_db s))
            else (case bs_Get B s (args ! 2) of
                Inl e \<Rightarrow> fail_with ''get'' e (Some (bs_db s))
              | Inr e \<Rightarrow> finish (get_line e) (bs_db s))
          else if cmd = ''delete'' then
            if length args < 3 then fatal ''usage: paladin-core delete <key>'' (Some (bs_db s))
            else (case bs_Delete B s (args ! 2) of
                (Inl e, s') \<Rightarrow> fail_with ''delete'' e (Some (bs_db s'))
              | (Inr d, s') \<Rightarrow> finish (delete_line (args ! 2) d) (bs_db s'))
          else if cmd = ''list'' then
            (case bs_List B s (list_prefix args) of
                Inl e \<Rightarrow> fail_with ''list'' e (Some (bs_db s))
              | Inr es \<Rightarrow> finish (concat (map list_line es)) (bs_db s))
          else if cmd = ''rev'' then finish (rev_line (bs_Rev s)) (bs_db s)
          else finish [] (bs_db s))"

section \<open>The standalone server\<close>

text \<open>
  What \<^verbatim>\<open>runStandalone\<close> sets up before it listens: the address, the state of the server and its
  route table (\<^term>\<open>None\<close> is a panic of the registration). An error that wraps a \<^term>\<open>Panic\<close> stands for that panic. \<^verbatim>\<open>ListenAndServe\<close> returns only with an
  error, which is fatal.
\<close>

record ('st, 'mux) listening =
  ln_addr :: string
  ln_state :: 'st
  ln_mux :: "'mux option"

definition serve_addr :: "string list \<Rightarrow> string" where
  "serve_addr args = (if length args \<ge> 3 then args ! 2 else '':8080'')"

definition runStandalone ::
  "'db bolt \<Rightarrow> (string \<Rightarrow> err + 'db) \<Rightarrow> watch_env \<Rightarrow> 'db WatchableStore Server handler \<Rightarrow> string list
     \<Rightarrow> err + ('db WatchableStore Server, 'db WatchableStore Server handler mux) listening" where
  "runStandalone B open_db env prom args =
     (case NewBoltStore B (open_db defaultDBPath) of
        Inl e \<Rightarrow> Inl (Wrap ''open store'' e)
      | Inr bs \<Rightarrow>
          Inr \<lparr>ln_addr = serve_addr args,
               ln_state = \<lparr>srv_store = NewWatchableStore bs, srv_gauge = None\<rparr>,
               ln_mux = New_server (watchable_ops B) (Some env) prom\<rparr>)"

section \<open>Flags\<close>

record cluster_flags =
  cf_id :: string
  cf_raft :: string
  cf_http :: string
  cf_data :: string
  cf_bootstrap :: bool
  cf_join :: string

definition cluster_defaults :: cluster_flags where
  "cluster_defaults = \<lparr>cf_id = [], cf_raft = ''127.0.0.1:9001'', cf_http = '':8080'', cf_data = [],
     cf_bootstrap = False, cf_join = []\<rparr>"

definition cluster_kind :: "string \<Rightarrow> flag_kind option" where
  "cluster_kind n =
     (if n \<in> {''id'', ''raft'', ''http'', ''data'', ''join''} then Some StringFlag
      else if n = ''bootstrap'' then Some BoolFlag else None)"

definition set_cluster_flag :: "string \<times> string \<Rightarrow> cluster_flags \<Rightarrow> cluster_flags" where
  "set_cluster_flag = (\<lambda>(n, v) f.
     if n = ''id'' then f\<lparr>cf_id := v\<rparr> else if n = ''raft'' then f\<lparr>cf_raft := v\<rparr>
     else if n = ''http'' then f\<lparr>cf_http := v\<rparr> else if n = ''data'' then f\<lparr>cf_data := v\<rparr>
     else if n = ''join'' then f\<lparr>cf_join := v\<rparr> else f\<lparr>cf_bootstrap := (ParseBool v = Some True)\<rparr>)"

definition cluster_args :: "string list \<Rightarrow> nat + cluster_flags" where
  "cluster_args args = map_sum (\<lambda>c. c) (\<lambda>as. fold set_cluster_flag as cluster_defaults)
     (parse_flags cluster_kind (drop 2 args))"

text \<open>The usage text gives the defaults of the two addresses.\<close>

lemma usage_core_defaults:
  "''  --raft ADDR          Raft bind address (default '' @ cf_raft cluster_defaults @ '')'' \<in> set usage_core"
  "''  --http ADDR          HTTP listen address (default '' @ cf_http cluster_defaults @ '')'' \<in> set usage_core"
  by (simp_all add: usage_core_def cluster_defaults_def)

section \<open>A cluster node\<close>

definition advertise_addr :: "string \<Rightarrow> string" where
  "advertise_addr addr = (if HasPrefix addr '':'' then ''127.0.0.1'' @ addr else addr)"

definition join_url :: "cluster_flags \<Rightarrow> string" where
  "join_url f = ''http://'' @ cf_join f @ ''/admin/join?id='' @ cf_id f @ ''&addr='' @ cf_raft f @
     ''&http='' @ advertise_addr (cf_http f)"

definition join_cluster :: "(string \<Rightarrow> err + Response) \<Rightarrow> cluster_flags \<Rightarrow> string option" where
  "join_cluster post f =
     (if cf_join f = [] then None
      else (case post (join_url f) of
          Inl e \<Rightarrow> Some (''join cluster: '' @ err_text e)
        | Inr resp \<Rightarrow> if rsp_Status resp \<noteq> 200 then Some (''join cluster: status '' @ FormatInt (int (rsp_Status resp)))
            else None))"

definition node_config :: "cluster_flags \<Rightarrow> NodeConfig" where
  "node_config f = \<lparr>nc_NodeID = cf_id f, nc_BindAddr = cf_raft f,
     nc_DataDir = (if cf_data f = [] then ''data-'' @ cf_id f else cf_data f), nc_Bootstrap = cf_bootstrap f\<rparr>"

text \<open>
  How the start ends: in an exit, or with a server that listens and, on a bootstrap node, the
  goroutine that registers the given id and address. The join request is made before the server
  listens. A panic inside \<^verbatim>\<open>NewNode\<close> ends the process with exit code 2.
\<close>

fun panics :: "err \<Rightarrow> bool" where
  "panics (Wrap m e) = panics e"
| "panics (Panic m) = True"
| "panics e = False"

datatype 'l start = Exit nat "string option" | Started 'l "(string \<times> string) option"

definition runCluster ::
  "'db bolt \<Rightarrow> ('r, 'db) node_env \<Rightarrow> http_client \<Rightarrow> 'r raft \<Rightarrow> watch_env \<Rightarrow> ('r, 'db) RaftServer handler \<Rightarrow>
     (string \<Rightarrow> err + Response) \<Rightarrow> string list
     \<Rightarrow> (('r, 'db) RaftServer, ('r, 'db) RaftServer handler mux) listening start" where
  "runCluster B E H R env prom post args =
     (case cluster_args args of
        Inl c \<Rightarrow> Exit c None
      | Inr f \<Rightarrow>
          if cf_id f = [] then Exit 1 (Some ''error: ---id is required'')
          else (case NewNode B E (node_config f) of
              Inl e \<Rightarrow> if panics e then Exit 2 None else Exit 1 (Some (''error: create raft node: '' @ err_text e))
            | Inr node \<Rightarrow>
                (case join_cluster post f of
                   Some msg \<Rightarrow> Exit 1 (Some (''error: '' @ msg))
                 | None \<Rightarrow>
                     Started \<lparr>ln_addr = cf_http f, ln_state = \<lparr>rsv_node = node, rsv_applies = []\<rparr>,
                              ln_mux = NewRaftServer H R B env prom\<rparr>
                       (if cf_bootstrap f then Some (cf_id f, advertise_addr (cf_http f)) else None))))"

text \<open>The goroutine of a bootstrap node; \<open>node\<close> is its state when the wait ends. \<^term>\<open>None\<close>: still waiting.\<close>

definition self_register ::
  "'r raft \<Rightarrow> 'db bolt \<Rightarrow> ('r, 'db) Node \<Rightarrow> int \<Rightarrow> (string \<times> int) list \<Rightarrow> string \<Rightarrow> string
     \<Rightarrow> (err option \<times> ('r, 'db) Node) option" where
  "self_register R B node now polls nodeID addr =
     (case WaitForLeader now (10 * second) polls of
        None \<Rightarrow> None
      | Some (Some e) \<Rightarrow> Some (Some e, node)
      | Some None \<Rightarrow>
          if \<not> node_IsLeader R node then Some (None, node)
          else Some (RegisterPeerHTTP R B node nodeID addr))"

section \<open>Local commands on the abstract map\<close>

text \<open>The contents of a database file between two commands.\<close>

definition disk_abs :: "'db bolt \<Rightarrow> 'db \<Rightarrow> kv" where
  "disk_abs B d = \<lparr>kv_map = bs_entries B \<lparr>bs_db = d, bs_rev = 0\<rparr>, kv_rev = the (disk_rev B d)\<rparr>"

definition disk_ok :: "'db bolt \<Rightarrow> 'db \<Rightarrow> bool" where
  "disk_ok B d \<longleftrightarrow> (\<exists>r. bs_synced B \<lparr>bs_db = d, bs_rev = r\<rparr>)"

text \<open>What a command prints and does on the abstract map; \<^term>\<open>None\<close> when it has to fail.\<close>

definition cli_spec :: "kv \<Rightarrow> string \<Rightarrow> string list \<Rightarrow> (string \<times> kv) option" where
  "cli_spec s cmd args =
     (if cmd = ''put'' then
        if length args < 4 then None
        else Some (put_line (args ! 2) (kv_next s (args ! 2) (Some (args ! 3))), kv_put s (args ! 2) (Some (args ! 3)))
      else if cmd = ''get'' then
        if length args < 3 then None else map_option (\<lambda>e. (get_line e, s)) (kv_map s (args ! 2))
      else if cmd = ''delete'' then
        if length args < 3 then None
        else map_option (\<lambda>e. (delete_line (args ! 2) (e\<lparr>eRevision := kv_rev s + 1\<rparr>), kv_delete s (args ! 2))) (kv_map s (args ! 2))
      else if cmd = ''list'' then Some (concat (map list_line (kv_list s (list_prefix args))), s)
      else if cmd = ''rev'' then Some (rev_line (kv_rev s), s)
      else Some ([], s))"

lemma bs_entries_db: "bs_db s = d \<Longrightarrow> bs_entries B \<lparr>bs_db = d, bs_rev = r\<rparr> = bs_entries B s"
  by (simp add: fun_eq_iff bs_entries_def)

lemma synced_disk:
  assumes "bs_synced B s"
  shows "disk_ok B (bs_db s)" and "disk_abs B (bs_db s) = bs_abs B s"
proof -
  show "disk_ok B (bs_db s)" unfolding disk_ok_def using assms by (intro exI [of _ "bs_rev s"]) (cases s; simp)
  show "disk_abs B (bs_db s) = bs_abs B s"
    using assms by (simp add: disk_abs_def bs_abs_def bs_synced_def bs_entries_db)
qed

lemma fail_with_simps [simp]:
  "pr_exit (fail_with what e db) \<noteq> 0" "pr_stdout (fail_with what e db) = []" "pr_db (fail_with what e db) = db"
  "pr_exit (fatal m db) = 1" "pr_stdout (fatal m db) = []" "pr_db (fatal m db) = db"
  by (auto simp: fail_with_def fatal_def split: err.splits)

lemma finish_simps [simp]:
  "pr_exit (finish out d) = 0" "pr_stdout (finish out d) = out" "pr_db (finish out d) = Some d"
  by (simp_all add: finish_def)

text \<open>How a process stands to the abstract map that it started from.\<close>

definition cli_refines_from :: "'db bolt \<Rightarrow> kv \<Rightarrow> (string \<times> kv) option \<Rightarrow> 'db process \<Rightarrow> bool" where
  "cli_refines_from B s spec p \<longleftrightarrow> (\<exists>d. pr_db p = Some d \<and> disk_ok B d \<and>
     (if pr_exit p = 0 then spec = Some (pr_stdout p, disk_abs B d)
      else pr_stdout p = [] \<and> disk_abs B d = s))"

lemma cli_finish: "bs_synced B s \<Longrightarrow> spec = Some (out, bs_abs B s) \<Longrightarrow> cli_refines_from B a spec (finish out (bs_db s))"
  by (simp add: cli_refines_from_def synced_disk)

lemma cli_fatal:
  "bs_synced B s \<Longrightarrow> cli_refines_from B (bs_abs B s) spec (fatal m (Some (bs_db s)))"
  "bs_synced B s \<Longrightarrow> cli_refines_from B (bs_abs B s) spec (fail_with w e (Some (bs_db s)))"
  by (simp_all add: cli_refines_from_def synced_disk)

context bolt_api
begin

lemma NewBoltStore_disk:
  assumes "disk_ok B d" and "NewBoltStore B (Inr d) = Inr s"
  shows "bs_synced B s" and "bs_abs B s = disk_abs B d"
proof -
  obtain r where r: "bs_synced B \<lparr>bs_db = d, bs_rev = r\<rparr>" using assms(1) by (auto simp: disk_ok_def)
  then have wf: "bs_wf B \<lparr>bs_db = d, bs_rev = r\<rparr>" by (simp add: bs_synced_def)
  obtain t1 t2 d' where t: "tx_create B d bucketData = Inr t1" "tx_create B t1 bucketMeta = Inr t2" "tx_commit B t2 = Inr d'"
    using assms(2) by (auto simp: NewBoltStore_def split: sum.splits)
  obtain s' where "NewBoltStore B (Inr d) = Inr s'" "bs_synced B s'" "bs_entries B s' = bs_entries B \<lparr>bs_db = d, bs_rev = r\<rparr>"
    "disk_rev B d = Some (bs_rev s')"
    by (rule NewBoltStore_reopen [OF wf _ t]) simp_all
  then show "bs_synced B s" "bs_abs B s = disk_abs B d"
    using assms(2) bs_entries_db [of "\<lparr>bs_db = d, bs_rev = r\<rparr>" d B 0] by (simp_all add: disk_abs_def bs_abs_def)
qed

lemma runCLI_put:
  assumes sy: "bs_synced B s" and r: "bs_rev s < max_rev" and s: "NewBoltStore B (Inr d) = Inr s" and "\<not> length args < 4"
  shows "cli_refines_from B (bs_abs B s) (cli_spec (bs_abs B s) ''put'' args) (runCLI B (Inr d) ''put'' args)"
proof -
  have wf: "bs_wf B s" using sy by (simp add: bs_synced_def)
  show ?thesis
  proof (cases rule: bs_Put_cases [OF wf, of "args ! 2" "Some (args ! 3)"])
    case (3 tx d')
    then obtain res s' where put: "bs_Put B s (args ! 2) (Some (args ! 3)) = (Inr res, s')" by auto
    note ok = bs_Put_ok [OF wf r put]
    show ?thesis using assms(4) put ok(3) cli_finish [OF ok(1)] by (simp add: runCLI_def s ok(2) cli_spec_def)
  qed (use assms(4) cli_fatal [OF sy] in \<open>simp_all add: runCLI_def s\<close>)
qed

lemma runCLI_delete:
  assumes sy: "bs_synced B s" and r: "bs_rev s < max_rev" and s: "NewBoltStore B (Inr d) = Inr s" and "\<not> length args < 3"
  shows "cli_refines_from B (bs_abs B s) (cli_spec (bs_abs B s) ''delete'' args) (runCLI B (Inr d) ''delete'' args)"
proof -
  have wf: "bs_wf B s" using sy by (simp add: bs_synced_def)
  obtain res s' where del: "bs_Delete B s (args ! 2) = (res, s')" by (cases "bs_Delete B s (args ! 2)")
  show ?thesis
  proof (cases res)
    case (Inr e)
    note ok = bs_Delete_ok [OF wf r del [unfolded Inr]]
    then obtain p where "bs_entries B s (args ! 2) = Some p" "e = p\<lparr>eRevision := bs_rev s + 1\<rparr>" by blast
    then show ?thesis using assms(4) del Inr cli_finish [OF ok(1)] by (simp add: runCLI_def s ok(2) cli_spec_def)
  next
    case (Inl e)
    have "bs_db s' = bs_db s"
      using del Inl by (cases rule: bs_Delete_cases [OF wf, of "args ! 2"]) auto
    then show ?thesis using assms(4) del Inl cli_fatal [OF sy] by (simp add: runCLI_def s)
  qed
qed

lemma runCLI_refines:
  assumes disk: "disk_ok B d" and rev: "kv_rev (disk_abs B d) < max_rev" and s: "NewBoltStore B (Inr d) = Inr s"
  shows "cli_refines_from B (disk_abs B d) (cli_spec (disk_abs B d) cmd args) (runCLI B (Inr d) cmd args)"
proof -
  have sy: "bs_synced B s" and abs: "disk_abs B d = bs_abs B s" using NewBoltStore_disk [OF disk s] by simp_all
  have wf: "bs_wf B s" and r: "bs_rev s < max_rev" using sy rev by (simp_all add: bs_synced_def abs)
  note fin = cli_fatal [OF sy] cli_finish [OF sy]
  consider (put) "cmd = ''put''" "\<not> length args < 4" | (delete) "cmd = ''delete''" "\<not> length args < 3"
    | (get) "cmd = ''get''" "\<not> length args < 3" | (other) "cmd \<notin> {''put'', ''delete'', ''get''}"
    | (usage) "cmd = ''put'' \<and> length args < 4 \<or> cmd \<in> {''get'', ''delete''} \<and> length args < 3" by auto
  then show ?thesis
  proof cases
    case get
    then show ?thesis
      using fin by (cases "bs_entries B s (args ! 2)") (simp_all add: runCLI_def s abs cli_spec_def bs_Get_wf [OF wf])
  next
    case other
    then show ?thesis using fin by (simp add: runCLI_def s abs cli_spec_def bs_List_spec [OF wf] bs_Rev_def)
  next
    case usage
    then show ?thesis using fin by (auto simp: runCLI_def s abs)
  qed (use runCLI_put [OF sy r s] runCLI_delete [OF sy r s] abs in simp_all)
qed

end

text \<open>C21: every local command is a transaction on the file. On a database file that holds an abstract
  map, a command that exits with 0 prints what the map says and leaves the file with the map that
  the command means; a command that fails prints nothing and leaves entries and revision as they
  were, also when the commit failed, because the next command reads the revision from the file.\<close>

theorem cli_refines:
  assumes "bolt_api B" and "disk_ok B d" and "kv_rev (disk_abs B d) < max_rev"
    and "main_core args = RunCLI cmd" and "runCLI B (Inr d) cmd args = p" and "pr_db p = Some d'"
  shows "disk_ok B d' \<and>
    (if pr_exit p = 0 then cli_spec (disk_abs B d) cmd args = Some (pr_stdout p, disk_abs B d')
     else pr_stdout p = [] \<and> disk_abs B d' = disk_abs B d)"
proof -
  obtain s where "NewBoltStore B (Inr d) = Inr s"
    using assms(5,6) by (cases "NewBoltStore B (Inr d)") (auto simp: runCLI_def)
  from bolt_api.runCLI_refines [OF assms(1-3) this, of cmd args] show ?thesis
    using assms(5,6) by (auto simp: cli_refines_from_def)
qed

definition demo_get :: "mem_db process" where
  "demo_get = runCLI mem_bolt (Inr (bs_db (snd demo_put))) ''get'' [''paladin-core'', ''get'', ''app/db'']"

lemma demo_disk:
  "disk_ok mem_bolt (bs_db (snd demo_put))" "disk_abs mem_bolt (bs_db (snd demo_put)) = bs_abs mem_bolt (snd demo_put)"
  using synced_disk [OF demo_put_state(1)] by simp_all

theorem cli_refines_witness:
  "pr_exit demo_get = 0 \<and> pr_stdout demo_get = ''key=app/db value=v1 rev=1'' @ newline \<and>
   cli_spec (disk_abs mem_bolt (bs_db (snd demo_put))) ''get'' [''paladin-core'', ''get'', ''app/db'']
     = Some (pr_stdout demo_get, disk_abs mem_bolt (bs_db (snd demo_put)))"
proof -
  let ?d = "bs_db (snd demo_put)" and ?a = "[''paladin-core'', ''get'', ''app/db'']"
  obtain res where p: "demo_put = (Inr res, snd demo_put)" by (rule demo_put_ok) (metis prod.collapse sndI)
  then have "bs_abs mem_bolt (snd demo_put) = kv_put (bs_abs mem_bolt (mem_store 8)) ''app/db'' (Some ''v1'')"
    using mem.bs_Put_ok(2) [OF mem_store_wf, of 8 "''app/db''" "Some ''v1''" res "snd demo_put"]
    by (simp add: demo_put_def mem_store_def max_rev_def)
  moreover have one: "FormatUint 1 = ''1''" by code_simp
  ultimately have spec: "cli_spec (disk_abs mem_bolt ?d) ''get'' ?a = Some (''key=app/db value=v1 rev=1'' @ newline, disk_abs mem_bolt ?d)"
    unfolding demo_disk(2) by (simp add: cli_spec_def kv_put_def kv_next_def Let_def get_line_def norm_entry_def mem_store_def
        utf8_coerce_ascii one)
  have "tx_commit mem_bolt ?d = Inr ?d" using demo_put_state(2) by (simp add: mem_room_def mem_commit_def)
  then obtain s where s: "NewBoltStore mem_bolt (Inr ?d) = Inr s" "bs_db s = ?d"
    using mem.NewBoltStore_reopen [OF demo_put_wf, of ?d ?d ?d ?d] by (force simp: NewBoltStore_def split: option.splits)
  note n = mem.NewBoltStore_disk [OF demo_disk(1) s(1)]
  have "bs_entries mem_bolt s = bs_entries mem_bolt (snd demo_put)"
    using arg_cong [OF n(2), of kv_map] unfolding demo_disk(2) by simp
  then have "bs_entries mem_bolt s ''app/db'' \<noteq> None" "bs_wf mem_bolt s"
    using n(1) demo_put_state(4) by (simp_all add: bs_synced_def)
  then obtain e where "demo_get = finish (get_line e) ?d"
    using s by (auto simp: demo_get_def runCLI_def mem.bs_Get_wf)
  then show ?thesis
    using cli_refines [OF mem_bolt_api demo_disk(1), of ?a "''get''" demo_get ?d] spec demo_put_state(3)
    by (simp add: demo_disk main_core_def max_rev_def demo_get_def)
qed

section \<open>Joining a cluster\<close>

text \<open>
  The query of a URL, as \<^verbatim>\<open>url.Parse\<close> and \<^verbatim>\<open>url.ParseQuery\<close> see it: the fragment is cut off first, a
  part with a semicolon or a bad escape is dropped, and \<^verbatim>\<open>Get\<close> takes the first value of a key.
\<close>

definition url_query :: "string \<Rightarrow> string" where
  "url_query u = drop 1 (dropWhile (\<lambda>c. c \<noteq> CHR ''?'') (takeWhile (\<lambda>c. c \<noteq> CHR ''#'') u))"

definition QueryUnescape :: "string \<Rightarrow> string option" where
  "QueryUnescape s = PathUnescape (map (\<lambda>c. if c = CHR ''+'' then CHR '' '' else c) s)"

definition query_pair :: "string \<Rightarrow> (string \<times> string) option" where
  "query_pair s =
     (if s = [] \<or> CHR '';'' \<in> set s then None
      else (case (QueryUnescape (takeWhile (\<lambda>c. c \<noteq> CHR ''='') s), QueryUnescape (drop 1 (dropWhile (\<lambda>c. c \<noteq> CHR ''='') s))) of
          (Some k, Some v) \<Rightarrow> Some (k, v)
        | _ \<Rightarrow> None))"

definition query_get :: "string \<Rightarrow> string \<Rightarrow> string" where
  "query_get q k = (case map_of (List.map_filter query_pair (Split q CHR ''&'')) k of None \<Rightarrow> [] | Some v \<Rightarrow> v)"

text \<open>The request that a server gets for a URL without user, path escapes or body.\<close>

definition url_path :: "string \<Rightarrow> string" where
  "url_path u = takeWhile (\<lambda>c. c \<noteq> CHR ''?'') (dropWhile (\<lambda>c. c \<noteq> CHR ''/'') (drop 7 u))"

definition server_request :: "string \<Rightarrow> string \<Rightarrow> Request" where
  "server_request meth u = \<lparr>rq_Method = meth, rq_Path = url_path u, rq_EscapedPath = url_path u,
     rq_URL = url_path u @ ''?'' @ url_query u, rq_Query = query_get (url_query u), rq_Header = [], rq_Body = ([], None)\<rparr>"

text \<open>Characters that stand for themselves in a query.\<close>

definition query_safe :: "char \<Rightarrow> bool" where
  "query_safe c \<longleftrightarrow> 0x21 \<le> code c \<and> code c < 0x7F \<and> c \<notin> {CHR ''&'', CHR ''%'', CHR ''+'', CHR '';'', CHR ''#''}"

lemma QueryUnescape_safe: "list_all query_safe s \<Longrightarrow> QueryUnescape s = Some s"
  by (induction s) (auto simp: QueryUnescape_def query_safe_def)

lemma cut_at:
  "c \<notin> set k \<Longrightarrow> takeWhile (\<lambda>x. x \<noteq> c) (k @ c # v) = k" "c \<notin> set k \<Longrightarrow> dropWhile (\<lambda>x. x \<noteq> c) (k @ c # v) = c # v"
  by (induction k) auto

lemma query_pair_safe:
  assumes "list_all query_safe k" and "CHR ''='' \<notin> set k" and "list_all query_safe v"
  shows "query_pair (k @ CHR ''='' # v) = Some (k, v)"
  using assms by (auto simp: query_pair_def cut_at QueryUnescape_safe list_all_iff query_safe_def)

text \<open>The three parameters of the join request arrive as they were given.\<close>

definition join_safe :: "cluster_flags \<Rightarrow> bool" where
  "join_safe f \<longleftrightarrow> list_all query_safe (cf_join f @ cf_id f @ cf_raft f @ cf_http f) \<and> CHR ''?'' \<notin> set (cf_join f)"

lemma advertise_safe: "list_all query_safe (cf_http f) \<Longrightarrow> list_all query_safe (advertise_addr (cf_http f))"
  by (simp add: advertise_addr_def query_safe_def)

lemma join_query:
  assumes "join_safe f"
  shows "url_query (join_url f) = Join [''id='' @ cf_id f, ''addr='' @ cf_raft f, ''http='' @ advertise_addr (cf_http f)] ''&''"
proof -
  let ?q = "''id='' @ cf_id f @ ''&addr='' @ cf_raft f @ ''&http='' @ advertise_addr (cf_http f)"
    and ?h = "''http://'' @ cf_join f @ ''/admin/join''"
  have u: "join_url f = ?h @ CHR ''?'' # ?q" by (simp add: join_url_def)
  have "CHR ''#'' \<notin> set (join_url f)"
    using assms advertise_safe [of f] unfolding u by (auto simp: join_safe_def list_all_iff query_safe_def)
  then have t: "takeWhile (\<lambda>c. c \<noteq> CHR ''#'') (join_url f) = join_url f" by (auto simp: takeWhile_eq_all_conv)
  have "CHR ''?'' \<notin> set ?h" using assms by (auto simp: join_safe_def)
  from cut_at(2) [OF this, of ?q] have "drop 1 (dropWhile (\<lambda>c. c \<noteq> CHR ''?'') (join_url f)) = ?q" unfolding u by simp
  then show ?thesis unfolding url_query_def t by simp
qed

lemma join_params:
  assumes "join_safe f"
  shows "query_get (url_query (join_url f)) ''id'' = cf_id f" "query_get (url_query (join_url f)) ''addr'' = cf_raft f"
    "query_get (url_query (join_url f)) ''http'' = advertise_addr (cf_http f)"
proof -
  have safe: "list_all query_safe (cf_id f)" "list_all query_safe (cf_raft f)" "list_all query_safe (advertise_addr (cf_http f))"
    using assms advertise_safe [of f] by (simp_all add: join_safe_def)
  have amp: "CHR ''&'' \<notin> set s" if "list_all query_safe s" for s using that by (auto simp: list_all_iff query_safe_def)
  have "Split (url_query (join_url f)) CHR ''&'' = [''id='' @ cf_id f, ''addr='' @ cf_raft f, ''http='' @ advertise_addr (cf_http f)]"
    unfolding join_query [OF assms] by (rule Split_Join) (use safe amp in auto)
  moreover have "query_pair (''id='' @ cf_id f) = Some (''id'', cf_id f)" "query_pair (''addr='' @ cf_raft f) = Some (''addr'', cf_raft f)"
    "query_pair (''http='' @ advertise_addr (cf_http f)) = Some (''http'', advertise_addr (cf_http f))"
    using query_pair_safe [of "''id''"] query_pair_safe [of "''addr''"] query_pair_safe [of "''http''"] safe
    by (simp_all add: query_safe_def)
  ultimately show "query_get (url_query (join_url f)) ''id'' = cf_id f" "query_get (url_query (join_url f)) ''addr'' = cf_raft f"
    "query_get (url_query (join_url f)) ''http'' = advertise_addr (cf_http f)"
    by (simp_all add: query_get_def List.map_filter_def)
qed

lemma handleJoin_ok:
  assumes "handleJoin R B rs r = (resp, rs')" and "rsp_Status resp = 200"
  shows "\<exists>q n'. r_AddVoter R (n_raft (rsv_node rs)) (rq_Query r ''id'') (rq_Query r ''addr'') = (None, q) \<and>
    RegisterPeerHTTP R B ((rsv_node rs)\<lparr>n_raft := q\<rparr>) (rq_Query r ''id'') (rq_Query r ''http'') = (None, n') \<and> rsv_node rs' = n'"
  using assms
  by (auto simp: handleJoin_def Let_def httpError_def node_Join_def split: if_splits option.splits prod.splits)

lemma RegisterPeerHTTP_None:
  assumes "RegisterPeerHTTP R B n nodeID addr = (None, n')"
  shows "r_IsLeader R (n_raft n)"
    and "r_Apply R (n_raft n) (marshal_op \<lparr>opType = ''put'', opKey = PeerHTTPPrefix @ nodeID, opValue = Some addr\<rparr>) (5 * second)
      = (before, ferr, r) \<Longrightarrow> ferr = None"
  using assms
  by (auto simp: RegisterPeerHTTP_def node_Apply_def Let_def split: if_splits option.splits prod.splits sum.splits)

lemma runCluster_joined:
  assumes "runCluster B E H R env prom post args = Started l reg" and "cluster_args args = Inr f"
  shows "cf_id f \<noteq> []" and "cf_join f \<noteq> [] \<Longrightarrow> \<exists>resp. post (join_url f) = Inr resp \<and> rsp_Status resp = 200"
proof -
  have "cf_id f \<noteq> [] \<and> join_cluster post f = None"
    using assms by (simp add: runCluster_def split: if_splits sum.splits option.splits)
  then show "cf_id f \<noteq> []" "cf_join f \<noteq> [] \<Longrightarrow> \<exists>resp. post (join_url f) = Inr resp \<and> rsp_Status resp = 200"
    by (simp_all add: join_cluster_def split: if_splits sum.splits)
qed

end
