(* ===== verification/Cluster.thy ===== *)
theory Cluster
  imports Command_Line
begin

text \<open>
  Several nodes together. Every node applies a prefix of the one committed log; a request that
  reaches a follower travels to the leader over HTTP and comes back as a log entry. Three
  facts result: a write that was acknowledged anywhere is read everywhere once its entry is applied,
  the revision that the answers carry identifies the state of the store on all nodes, and a node
  that joined is found under the address that it advertised.
\<close>

section \<open>Requests between nodes\<close>

text \<open>What the server at the other end sees of a request that \<^verbatim>\<open>http.Client.Do\<close> sends.\<close>

definition received :: "OutRequest \<Rightarrow> Request" where
  "received q = (server_request (out_Method q) (out_URL q))\<lparr>rq_Path := path_unescape (url_path (out_URL q)),
     rq_Header := out_Header q, rq_Body := (bytes_str (out_Body q), None)\<rparr>"

text \<open>The fields of a request that a server parsed from the wire fit together.\<close>

definition wire_ok :: "Request \<Rightarrow> bool" where
  "wire_ok r \<longleftrightarrow> HasPrefix (rq_EscapedPath r) ''/'' \<and> CHR ''?'' \<notin> set (rq_EscapedPath r) \<and>
     rq_Path r = path_unescape (rq_EscapedPath r) \<and>
     HasPrefix (rq_URL r) (rq_EscapedPath r) \<and>
     (let q = drop (length (rq_EscapedPath r)) (rq_URL r) in q = [] \<or> hd q = CHR ''?'')"

definition host_ok :: "string \<Rightarrow> bool" where
  "host_ok addr \<longleftrightarrow> addr \<noteq> [] \<and> CHR ''/'' \<notin> set addr"

text \<open>The raft library hands the committed entries to the state machine of a node.\<close>

definition catch_up :: "'db bolt \<Rightarrow> ('r, 'db) RaftServer \<Rightarrow> string list \<Rightarrow> ('r, 'db) RaftServer" where
  "catch_up B rs lg = rs\<lparr>rsv_node := (rsv_node rs)\<lparr>n_fsm := snd (fsm_run B (n_fsm (rsv_node rs)) lg)\<rparr>\<rparr>"

lemma url_path_forwarded:
  assumes "wire_ok r" and "host_ok addr"
  shows "url_path (''http://'' @ addr @ rq_URL r) = rq_EscapedPath r"
proof -
  obtain q where q: "rq_URL r = rq_EscapedPath r @ q" "q = [] \<or> hd q = CHR ''?''"
    using assms(1) unfolding wire_ok_def HasPrefix_def Let_def by (metis append_take_drop_id)
  obtain p where p: "rq_EscapedPath r = CHR ''/'' # p"
    using assms(1) by (cases "rq_EscapedPath r") (auto simp: wire_ok_def HasPrefix_def)
  have "dropWhile (\<lambda>c. c \<noteq> CHR ''/'') (addr @ CHR ''/'' # p @ q) = CHR ''/'' # p @ q"
    using assms(2) by (intro cut_at(2)) (simp add: host_ok_def)
  moreover have "takeWhile (\<lambda>c. c \<noteq> CHR ''?'') (CHR ''/'' # p @ q) = CHR ''/'' # p"
  proof (cases q)
    case Nil
    then show ?thesis using assms(1) by (auto simp: wire_ok_def p takeWhile_eq_all_conv)
  next
    case (Cons c cs)
    then show ?thesis using cut_at(1) [of "CHR ''?''" "CHR ''/'' # p" cs] assms(1) q(2) by (simp add: wire_ok_def p)
  qed
  ultimately show ?thesis by (simp add: url_path_def q(1) p)
qed

lemma received_forward:
  assumes "wire_ok r" and "host_ok addr"
  shows "rq_Path (received (forward_request r (''http://'' @ addr @ rq_URL r) by body)) = rq_Path r"
    and "rq_Method (received (forward_request r url by body)) = rq_Method r"
    and "rq_Body (received (forward_request r url by body)) = (bytes_str body, None)"
  using url_path_forwarded [OF assms] assms(1)
  by (simp_all only: received_def forward_request_def server_request_def wire_ok_def OutRequest.select_convs
      Request.select_convs Request.update_convs)

lemma read_limited_again:
  assumes "read_limited n b = Inr body"
  shows "read_limited n (body, None) = Inr body"
  using assms by (cases b) (auto simp: read_limited_def split: if_splits option.splits)

section \<open>The abstract machine on a log\<close>

lemma fsm_spec_run_append:
  "snd (fsm_spec_run reject s (lg @ lg')) = snd (fsm_spec_run reject (snd (fsm_spec_run reject s lg)) lg')"
  by (induction lg arbitrary: s) (simp_all add: case_prod_beta)

text \<open>An operation either advances the revision or changes nothing.\<close>

lemma fsm_spec_same_rev:
  assumes "fsm_spec reject s data = (res, s')" and "kv_rev s' = kv_rev s"
  shows "s' = s"
  using assms
  by (auto simp: fsm_spec_def Let_def kv_put_def kv_delete_def split: sum.splits option.splits if_splits)

lemma fsm_spec_run_same_rev:
  assumes "unat (kv_rev s) + length lg < 2 ^ 64" and "kv_rev (snd (fsm_spec_run reject s lg)) = kv_rev s"
  shows "snd (fsm_spec_run reject s lg) = s"
  using assms
proof (induction lg arbitrary: s)
  case (Cons data lg)
  obtain res s1 where 1: "fsm_spec reject s data = (res, s1)" by (cases "fsm_spec reject s data")
  obtain rs s2 where 2: "fsm_spec_run reject s1 lg = (rs, s2)" by (cases "fsm_spec_run reject s1 lg")
  have one: "fsm_spec_run reject s [data] = ([res], s1)" using 1 by simp
  have b: "unat (kv_rev s) + length [data] < 2 ^ 64" using Cons.prems(1) by simp
  have le: "kv_rev s \<le> kv_rev s1" and u: "unat (kv_rev s1) \<le> unat (kv_rev s) + 1"
    using fsm_spec_run_rev(1,2) [OF one b] by simp_all
  have b1: "unat (kv_rev s1) + length lg < 2 ^ 64" using Cons.prems(1) u by simp
  have "kv_rev s1 \<le> kv_rev s2" using fsm_spec_run_rev(2) [OF 2 b1] .
  moreover have "kv_rev s2 = kv_rev s" using Cons.prems(2) 1 2 by simp
  ultimately have "kv_rev s1 = kv_rev s" using le by simp
  then have "s1 = s" by (rule fsm_spec_same_rev [OF 1])
  then show ?case using Cons.IH [of s] Cons.prems 1 by (auto split: prod.splits)
qed simp

text \<open>The state of a replica that applied a log, on the abstract machine.\<close>

lemma replica_state:
  assumes "reliable_bolt B reject" and "ws_wf B (fsm_store f)" and "unat (kv_rev (fsm_abs B f)) + length lg < 2 ^ 64"
  shows "fsm_abs B (snd (fsm_run B f lg)) = snd (fsm_spec_run reject (fsm_abs B f) lg)"
    and "ws_wf B (fsm_store (snd (fsm_run B f lg)))"
  using reliable_bolt.fsm_run_refines [OF assms, of "fst (fsm_run B f lg)" "snd (fsm_run B f lg)"] by auto

lemma prefix_states:
  fixes reject :: "string \<Rightarrow> string \<Rightarrow> err option"
  assumes "unat (kv_rev s) + length lg < 2 ^ 64" and "i \<le> j"
  defines "si \<equiv> snd (fsm_spec_run reject s (take i lg))" and "sj \<equiv> snd (fsm_spec_run reject s (take j lg))"
  shows "kv_rev si \<le> kv_rev sj" and "kv_rev si = kv_rev sj \<Longrightarrow> si = sj"
proof -
  let ?l = "take (j - i) (drop i lg)"
  have split: "take j lg = take i lg @ ?l" using assms(2) by (metis le_add_diff_inverse take_add)
  have sj: "sj = snd (fsm_spec_run reject si ?l)" unfolding sj_def si_def split by (rule fsm_spec_run_append)
  have "length (take i lg) + length ?l \<le> length lg" by simp
  moreover have "unat (kv_rev si) \<le> unat (kv_rev s) + length (take i lg)"
    using fsm_spec_run_rev(1) [of reject s "take i lg" _ si] assms(1) by (simp add: si_def prod_eq_iff)
  ultimately have b: "unat (kv_rev si) + length ?l < 2 ^ 64" using assms(1) by linarith
  show "kv_rev si \<le> kv_rev sj" using fsm_spec_run_rev(2) [OF prod.collapse [symmetric] b] sj by simp
  show "kv_rev si = kv_rev sj \<Longrightarrow> si = sj" using fsm_spec_run_same_rev [OF b, of reject] sj by simp
qed

section \<open>Properties of the cluster\<close>

text \<open>C8: the revision identifies the state. Two replicas that started in the same state and have
  applied prefixes of the same committed log, however far each of them is, hold the same entries
  whenever they report the same revision, and answer every read alike; a replica that is behind
  never reports a higher revision than one that is ahead. So a client that compares revisions, as
  the SDK does, can move between nodes.\<close>

theorem revision_identifies_state:
  assumes "reliable_bolt B1 reject" and "reliable_bolt B2 reject"
    and "ws_wf B1 (fsm_store f1)" and "ws_wf B2 (fsm_store f2)" and "fsm_abs B1 f1 = fsm_abs B2 f2"
    and "unat (kv_rev (fsm_abs B1 f1)) + length lg < 2 ^ 64"
    and "fsm_store (snd (fsm_run B1 f1 (take i lg))) = w1" and "fsm_store (snd (fsm_run B2 f2 (take j lg))) = w2"
  shows "(ws_Rev w1 = ws_Rev w2 \<longrightarrow> ws_abs B1 w1 = ws_abs B2 w2 \<and>
      (\<forall>k. ws_Get B1 w1 k = ws_Get B2 w2 k) \<and> (\<forall>p. ws_List B1 w1 p = ws_List B2 w2 p)) \<and>
    (i \<le> j \<longrightarrow> ws_Rev w1 \<le> ws_Rev w2)"
proof -
  let ?s = "fsm_abs B1 f1"
  let ?si = "snd (fsm_spec_run reject ?s (take i lg))" and ?sj = "snd (fsm_spec_run reject ?s (take j lg))"
  have b: "unat (kv_rev ?s) + length (take n lg) < 2 ^ 64" for n using assms(6) by simp
  have 1: "ws_abs B1 w1 = ?si" "ws_wf B1 w1"
    using replica_state [OF assms(1,3) b] assms(7) by auto
  have 2: "ws_abs B2 w2 = ?sj" "ws_wf B2 w2"
    using replica_state [OF assms(2,4)] assms(5,8) b by auto
  have rev: "ws_Rev w1 = kv_rev ?si" "ws_Rev w2 = kv_rev ?sj"
    using arg_cong [OF 1(1), of kv_rev] arg_cong [OF 2(1), of kv_rev] by (simp_all add: ws_Rev_def bs_Rev_def)
  have eq: "?si = ?sj" if "kv_rev ?si = kv_rev ?sj"
    using prefix_states(2) [OF assms(6)] that by (metis linear)
  have S: "kv_store (watchable_ops B1) (ws_abs B1) (ws_wf B1)" "kv_store (watchable_ops B2) (ws_abs B2) (ws_wf B2)"
    using bolt_api.ws_kv_store reliable_bolt.axioms(1) assms(1,2) by blast+
  have "ws_Get B1 w1 k = ws_Get B2 w2 k" "ws_List B1 w1 k = ws_List B2 w2 k" if "ws_abs B1 w1 = ws_abs B2 w2" for k
    using kv_store.get_spec [OF S(1) 1(2), of k] kv_store.get_spec [OF S(2) 2(2), of k]
      kv_store.list_spec [OF S(1) 1(2), of k] kv_store.list_spec [OF S(2) 2(2), of k] that by simp_all
  then show ?thesis using eq prefix_states(1) [OF assms(6)] 1(1) 2(1) by (auto simp: rev)
qed

definition demo_behind :: "mem_db WatchableStore" where
  "demo_behind = fsm_store (snd (fsm_run mem_sure (demo_fsm 0) (take 1 [demo_data, ''junk''])))"

definition demo_ahead :: "mem_db WatchableStore" where
  "demo_ahead = fsm_store (snd (fsm_run mem_sure (demo_fsm 9) (take 2 [demo_data, ''junk''])))"

theorem revision_identifies_state_witness:
  "ws_Rev demo_behind = ws_Rev demo_ahead \<and> ws_List mem_sure demo_behind [] = ws_List mem_sure demo_ahead []"
proof -
  have eq: "fsm_abs mem_sure (demo_fsm 0) = fsm_abs mem_sure (demo_fsm 9)" by (simp only: demo_fsm_wf(3))
  have b: "unat (kv_rev (fsm_abs mem_sure (demo_fsm n))) + length (take i [demo_data, ''junk'']) < 2 ^ 64" for n i
    unfolding demo_fsm_wf(2) by simp
  have b2: "unat (kv_rev (fsm_abs mem_sure (demo_fsm 0))) + length [demo_data, ''junk''] < 2 ^ 64"
    unfolding demo_fsm_wf(2) by simp
  have "unmarshal_op ''junk'' = Inl ErrJson" by code_simp
  then have junk: "fsm_spec blank_key s ''junk'' = (op_error (Wrap ''unmarshal op'' ErrJson), s)" for s by (simp add: fsm_spec_def)
  have run: "fsm_abs mem_sure (snd (fsm_run mem_sure (demo_fsm n) (take i [demo_data, ''junk''])))
      = snd (fsm_spec_run blank_key kv_empty (take i [demo_data, ''junk'']))" for n i
    using replica_state(1) [OF mem_sure_reliable demo_fsm_wf(1) b] demo_fsm_wf(3) by simp
  have "ws_abs mem_sure demo_behind = ws_abs mem_sure demo_ahead"
    unfolding demo_behind_def demo_ahead_def run by (simp add: junk case_prod_beta numeral_2_eq_2)
  from arg_cong [OF this, of kv_rev] have rev: "ws_Rev demo_behind = ws_Rev demo_ahead" by (simp add: ws_Rev_def bs_Rev_def)
  from revision_identifies_state [OF mem_sure_reliable mem_sure_reliable demo_fsm_wf(1) demo_fsm_wf(1) eq b2
      demo_behind_def [symmetric] demo_ahead_def [symmetric]] rev
  show ?thesis by blast
qed

text \<open>A read on any node is a read of its abstract map.\<close>

lemma raft_get:
  assumes "bolt_api B" and "node_wf B (rsv_node rs)" and "configKey (rq_Path g) = Inr (t, n, m)" "t \<noteq> []" "m \<noteq> []"
    and "rq_Method g = ''GET''" and "node_abs B (rsv_node rs) = a" and "kv_map a (storeKey t n m) = Some e"
  shows "handleRaftConfig H R B rs g = (writeJSON [] 200
    (config_response_json \<lparr>crRevision = kv_rev a, crCount = 0, crConfigs = [entryToConfig e]\<rparr>), rs)"
proof -
  have base: "srv_store (base_server rs) = fsm_store (n_fsm (rsv_node rs))" by (simp add: base_server_def)
  show ?thesis
    using kv_store.handleGet_spec [OF bolt_api.ws_kv_store [OF assms(1)], of "base_server rs" t n m] assms(2-8)
    unfolding base by (simp add: handleRaftConfig_def)
qed

text \<open>The abstract machine on the entry that a PUT of the API appends to the log.\<close>

lemma fsm_spec_put:
  assumes "utf8_valid k" and "reject k (marshal_entry (kv_next s k (if body = [] then None else Some body))) = None"
  shows "snd (fsm_spec reject s (marshal_op \<lparr>opType = ''put'', opKey = k, opValue = Some body\<rparr>))
    = kv_put s k (if body = [] then None else Some body)"
proof -
  have "norm_op \<lparr>opType = ''put'', opKey = k, opValue = Some body\<rparr> = \<lparr>opType = ''put'', opKey = k, opValue = if body = [] then None else Some body\<rparr>"
    by (simp add: norm_op_def utf8_coerce_ascii utf8_coerce_valid [OF assms(1)])
  then show ?thesis using assms(2) by (simp add: fsm_spec_def unmarshal_marshal_op Let_def)
qed

text \<open>A PUT on a follower is the same PUT on the leader, as the leader's server receives it.\<close>

lemma forwarded_put:
  assumes "\<not> node_IsLeader RF (rsv_node fo)" and "LeaderHTTPAddr RF BF (rsv_node fo) = addr" and "host_ok addr" and "wire_ok r"
    and "hc_NewRequest HF ''PUT'' (''http://'' @ addr @ rq_URL r) = None"
    and "\<And>q. hc_Do HF q = Inr (fst (handleRaftConfig H R B le (received q)))"
    and "configKey (rq_Path r) = Inr (t, n, m)" "t \<noteq> []" "m \<noteq> []" "rq_Method r = ''PUT''"
    and "read_limited body_limit (rq_Body r) = Inr body" and "handleRaftConfig HF RF BF fo r = (resp, fo')"
  obtains q where "handleRaftPut H R B le q t n m = (resp, snd (handleRaftConfig H R B le q))"
    "read_limited body_limit (rq_Body q) = Inr body" "rsv_node fo' = rsv_node fo"
proof -
  let ?url = "''http://'' @ addr @ rq_URL r"
  define q where "q = received (forward_request r ?url (stats_get (node_Stats RF (rsv_node fo)) ''id'') (Some body))"
  have q: "rq_Path q = rq_Path r" "rq_Method q = ''PUT''" "read_limited body_limit (rq_Body q) = Inr body"
    unfolding q_def received_forward [OF assms(4,3)] using assms(10) read_limited_again [OF assms(11)] by simp_all
  have ne: "addr \<noteq> []" using assms(3) by (simp add: host_ok_def)
  have fwd: "forwardToLeader HF RF BF (count_apply ''put'' ''not_leader'' fo) r (Some body) = fst (handleRaftConfig H R B le q)"
    by (rule forwardToLeader_ok [OF _ ne]) (use assms(2,5,6,10) in \<open>simp_all add: q_def\<close>)
  have "handleRaftConfig HF RF BF fo r = handleRaftPut HF RF BF fo r t n m" by (rule raft_config_writes(1) [OF assms(7-10)])
  then have fo: "resp = fst (handleRaftConfig H R B le q)" "rsv_node fo' = rsv_node fo"
    using assms(1,11,12) fwd by (simp_all add: handleRaftPut_def Let_def)
  have "handleRaftPut H R B le q t n m = (resp, snd (handleRaftConfig H R B le q))"
    using raft_config_writes(1) [of q t n m H R B le] q assms(7-9) fo(1) by simp
  then show ?thesis using that q(3) fo(2) by blast
qed

text \<open>C13: an acknowledged write is read everywhere. A PUT that a client sends to a follower goes to the
  leader under the address that the leader registered, and the client gets the leader's answer;
  nothing changes on the follower yet. When that answer is 200 or 201, then every replica, however
  far it lags behind, that goes on to apply the committed entries up to this write serves the
  written value to a GET of the same path, at the revision that the client was given.\<close>

theorem cluster_put_everywhere:
  assumes "reliable_bolt B reject" and "reliable_bolt B' reject"
    and "node_wf B (rsv_node le)" and "r_IsLeader R (n_raft (rsv_node le))" and "\<not> node_IsLeader RF (rsv_node fo)"
    and "LeaderHTTPAddr RF BF (rsv_node fo) = addr" and "host_ok addr" and "wire_ok r"
    and "hc_NewRequest HF ''PUT'' (''http://'' @ addr @ rq_URL r) = None"
    and "\<And>q. hc_Do HF q = Inr (fst (handleRaftConfig H R B le (received q)))"
    and "configKey (rq_Path r) = Inr (t, n, m)" "t \<noteq> []" "m \<noteq> []" "rq_Method r = ''PUT''"
    and "read_limited body_limit (rq_Body r) = Inr body" and "utf8_valid (storeKey t n m)"
    and "marshal_op \<lparr>opType = ''put'', opKey = storeKey t n m, opValue = Some body\<rparr> = data"
    and "r_Apply R (n_raft (rsv_node le)) data (5 * second) = (before, None, rr)"
    and "handleRaftConfig HF RF BF fo r = (resp, fo')" and "rsp_Status resp \<in> {200, 201}"
    and "node_wf B' (rsv_node x)" and "node_abs B (rsv_node le) = snd (fsm_spec_run reject (node_abs B' (rsv_node x)) missing)"
    and "unat (kv_rev (node_abs B' (rsv_node x))) + length missing + length before + 1 < 2 ^ 64"
    and "rq_Method g = ''GET''" "rq_Path g = rq_Path r"
  shows "rsv_node fo' = rsv_node fo \<and>
    (\<exists>e. eKey e = storeKey t n m \<and> bytes_str (eValue e) = body \<and>
      resp = writeJSON [(''X-Paladin-Revision'', FormatUint (eRevision e))] (rsp_Status resp)
        (config_response_json \<lparr>crRevision = eRevision e, crCount = 0, crConfigs = [entryToConfig e]\<rparr>) \<and>
      fst (handleRaftConfig HX RX B' (catch_up B' x (missing @ before @ [data])) g) = writeJSON [] 200
        (config_response_json \<lparr>crRevision = eRevision e, crCount = 0, crConfigs = [entryToConfig e]\<rparr>))"
proof -
  let ?k = "storeKey t n m" and ?v = "if body = [] then None else Some body"
  let ?s = "snd (fsm_spec_run reject (node_abs B (rsv_node le)) before)"
  let ?e = "kv_next ?s ?k ?v" and ?log = "missing @ before @ [data]"
  obtain q where q: "handleRaftPut H R B le q t n m = (resp, snd (handleRaftConfig H R B le q))"
    "read_limited body_limit (rq_Body q) = Inr body" and fo: "rsv_node fo' = rsv_node fo"
    by (rule forwarded_put [OF assms(5-8) assms(9,10) assms(11-15,19)])
  have lerev: "unat (kv_rev (node_abs B (rsv_node le))) \<le> unat (kv_rev (node_abs B' (rsv_node x))) + length missing"
    using fsm_spec_run_rev(1) [OF prod.collapse [symmetric], of "node_abs B' (rsv_node x)" missing reject] assms(22,23) by simp
  have b: "unat (kv_rev (node_abs B (rsv_node le))) + length before + 1 < 2 ^ 64" using lerev assms(23) by linarith
  note put = reliable_bolt.handleRaftPut_leader [OF assms(1,3,4) q(2) assms(16) assms(18) [folded assms(17)] b refl q(1)]
  have acc: "reject ?k (marshal_entry ?e) = None" using put assms(20) by (auto split: option.splits)
  have rev: "eRevision ?e = kv_rev ?s + 1" by (simp add: kv_next_def Let_def)
  have resp: "resp = writeJSON [(''X-Paladin-Revision'', FormatUint (eRevision ?e))] (rsp_Status resp)
      (config_response_json \<lparr>crRevision = eRevision ?e, crCount = 0, crConfigs = [entryToConfig ?e]\<rparr>)"
    using put acc by (simp add: rev writeJSON_def)
  have x: "node_wf B' (rsv_node (catch_up B' x ?log))"
    "node_abs B' (rsv_node (catch_up B' x ?log)) = snd (fsm_spec_run reject (node_abs B' (rsv_node x)) ?log)"
    using replica_state [OF assms(2,21), of ?log] assms(23) by (simp_all add: catch_up_def)
  have "\<dots> = snd (fsm_spec reject ?s data)"
    by (simp add: fsm_spec_run_append assms(22) [symmetric] case_prod_beta)
  also have "\<dots> = kv_put ?s ?k ?v" unfolding assms(17) [symmetric] by (rule fsm_spec_put [where reject = reject, OF assms(16) acc])
  finally have abs: "node_abs B' (rsv_node (catch_up B' x ?log)) = kv_put ?s ?k ?v" using x(2) by simp
  have "norm_entry ?e = ?e" using assms(16) by (intro norm_entry_valid) (simp add: kv_next_def Let_def)
  then have get: "kv_map (kv_put ?s ?k ?v) ?k = Some ?e" "kv_rev (kv_put ?s ?k ?v) = eRevision ?e"
    by (simp_all add: kv_put_def rev)
  have api: "bolt_api B'" using assms(2) by (rule reliable_bolt.axioms(1))
  have "configKey (rq_Path g) = Inr (t, n, m)" using assms(11,25) by simp
  from raft_get [OF api x(1) this assms(12,13,24) abs get(1)] get(2)
  have "fst (handleRaftConfig HX RX B' (catch_up B' x ?log) g) = writeJSON [] 200
      (config_response_json \<lparr>crRevision = eRevision ?e, crCount = 0, crConfigs = [entryToConfig ?e]\<rparr>)" by simp
  moreover have "eKey ?e = ?k" "bytes_str (eValue ?e) = body" by (simp_all add: kv_next_def Let_def)
  ultimately show ?thesis using fo resp by blast
qed

text \<open>A follower, the leader of the one-node cluster at the other end of its HTTP client, and a new replica.\<close>

definition demo_link :: http_client where
  "demo_link = \<lparr>hc_NewRequest = (\<lambda>_ _. None),
     hc_Do = (\<lambda>q. Inr (fst (handleRaftConfig demo_client solo_raft mem_sure demo_leader (received q))))\<rparr>"

definition demo_write :: Request where
  "demo_write = demo_request ''PUT'' ''/api/v1/config/t/n/m'' ''v''"

definition demo_entry :: string where
  "demo_entry = marshal_op \<lparr>opType = ''put'', opKey = storeKey ''t'' ''n'' ''m'', opValue = Some ''v''\<rparr>"

lemma demo_write_ok: "wire_ok demo_write" "host_ok ''h:80''"
  by code_simp+

theorem cluster_put_everywhere_witness:
  "rsp_Status (fst (handleRaftConfig demo_link follower_raft mem_sure demo_follower demo_write)) = 201 \<and>
   (\<exists>e. bytes_str (eValue e) = ''v'' \<and>
     fst (handleRaftConfig demo_client follower_raft mem_sure (catch_up mem_sure demo_leader [demo_entry])
         (demo_request ''GET'' ''/api/v1/config/t/n/m'' []))
       = writeJSON [] 200 (config_response_json \<lparr>crRevision = eRevision e, crCount = 0, crConfigs = [entryToConfig e]\<rparr>))"
proof -
  obtain resp fo' where r: "handleRaftConfig demo_link follower_raft mem_sure demo_follower demo_write = (resp, fo')"
    by (cases "handleRaftConfig demo_link follower_raft mem_sure demo_follower demo_write")
  have fo: "\<not> node_IsLeader follower_raft (rsv_node demo_follower)" by (simp add: node_IsLeader_def follower_raft_def)
  have link: "hc_NewRequest demo_link ''PUT'' u = None"
    "hc_Do demo_link q = Inr (fst (handleRaftConfig demo_client solo_raft mem_sure demo_leader (received q)))" for u q
    by (simp_all add: demo_link_def)
  have w: "configKey (rq_Path demo_write) = Inr (''t'', ''n'', ''m'')" "rq_Method demo_write = ''PUT''"
    "read_limited body_limit (rq_Body demo_write) = Inr ''v''"
    using demo_leader_facts(1,3) by (simp_all add: demo_write_def, simp add: demo_request_def)
  note fwd = fo demo_follower_leader demo_write_ok(2,1) link w(1)
  obtain q where "handleRaftPut demo_client solo_raft mem_sure demo_leader q ''t'' ''n'' ''m''
        = (resp, snd (handleRaftConfig demo_client solo_raft mem_sure demo_leader q))"
      "read_limited body_limit (rq_Body q) = Inr ''v''"
    using forwarded_put [OF fwd _ _ w(2,3) r] by auto
  from sure.handleRaftPut_leader [OF demo_leader_facts(4) _ this(2) demo_leader_facts(2) _ demo_leader_facts(6,7) this(1)]
  have status: "rsp_Status resp = 201" by (simp add: blank_key_def storeKey_def writeJSON_def kv_empty_def)
  have lead: "r_IsLeader solo_raft (n_raft (rsv_node demo_leader))"
    "r_Apply solo_raft (n_raft (rsv_node demo_leader)) demo_entry (5 * second) = ([], None, Suc (n_raft (rsv_node demo_leader)))" by simp_all
  have x: "node_abs mem_sure (rsv_node demo_leader) = snd (fsm_spec_run blank_key (node_abs mem_sure (rsv_node demo_leader)) [])"
    "unat (kv_rev (node_abs mem_sure (rsv_node demo_leader))) + length ([] :: string list) + length ([] :: string list) + 1 < 2 ^ 64"
    using demo_leader_facts(6) by simp_all
  have g: "rq_Method (demo_request ''GET'' ''/api/v1/config/t/n/m'' []) = ''GET''"
    "rq_Path (demo_request ''GET'' ''/api/v1/config/t/n/m'' []) = rq_Path demo_write" by (simp_all add: demo_request_def demo_write_def)
  have "rsp_Status resp \<in> {200, 201}" by (simp add: status)
  from cluster_put_everywhere [OF mem_sure_reliable mem_sure_reliable demo_leader_facts(4) lead(1) fwd _ _ w(2,3) demo_leader_facts(2)
      demo_entry_def [symmetric] lead(2) r this demo_leader_facts(4) x g, of demo_client follower_raft]
  show ?thesis using status r by auto
qed

section \<open>Joining\<close>

text \<open>The entries of the log that write a key.\<close>

definition writes_key :: "string \<Rightarrow> string \<Rightarrow> bool" where
  "writes_key k data = (case unmarshal_op data of Inl _ \<Rightarrow> False
     | Inr op \<Rightarrow> opType op \<in> {''put'', ''delete''} \<and> opKey op = k)"

lemma fsm_spec_run_frame:
  "list_all (\<lambda>data. \<not> writes_key k data) lg \<Longrightarrow> kv_map (snd (fsm_spec_run reject s lg)) k = kv_map s k"
proof (induction lg arbitrary: s)
  case (Cons data lg)
  have "kv_map (snd (fsm_spec reject s data)) k = kv_map s k"
    using Cons.prems
    by (auto simp: writes_key_def fsm_spec_def kv_put_def kv_delete_def Let_def split: sum.splits option.splits)
  then show ?case using Cons by (simp add: case_prod_beta)
qed simp

lemma LeaderHTTPAddr_entry:
  assumes "bolt_api B" and "node_wf B n" and "kv_map (node_abs B n) (PeerHTTPPrefix @ nodeID) = Some e"
    and "snd (r_LeaderWithID R r') = nodeID" "nodeID \<noteq> []"
  shows "LeaderHTTPAddr R B (n\<lparr>n_raft := r'\<rparr>) = bytes_str (eValue e)"
  using kv_store.get_spec [OF bolt_api.ws_kv_store [OF assms(1)] assms(2), of "PeerHTTPPrefix @ nodeID"] assms(3-5)
  by (simp add: LeaderHTTPAddr_def node_Get_def)

text \<open>What a 200 of the join endpoint means on the leader that gave it.\<close>

lemma joined_entry:
  assumes "reliable_bolt B reject" and "node_wf B (rsv_node rs)" and "join_safe f"
    and "r_AddVoter R (n_raft (rsv_node rs)) (cf_id f) (cf_raft f) = (e, q)"
    and data: "marshal_op \<lparr>opType = ''put'', opKey = PeerHTTPPrefix @ cf_id f, opValue = Some (advertise_addr (cf_http f))\<rparr> = data"
    and "r_Apply R q data (5 * second) = (before, ferr, r)"
    and "unat (kv_rev (node_abs B (rsv_node rs))) + length before + 1 < 2 ^ 64"
    and "handleJoin R B rs (server_request ''POST'' (join_url f)) = (resp, rs')" "rsp_Status resp = 200"
  shows "e = None" and "node_wf B (rsv_node rs')"
    and "node_abs B (rsv_node rs') = snd (fsm_spec_run reject (node_abs B (rsv_node rs)) (before @ [data]))"
    and "\<exists>en. kv_map (node_abs B (rsv_node rs')) (PeerHTTPPrefix @ cf_id f) = Some en \<and>
      bytes_str (eValue en) = advertise_addr (cf_http f)"
proof -
  have query: "rq_Query (server_request ''POST'' (join_url f)) = query_get (url_query (join_url f))"
    by (simp only: server_request_def Request.select_convs)
  obtain n' where add: "e = None"
    and reg: "RegisterPeerHTTP R B ((rsv_node rs)\<lparr>n_raft := q\<rparr>) (cf_id f) (advertise_addr (cf_http f)) = (None, n')" "rsv_node rs' = n'"
    using handleJoin_ok [OF assms(8,9), unfolded query join_params [OF assms(3)] assms(4)] by auto
  have "list_all query_safe (cf_id f)" using assms(3) by (simp only: join_safe_def list_all_append)
  then have "list_all (\<lambda>c. code c < 0x80) (cf_id f)" by (rule list.pred_mono_strong) (simp add: query_safe_def)
  then have "list_all (\<lambda>c. code c < 0x80) (PeerHTTPPrefix @ cf_id f)" by (simp add: PeerHTTPPrefix_def)
  then have valid: "utf8_valid (PeerHTTPPrefix @ cf_id f)" by (rule utf8_valid_ascii)
  have lead: "r_IsLeader R q" using RegisterPeerHTTP_None(1) [OF reg(1)] by simp
  have app: "r_Apply R q data (5 * second) = (before, None, r)"
    using RegisterPeerHTTP_None(2) [OF reg(1)] assms(6) by (simp add: data)
  let ?n = "(rsv_node rs)\<lparr>n_raft := q\<rparr>"
  have pre: "node_wf B ?n" "r_IsLeader R (n_raft ?n)" "r_Apply R (n_raft ?n) (marshal_op \<lparr>opType = ''put'',
      opKey = PeerHTTPPrefix @ cf_id f, opValue = Some (advertise_addr (cf_http f))\<rparr>) (5 * second) = (before, None, r)"
    "unat (kv_rev (node_abs B ?n)) + length before + 1 < 2 ^ 64"
    using assms(2,7) lead app by (simp_all add: data)
  note st = reliable_bolt.RegisterPeerHTTP_stores [OF assms(1) pre valid reg(1)]
  have S: "kv_store (watchable_ops B) (ws_abs B) (ws_wf B)"
    by (rule bolt_api.ws_kv_store [OF reliable_bolt.axioms(1) [OF assms(1)]])
  show "e = None" "node_wf B (rsv_node rs')" using add st(3) reg(2) by simp_all
  show "node_abs B (rsv_node rs') = snd (fsm_spec_run reject (node_abs B (rsv_node rs)) (before @ [data]))"
    using st(4) unfolding fsm_spec_run_append data reg(2) by (simp add: case_prod_beta)
  show "\<exists>en. kv_map (node_abs B (rsv_node rs')) (PeerHTTPPrefix @ cf_id f) = Some en \<and> bytes_str (eValue en) = advertise_addr (cf_http f)"
    using st(2) kv_store.get_spec [OF S st(3), of "PeerHTTPPrefix @ cf_id f"]
    by (auto simp: reg(2) node_Get_def split: option.splits)
qed

text \<open>C15: a node that joined is found. When a cluster node is started with a leader to join and
  starts to listen, the leader has added it as a voter under the raft address of its flags and has
  logged the address that it advertises. Take any node of the cluster, at whatever point of the
  log, once it has applied the log up to that entry and whatever entries follow that do not write
  the key of the registration: when it sees the joined node as the leader, it forwards to exactly
  the advertised address, never to one that starts with a colon; and so does the node that
  handled the join. The flags must hold no character that a query would change (\<open>join_safe\<close>), as
  the code does not escape them.\<close>

theorem joined_node_reachable:
  assumes "reliable_bolt B reject" and "reliable_bolt B2 reject" and "node_wf B (rsv_node rs)"
    and "runCluster B' E H R' env prom (\<lambda>u. Inr (fst (handleJoin R B rs (server_request ''POST'' u)))) args = Started l reg"
    and "cluster_args args = Inr f" and "cf_join f \<noteq> []" and "join_safe f"
    and "r_AddVoter R (n_raft (rsv_node rs)) (cf_id f) (cf_raft f) = (e, q)"
    and "marshal_op \<lparr>opType = ''put'', opKey = PeerHTTPPrefix @ cf_id f, opValue = Some (advertise_addr (cf_http f))\<rparr> = data"
    and "r_Apply R q data (5 * second) = (before, ferr, r)"
    and "snd (handleJoin R B rs (server_request ''POST'' (join_url f))) = rs'"
    and "node_wf B2 (rsv_node x)" and "node_abs B (rsv_node rs) = snd (fsm_spec_run reject (node_abs B2 (rsv_node x)) missing)"
    and "unat (kv_rev (node_abs B2 (rsv_node x))) + length missing + length before + 1 + length later < 2 ^ 64"
    and "list_all (\<lambda>d. \<not> writes_key (PeerHTTPPrefix @ cf_id f) d) later"
  shows "e = None \<and> \<not> HasPrefix (advertise_addr (cf_http f)) '':'' \<and>
    (\<forall>R'' r'. snd (r_LeaderWithID R'' r') = cf_id f \<longrightarrow>
       LeaderHTTPAddr R'' B ((rsv_node rs')\<lparr>n_raft := r'\<rparr>) = advertise_addr (cf_http f) \<and>
       LeaderHTTPAddr R'' B2 ((rsv_node (catch_up B2 x (missing @ before @ [data] @ later)))\<lparr>n_raft := r'\<rparr>)
         = advertise_addr (cf_http f))"
proof -
  let ?lg = "missing @ before @ [data] @ later" and ?k = "PeerHTTPPrefix @ cf_id f"
  have ids: "cf_id f \<noteq> []" "rsp_Status (fst (handleJoin R B rs (server_request ''POST'' (join_url f)))) = 200"
    using runCluster_joined [OF assms(4,5)] assms(6) by simp_all
  have h: "handleJoin R B rs (server_request ''POST'' (join_url f))
      = (fst (handleJoin R B rs (server_request ''POST'' (join_url f))), rs')" by (simp add: assms(11) [symmetric])
  have "unat (kv_rev (node_abs B (rsv_node rs))) \<le> unat (kv_rev (node_abs B2 (rsv_node x))) + length missing"
    using fsm_spec_run_rev(1) [OF prod.collapse [symmetric], of "node_abs B2 (rsv_node x)" missing reject] assms(13,14) by simp
  then have b: "unat (kv_rev (node_abs B (rsv_node rs))) + length before + 1 < 2 ^ 64" using assms(14) by linarith
  note joined = joined_entry [OF assms(1,3,7-10) b h ids(2)]
  have "length ?lg = length missing + length before + 1 + length later" by simp
  then have b2: "unat (kv_rev (node_abs B2 (rsv_node x))) + length ?lg < 2 ^ 64" using assms(14) by linarith
  have x: "node_wf B2 (rsv_node (catch_up B2 x ?lg))"
    "node_abs B2 (rsv_node (catch_up B2 x ?lg)) = snd (fsm_spec_run reject (node_abs B2 (rsv_node x)) ?lg)"
    using replica_state [OF assms(2,12) b2] by (simp_all add: catch_up_def)
  have "\<dots> = snd (fsm_spec_run reject (node_abs B (rsv_node rs')) later)"
    using joined(3) assms(13) by (simp add: fsm_spec_run_append case_prod_beta)
  then have same: "kv_map (node_abs B2 (rsv_node (catch_up B2 x ?lg))) ?k = kv_map (node_abs B (rsv_node rs')) ?k"
    using x(2) fsm_spec_run_frame [OF assms(15), of reject] by metis
  obtain en where en: "kv_map (node_abs B (rsv_node rs')) ?k = Some en" "bytes_str (eValue en) = advertise_addr (cf_http f)"
    using joined(4) by blast
  note own = LeaderHTTPAddr_entry [OF reliable_bolt.axioms(1) [OF assms(1)] joined(2) en(1) _ ids(1), unfolded en(2)]
  note other = LeaderHTTPAddr_entry [OF reliable_bolt.axioms(1) [OF assms(2)] x(1) same [unfolded en(1)] _ ids(1), unfolded en(2)]
  show ?thesis using joined(1) own other by (simp add: advertise_addr_def HasPrefix_def)
qed

text \<open>A second node joins the one-node cluster.\<close>

definition demo_flags :: cluster_flags where
  "demo_flags = cluster_defaults\<lparr>cf_id := ''n2'', cf_join := ''h:80''\<rparr>"

definition demo_joined :: "(nat, mem_db) RaftServer" where
  "demo_joined = snd (handleJoin solo_raft mem_sure demo_leader (server_request ''POST'' (join_url demo_flags)))"

lemma demo_flags_args: "cluster_args [''paladin-core'', ''cluster'', ''--id'', ''n2'', ''-join=h:80''] = Inr demo_flags"
  by code_simp

lemma demo_flags_safe: "join_safe demo_flags"
  by code_simp

definition demo_registration :: string where
  "demo_registration = marshal_op \<lparr>opType = ''put'', opKey = PeerHTTPPrefix @ cf_id demo_flags,
     opValue = Some (advertise_addr (cf_http demo_flags))\<rparr>"

theorem joined_node_reachable_witness:
  "LeaderHTTPAddr (solo_raft\<lparr>r_LeaderWithID := \<lambda>_. (''127.0.0.1:9002'', ''n2'')\<rparr>) mem_sure ((rsv_node demo_joined)\<lparr>n_raft := 7\<rparr>)
     = ''127.0.0.1:8080'' \<and>
   LeaderHTTPAddr (solo_raft\<lparr>r_LeaderWithID := \<lambda>_. (''127.0.0.1:9002'', ''n2'')\<rparr>) mem_sure
     ((rsv_node (catch_up mem_sure demo_leader [demo_registration, demo_entry]))\<lparr>n_raft := 7\<rparr>) = ''127.0.0.1:8080''"
proof -
  let ?req = "server_request ''POST'' (join_url demo_flags)"
  let ?post = "\<lambda>u. Inr (fst (handleJoin solo_raft mem_sure demo_leader (server_request ''POST'' u))) :: err + Response"
  have f: "cf_id demo_flags = ''n2''" "cf_join demo_flags \<noteq> []" "advertise_addr (cf_http demo_flags) = ''127.0.0.1:8080''"
    "cf_raft demo_flags = ''127.0.0.1:9001''"
    by (simp_all add: demo_flags_def cluster_defaults_def advertise_addr_def HasPrefix_def)
  note params = join_params [OF demo_flags_safe, unfolded f]
  have query: "rq_Query ?req = query_get (url_query (join_url demo_flags))" "rq_Method ?req = ''POST''"
    by (simp_all only: server_request_def Request.select_convs)
  have leader: "rsv_node demo_leader = solo_node" "node_Join solo_raft solo_node i a = (None, solo_node)" for i a
    by (simp_all add: demo_leader_def node_Join_def node_IsLeader_def solo_raft_def)
  have "utf8_valid (PeerHTTPPrefix @ ''n2'')" by (simp add: PeerHTTPPrefix_def utf8_valid_ascii)
  from solo_register [OF this, of "''127.0.0.1:8080''"] obtain n'
    where "RegisterPeerHTTP solo_raft mem_sure solo_node ''n2'' ''127.0.0.1:8080'' = (None, n')" by (metis prod.collapse)
  then have status: "rsp_Status (fst (handleJoin solo_raft mem_sure demo_leader ?req)) = 200"
    by (simp add: handleJoin_def Let_def query params leader writeJSON_def)
  let ?d = "bs_db (snd demo_put)"
  have commit: "tx_commit mem_bolt ?d = Inr ?d" using demo_put_state(2) by (simp add: mem_room_def mem_commit_def)
  obtain s' where "NewBoltStore mem_bolt (Inr ?d) = Inr s'"
    by (rule mem.NewBoltStore_reopen [OF demo_put_wf, of ?d ?d ?d ?d]) (use commit in simp_all)
  then obtain n where n: "NewNode mem_bolt (solo_env (bs_db (snd demo_put))) (node_config demo_flags) = Inr n"
    by (simp add: NewNode_def solo_env_def node_config_def)
  define env where "env = \<lparr>we_wait = \<lambda>_ _ _. [], we_rev1 = 0, we_rev2 = 0\<rparr>"
  obtain l reg where run: "runCluster mem_bolt (solo_env (bs_db (snd demo_put))) demo_client solo_raft env (\<lambda>r w. (healthz, w)) ?post
      [''paladin-core'', ''cluster'', ''--id'', ''n2'', ''-join=h:80''] = Started l reg"
    by (simp add: runCluster_def demo_flags_args n join_cluster_def status f(1))
  have app: "r_Apply solo_raft q d t = ([], None, Suc q)" "r_AddVoter solo_raft q i a = (None, q)" for q d t i a
    by (simp_all add: solo_raft_def)
  have later: "list_all (\<lambda>d. \<not> writes_key (PeerHTTPPrefix @ cf_id demo_flags) d) [demo_entry]"
    by (simp add: writes_key_def demo_entry_def unmarshal_marshal_op norm_op_def utf8_coerce_ascii storeKey_def PeerHTTPPrefix_def)
  have x: "node_abs mem_sure (rsv_node demo_leader) = snd (fsm_spec_run blank_key (node_abs mem_sure (rsv_node demo_leader)) [])"
    "unat (kv_rev (node_abs mem_sure (rsv_node demo_leader))) + length ([] :: string list) + length ([] :: string list) + 1
      + length [demo_entry] < 2 ^ 64"
    unfolding demo_leader_facts(5) by (simp_all add: kv_empty_def)
  have "snd (r_LeaderWithID (solo_raft\<lparr>r_LeaderWithID := \<lambda>_. (''127.0.0.1:9002'', ''n2'')\<rparr>) 7) = cf_id demo_flags"
    by (simp add: f(1))
  with joined_node_reachable [OF mem_sure_reliable mem_sure_reliable demo_leader_facts(4) run demo_flags_args f(2) demo_flags_safe
      app(2) demo_registration_def [symmetric] app(1) refl demo_leader_facts(4) x later, folded demo_joined_def]
  show ?thesis unfolding f(3) append_Nil append_Cons by blast
qed

end
