(* ===== verification/Bench_Stats.thy ===== *)
theory Bench_Stats
  imports Go_Float "HOL-Library.Multiset"
begin

text \<open>
  \<^verbatim>\<open>bench/hist.go\<close> and \<^verbatim>\<open>bench/counters.go\<close>: the latency histogram of the load generator and its
  outcome counters. A \<^verbatim>\<open>time.Duration\<close> is a number of nanoseconds. The rank that \<^verbatim>\<open>Percentile\<close>
  computes in floating point from the count is computed with the rounding of \<open>Go_Float\<close>.
  Merging histograms is observing the samples of both, and a percentile is within half a bucket
  of the sample of that rank.
\<close>

section \<open>The histogram\<close>

definition defaultBucketWidth :: int where
  "defaultBucketWidth = 100 * 1000"

definition defaultMaxLatency :: int where
  "defaultMaxLatency = 10 * 1000000000"

record Hist =
  h_bucketWidth :: int
  h_buckets :: "u64 list"
  h_count :: u64
  h_sumNs :: u64
  h_minNs :: u64
  h_maxNs :: u64

definition num_buckets :: nat where
  "num_buckets = nat (defaultMaxLatency div defaultBucketWidth) + 1"

definition NewHist :: Hist where
  "NewHist = \<lparr>h_bucketWidth = defaultBucketWidth, h_buckets = replicate num_buckets 0, h_count = 0,
     h_sumNs = 0, h_minNs = - 1, h_maxNs = 0\<rparr>"

definition bucket_index :: "Hist \<Rightarrow> int \<Rightarrow> nat" where
  "bucket_index h d = (let i = nat (d div h_bucketWidth h) in
     if i \<ge> length (h_buckets h) then length (h_buckets h) - 1 else i)"

definition hist_Observe :: "Hist \<Rightarrow> int \<Rightarrow> Hist" where
  "hist_Observe h d0 =
     (let d = (if d0 < 0 then 0 else d0); ns = word_of_int d; i = bucket_index h d in
      h\<lparr>h_buckets := (h_buckets h)[i := h_buckets h ! i + 1], h_count := h_count h + 1,
        h_sumNs := h_sumNs h + ns,
        h_minNs := (if ns < h_minNs h then ns else h_minNs h),
        h_maxNs := (if ns > h_maxNs h then ns else h_maxNs h)\<rparr>)"

text \<open>
  \<^verbatim>\<open>Merge\<close>. A nil argument is \<^term>\<open>None\<close>. The loop ranges over the argument's buckets; every
  histogram has the same number of them.
\<close>

definition fold_counts :: "Hist \<Rightarrow> Hist \<Rightarrow> Hist" where
  "fold_counts h other = h\<lparr>h_buckets := map2 (+) (h_buckets h) (h_buckets other),
     h_count := h_count h + h_count other, h_sumNs := h_sumNs h + h_sumNs other,
     h_minNs := (if h_minNs other < h_minNs h then h_minNs other else h_minNs h),
     h_maxNs := (if h_maxNs other > h_maxNs h then h_maxNs other else h_maxNs h)\<rparr>"

definition hist_Merge :: "Hist \<Rightarrow> Hist option \<Rightarrow> Hist" where
  "hist_Merge h other = (case other of None \<Rightarrow> h
     | Some oth \<Rightarrow> if h_count oth = 0 then h else fold_counts h oth)"

text \<open>The loop of \<^verbatim>\<open>Percentile\<close> over the buckets from index \<open>i\<close> on.\<close>

fun percentile_loop :: "Hist \<Rightarrow> u64 \<Rightarrow> nat \<Rightarrow> u64 \<Rightarrow> u64 list \<Rightarrow> int" where
  "percentile_loop h target i cum [] = sint (h_maxNs h)"
| "percentile_loop h target i cum (c # cs) =
     (let cum = cum + c in
      if cum \<ge> target then
        (if i = length (h_buckets h) - 1 then sint (h_maxNs h)
         else let low = int i * h_bucketWidth h; high = low + h_bucketWidth h in (low + high) div 2)
      else percentile_loop h target (i + 1) cum cs)"

text \<open>
  The rank: \<^verbatim>\<open>uint64(math.Ceil(float64(h.count) * p))\<close> with \<^verbatim>\<open>p\<close> clamped to the unit interval, and 1
  for 0. A percentile is a finite double.
\<close>

definition percentile_rank :: "u64 \<Rightarrow> rat \<Rightarrow> u64" where
  "percentile_rank n p =
     (let p = (if p < 0 then 0 else p); p = (if p > 1 then 1 else p);
          target = word_of_int \<lceil>float64 (float64 (of_nat (unat n)) * p)\<rceil> in
      if target = 0 then 1 else target)"

definition hist_Percentile :: "Hist \<Rightarrow> rat \<Rightarrow> int" where
  "hist_Percentile h p =
     (if h_count h = 0 then 0
      else percentile_loop h (percentile_rank (h_count h) p) 0 0 (h_buckets h))"

definition hist_Mean :: "Hist \<Rightarrow> int" where
  "hist_Mean h = (if h_count h = 0 then 0 else sint (h_sumNs h div h_count h))"

definition hist_Min :: "Hist \<Rightarrow> int" where
  "hist_Min h = (if h_count h = 0 then 0 else sint (h_minNs h))"

definition hist_Max :: "Hist \<Rightarrow> int" where
  "hist_Max h = sint (h_maxNs h)"

text \<open>\<^verbatim>\<open>Snapshot\<close>: the constants are the doubles next to the decimals of the source.\<close>

record Snapshot =
  sn_Count :: u64
  sn_Min :: int
  sn_Mean :: int
  sn_P50 :: int
  sn_P90 :: int
  sn_P95 :: int
  sn_P99 :: int
  sn_P999 :: int
  sn_Max :: int

definition hist_Snapshot :: "Hist \<Rightarrow> Snapshot" where
  "hist_Snapshot h = \<lparr>sn_Count = h_count h, sn_Min = hist_Min h, sn_Mean = hist_Mean h,
     sn_P50 = hist_Percentile h (float64 (50/100)), sn_P90 = hist_Percentile h (float64 (90/100)),
     sn_P95 = hist_Percentile h (float64 (95/100)), sn_P99 = hist_Percentile h (float64 (99/100)),
     sn_P999 = hist_Percentile h (float64 (999/1000)), sn_Max = hist_Max h\<rparr>"

section \<open>The counters\<close>

record Counters =
  ct_ok :: u64
  ct_err :: u64
  ct_status :: "u64 list"

definition zeroCounters :: Counters where
  "zeroCounters = \<lparr>ct_ok = 0, ct_err = 0, ct_status = replicate 6 0\<rparr>"

definition status_index :: "Counters \<Rightarrow> int \<Rightarrow> nat" where
  "status_index c st =
     (if st > 0 then (if st div 100 < 0 \<or> st div 100 \<ge> int (length (ct_status c)) then 0 else nat (st div 100))
      else 0)"

definition AddStatus :: "Counters \<Rightarrow> int \<Rightarrow> Counters" where
  "AddStatus c st =
     (let idx = status_index c st;
          c1 = c\<lparr>ct_status := (ct_status c)[idx := ct_status c ! idx + 1]\<rparr> in
      if st \<ge> 200 \<and> st < 400 then c1\<lparr>ct_ok := ct_ok c1 + 1\<rparr> else c1\<lparr>ct_err := ct_err c1 + 1\<rparr>)"

definition counters_Ok :: "Counters \<Rightarrow> u64" where
  "counters_Ok c = ct_ok c"

definition counters_Err :: "Counters \<Rightarrow> u64" where
  "counters_Err c = ct_err c"

definition ByClass :: "Counters \<Rightarrow> u64 list" where
  "ByClass c = map (\<lambda>i. ct_status c ! i) [0 ..< 6]"

definition hist_Count :: "Hist \<Rightarrow> u64" where
  "hist_Count h = h_count h"

definition statusClassSummary :: "u64 list \<Rightarrow> string" where
  "statusClassSummary c =
     (let names = [''err'', ''1xx'', ''2xx'', ''3xx'', ''4xx'', ''5xx''];
          parts = map (\<lambda>(name, n). name @ ''='' @ FormatUint n) (filter (\<lambda>(name, n). n > 0) (zip names c)) in
      if parts = [] then ''(none)'' else concat (hd parts # map (\<lambda>p. '' '' @ p) (tl parts)))"

section \<open>Histograms of sample lists\<close>

definition hist_of :: "int list \<Rightarrow> Hist" where
  "hist_of xs = foldl hist_Observe NewHist xs"

definition hist_ok :: "Hist \<Rightarrow> bool" where
  "hist_ok h \<longleftrightarrow> h_bucketWidth h = defaultBucketWidth \<and> length (h_buckets h) = num_buckets"

definition clamp :: "int \<Rightarrow> int" where
  "clamp x = (if x < 0 then 0 else x)"

lemma hist_Observe_sel:
  "h_bucketWidth (hist_Observe h x) = h_bucketWidth h"
  "h_buckets (hist_Observe h x) = (h_buckets h)[bucket_index h (clamp x) := h_buckets h ! bucket_index h (clamp x) + 1]"
  "h_count (hist_Observe h x) = h_count h + 1"
  "h_sumNs (hist_Observe h x) = h_sumNs h + word_of_int (clamp x)"
  "h_minNs (hist_Observe h x) = min (word_of_int (clamp x)) (h_minNs h)"
  "h_maxNs (hist_Observe h x) = max (word_of_int (clamp x)) (h_maxNs h)"
  unfolding hist_Observe_def clamp_def [symmetric] Let_def by (auto simp: min_def max_def)

lemma fold_counts_sel:
  "h_bucketWidth (fold_counts h g) = h_bucketWidth h"
  "h_buckets (fold_counts h g) = map2 (+) (h_buckets h) (h_buckets g)"
  "h_count (fold_counts h g) = h_count h + h_count g" "h_sumNs (fold_counts h g) = h_sumNs h + h_sumNs g"
  "h_minNs (fold_counts h g) = min (h_minNs g) (h_minNs h)" "h_maxNs (fold_counts h g) = max (h_maxNs g) (h_maxNs h)"
  by (auto simp: fold_counts_def min_def max_def)

lemma num_buckets_pos: "0 < num_buckets" by (simp add: num_buckets_def)

lemma hist_of_simps [simp]: "hist_of [] = NewHist" "hist_of (xs @ [x]) = hist_Observe (hist_of xs) x"
  by (simp_all add: hist_of_def)

lemma hist_ok_Observe [simp]: "hist_ok h \<Longrightarrow> hist_ok (hist_Observe h x)"
  by (simp add: hist_ok_def hist_Observe_def Let_def)

lemma hist_ok_of [simp]: "hist_ok (hist_of xs)"
proof (induction xs rule: rev_induct)
  case Nil
  show ?case by (simp add: hist_ok_def NewHist_def)
qed simp

lemma bucket_index_lt: "hist_ok h \<Longrightarrow> bucket_index h x < num_buckets"
  using num_buckets_pos by (auto simp: bucket_index_def hist_ok_def Let_def)

lemma bucket_index_cong: "hist_ok h \<Longrightarrow> hist_ok h' \<Longrightarrow> bucket_index h x = bucket_index h' x"
  by (simp add: bucket_index_def hist_ok_def Let_def)

lemma hist_of_count: "h_count (hist_of xs) = of_nat (length xs)"
  by (induction xs rule: rev_induct) (simp_all add: NewHist_def hist_Observe_def Let_def)

section \<open>Merging\<close>

lemma fold_counts_new: "hist_ok h \<Longrightarrow> fold_counts h NewHist = h"
proof -
  assume ok: "hist_ok h"
  have "map2 (+) bs (replicate (length bs) 0) = bs" for bs :: "u64 list"
    by (induction bs) simp_all
  with ok show ?thesis
    by (simp add: fold_counts_def NewHist_def hist_ok_def word_greater_zero_iff not_less)
      (metis Hist.surjective Hist.update_convs(2))
qed

lemma map2_update:
  "length bs = length cs \<Longrightarrow> i < length cs \<Longrightarrow>
    map2 (+) bs (cs[i := cs ! i + (1::u64)]) = (map2 (+) bs cs)[i := map2 (+) bs cs ! i + 1]"
  by (rule nth_equalityI) (auto simp: nth_list_update)

lemma fold_counts_Observe:
  assumes "hist_ok h" "hist_ok g"
  shows "fold_counts h (hist_Observe g x) = hist_Observe (fold_counts h g) x"
proof -
  have ok: "hist_ok (fold_counts h g)" using assms by (simp add: hist_ok_def fold_counts_sel)
  have i: "bucket_index (fold_counts h g) (clamp x) = bucket_index g (clamp x)"
    using ok assms(2) by (rule bucket_index_cong)
  have "map2 (+) (h_buckets h) ((h_buckets g)[bucket_index g (clamp x) := h_buckets g ! bucket_index g (clamp x) + 1])
      = (map2 (+) (h_buckets h) (h_buckets g))[bucket_index g (clamp x) := map2 (+) (h_buckets h) (h_buckets g) ! bucket_index g (clamp x) + 1]"
    using assms bucket_index_lt [OF assms(2)] by (intro map2_update) (simp_all add: hist_ok_def)
  then show ?thesis
    by (intro Hist.equality) (simp_all add: hist_Observe_sel fold_counts_sel i min.assoc max.assoc)
qed

text \<open>
  Merging is observing. The histogram of one worker merged with that of another, each built by
  observing its samples, is the histogram of all the samples.
\<close>

lemma merge_is_union:
  assumes "length ys < 2 ^ 64"
  shows "hist_Merge (hist_of xs) (Some (hist_of ys)) = hist_of (xs @ ys)"
proof -
  have "fold_counts (hist_of xs) (hist_of zs) = hist_of (xs @ zs)" for zs
  proof (induction zs rule: rev_induct)
    case Nil
    then show ?case by (simp add: fold_counts_new)
  next
    case (snoc z zs)
    then show ?case by (simp add: fold_counts_Observe) (metis append_assoc hist_of_simps(2))
  qed
  moreover have "h_count (hist_of ys) = 0 \<longleftrightarrow> ys = []"
    using assms word_of_nat_eq_0_iff [where 'a = 64, of "length ys"] by (auto simp: hist_of_count dest: dvd_imp_le)
  ultimately show ?thesis by (auto simp: hist_Merge_def)
qed

section \<open>Percentiles\<close>

definition sample_bucket :: "int \<Rightarrow> nat" where
  "sample_bucket x = bucket_index NewHist (clamp x)"

lemma sample_bucket_lt: "sample_bucket x < num_buckets"
  using bucket_index_lt [of NewHist] hist_ok_of [of "[]"] by (simp add: sample_bucket_def)

lemma sample_bucket_mono: "x \<le> y \<Longrightarrow> sample_bucket x \<le> sample_bucket y"
proof -
  assume "x \<le> y"
  then have "clamp x \<le> clamp y" by (simp add: clamp_def)
  then have "nat (clamp x div defaultBucketWidth) \<le> nat (clamp y div defaultBucketWidth)"
    by (intro nat_mono zdiv_mono1) (simp_all add: defaultBucketWidth_def)
  then show ?thesis by (auto simp: sample_bucket_def bucket_index_def NewHist_def Let_def)
qed

lemma hist_of_buckets:
  "i < num_buckets \<Longrightarrow> h_buckets (hist_of xs) ! i = of_nat (length (filter (\<lambda>x. sample_bucket x = i) xs))"
proof (induction xs rule: rev_induct)
  case Nil
  then show ?case by (simp add: NewHist_def)
next
  case (snoc x xs)
  have idx: "bucket_index (hist_of xs) (clamp x) = sample_bucket x"
    unfolding sample_bucket_def by (rule bucket_index_cong) (use hist_ok_of [of "[]"] in simp_all)
  have "length (h_buckets (hist_of xs)) = num_buckets" using hist_ok_of [of xs] by (simp add: hist_ok_def)
  with snoc idx show ?case by (auto simp: hist_Observe_sel nth_list_update)
qed

text \<open>In a sorted list, the elements with a downward closed property are a prefix.\<close>

lemma rank_filter:
  fixes xs :: "int list"
  assumes "0 < t" "t \<le> length xs" and down: "\<And>x y. x \<le> y \<Longrightarrow> P y \<Longrightarrow> P x"
  shows "t \<le> length (filter P xs) \<longleftrightarrow> P (sort xs ! (t - 1))"
proof -
  let ?ys = "sort xs" and ?k = "length (takeWhile P (sort xs))"
  have pre: "sorted ys \<Longrightarrow> filter P ys = takeWhile P ys" for ys
  proof (induction ys)
    case (Cons a ys)
    have "filter P ys = []" if "\<not> P a"
      using Cons.prems that down unfolding filter_empty_conv by (metis list.set_intros(2) sorted_simps(2))
    with Cons show ?case by simp
  qed simp
  have "length (filter P xs) = length (filter P ?ys)" by (simp add: filter_sort)
  also have "\<dots> = ?k" using pre [of ?ys] by simp
  finally have len: "length (filter P xs) = ?k" .
  show ?thesis
  proof
    assume "t \<le> length (filter P xs)"
    then have "t - 1 < ?k" using assms(1) len by simp
    then show "P (?ys ! (t - 1))" by (metis takeWhile_nth nth_mem set_takeWhileD)
  next
    assume y: "P (?ys ! (t - 1))"
    show "t \<le> length (filter P xs)"
    proof (rule ccontr)
      assume "\<not> t \<le> length (filter P xs)"
      then have k: "?k < t" using len by simp
      then have "\<not> P (?ys ! ?k)" using assms(2) by (intro nth_length_takeWhile) simp
      moreover have "?ys ! ?k \<le> ?ys ! (t - 1)" using k assms(2) by (intro sorted_nth_mono) auto
      ultimately show False using down y by blast
    qed
  qed
qed

definition bucket_value :: "Hist \<Rightarrow> nat \<Rightarrow> int" where
  "bucket_value h i = (if i = num_buckets - 1 then sint (h_maxNs h)
     else int i * defaultBucketWidth + defaultBucketWidth div 2)"

lemma bucket_mid: "(low + (low + defaultBucketWidth)) div 2 = low + defaultBucketWidth div 2"
  by (simp add: defaultBucketWidth_def)

lemma percentile_loop_rank:
  assumes "length xs < 2 ^ 64" and "0 < unat target" and "unat target \<le> length xs"
    and "i \<le> num_buckets" and "length (filter (\<lambda>x. sample_bucket x < i) xs) < unat target"
  shows "percentile_loop (hist_of xs) target i (of_nat (length (filter (\<lambda>x. sample_bucket x < i) xs)))
      (drop i (h_buckets (hist_of xs)))
    = bucket_value (hist_of xs) (sample_bucket (sort xs ! (unat target - 1)))"
  using assms(4,5)
proof (induction "num_buckets - i" arbitrary: i)
  case 0
  then have "filter (\<lambda>x. sample_bucket x < i) xs = xs"
    using sample_bucket_lt by (intro filter_True) (auto intro: less_le_trans)
  then show ?case using "0.prems" assms(3) by simp
next
  case (Suc n)
  let ?h = "hist_of xs" and ?c = "\<lambda>i. length (filter (\<lambda>x. sample_bucket x < i) xs)"
  let ?y = "sort xs ! (unat target - 1)"
  have i: "i < num_buckets" using Suc.hyps(2) by simp
  have len: "length (h_buckets ?h) = num_buckets" "h_bucketWidth ?h = defaultBucketWidth"
    using hist_ok_of [of xs] by (simp_all add: hist_ok_def)
  have "?c (Suc i) = ?c i + length (filter (\<lambda>x. sample_bucket x = i) xs)"
    by (induction xs) auto
  then have cum: "of_nat (?c i) + h_buckets ?h ! i = (of_nat (?c (Suc i)) :: u64)"
    by (simp add: hist_of_buckets [OF i])
  have "?c (Suc i) < 2 ^ 64" using assms(1) length_filter_le le_less_trans by blast
  then have le: "target \<le> of_nat (?c (Suc i)) \<longleftrightarrow> unat target \<le> ?c (Suc i)"
    by (simp add: word_le_nat_alt unsigned_of_nat take_bit_nat_eq_self)
  have rank: "unat target \<le> ?c j \<longleftrightarrow> sample_bucket ?y < j" for j
    using assms(2,3) by (intro rank_filter) (auto intro: le_less_trans sample_bucket_mono)
  have drop: "drop i (h_buckets ?h) = h_buckets ?h ! i # drop (Suc i) (h_buckets ?h)"
    using i len by (simp add: Cons_nth_drop_Suc)
  show ?case
  proof (cases "unat target \<le> ?c (Suc i)")
    case True
    moreover have "sample_bucket ?y = i" using True rank [of "Suc i"] rank [of i] Suc.prems(2) by simp
    ultimately show ?thesis
      using cum le by (simp add: drop Let_def len bucket_value_def bucket_mid)
  next
    case False
    have "percentile_loop ?h target (Suc i) (of_nat (?c (Suc i))) (drop (Suc i) (h_buckets ?h))
        = bucket_value ?h (sample_bucket ?y)"
      using Suc.hyps(1) [of "Suc i"] Suc.hyps(2) i False by simp
    then show ?thesis using False cum le by (simp add: drop Let_def)
  qed
qed

text \<open>The rank lies between 1 and the number of samples.\<close>

lemma percentile_rank_bounds:
  assumes "0 < n" "n < 2 ^ 53"
  shows "0 < unat (percentile_rank (of_nat n) p)" and "unat (percentile_rank (of_nat n) p) \<le> n"
proof -
  define q where "q = (let p = (if p < 0 then 0 else p) in if p > 1 then 1 else p)"
  define t where "t = \<lceil>float64 (float64 (of_nat n) * q)\<rceil>"
  have q: "0 \<le> q" "q \<le> 1" by (auto simp: q_def Let_def)
  have n: "unat (of_nat n :: u64) = n" using assms(2) by (simp add: unat_of_nat)
  have rank: "percentile_rank (of_nat n) p = (if word_of_int t = (0 :: u64) then 1 else word_of_int t)"
    unfolding percentile_rank_def n t_def q_def by (simp add: Let_def)
  have "float64 (of_nat n) * q \<le> of_nat n"
    unfolding float64_nat [OF assms(2)] using q by (simp add: mult_left_le)
  then have "float64 (float64 (of_nat n) * q) \<le> of_nat n" by (rule float64_le_nat [OF _ assms(2)])
  then have t: "t \<le> int n" by (simp add: t_def ceiling_le_iff)
  have "0 \<le> float64 (float64 (of_nat n) * q)"
    using float64_pos [of "float64 (of_nat n) * q"] by (cases "0 < float64 (of_nat n) * q") (auto simp: float64_def)
  then have "0 \<le> t" unfolding t_def by (metis ceiling_mono ceiling_zero)
  then have u: "unat (word_of_int t :: u64) = nat t"
    using t assms(2) by (simp add: unat_eq_nat_uint uint_word_of_int_eq take_bit_int_eq_self)
  show "0 < unat (percentile_rank (of_nat n) p)" unfolding rank by (auto simp: unat_gt_0)
  show "unat (percentile_rank (of_nat n) p) \<le> n" unfolding rank using u t assms(1) by auto
qed

text \<open>The maximum is exact for durations of 63 bits.\<close>

lemma hist_of_max:
  "\<forall>x \<in> set xs. x < 2 ^ 63 \<Longrightarrow> uint (h_maxNs (hist_of xs)) = Max (insert 0 (set xs))"
proof (induction xs rule: rev_induct)
  case Nil
  then show ?case by (simp add: NewHist_def)
next
  case (snoc x xs)
  have "uint (word_of_int (clamp x) :: u64) = clamp x"
    using snoc.prems by (simp add: clamp_def uint_word_of_int_eq take_bit_int_eq_self)
  moreover have "uint (max a b) = max (uint a) (uint b)" for a b :: u64 by (simp add: max_def word_le_def)
  ultimately have "uint (h_maxNs (hist_of (xs @ [x]))) = max (clamp x) (Max (insert 0 (set xs)))"
    using snoc by (simp add: hist_Observe_sel)
  also have "\<dots> = max x (Max (insert 0 (set xs)))"
  proof -
    have "max (clamp x) m = max x m" if "0 \<le> m" for m using that by (simp add: clamp_def max_def)
    moreover have "0 \<le> Max (insert 0 (set xs))" by (rule Max_ge) simp_all
    ultimately show ?thesis by blast
  qed
  also have "\<dots> = Max (insert x (insert 0 (set xs)))" by (subst (2) Max_insert) simp_all
  finally show ?case by (simp add: insert_commute)
qed

lemma hist_of_max_sint:
  assumes "\<forall>x \<in> set xs. x < 2 ^ 63" and "y \<in> set xs" "0 \<le> y"
  shows "sint (h_maxNs (hist_of xs)) = Max (set xs)"
proof -
  have pos: "0 \<le> Max (set xs)" using assms(2,3) order_trans [OF assms(3) Max_ge] by simp
  moreover have "set xs \<noteq> {}" using assms(2) by auto
  ultimately have u: "uint (h_maxNs (hist_of xs)) = Max (set xs)"
    unfolding hist_of_max [OF assms(1)] by (subst Max_insert) simp_all
  moreover have "Max (set xs) < 2 ^ 63" using assms(1,2) by (subst Max_less_iff) auto
  ultimately show ?thesis using pos by (simp add: sint_uint signed_take_bit_int_eq_self)
qed

lemma sample_bucket_eq: "sample_bucket x = min (nat (max 0 x div 100000)) 100000"
proof -
  have n: "num_buckets = 100001" by (simp add: num_buckets_def defaultMaxLatency_def defaultBucketWidth_def)
  have "clamp x = max 0 x" by (simp add: clamp_def max_def)
  then have "sample_bucket x = (if num_buckets \<le> nat (max 0 x div 100000) then num_buckets - 1 else nat (max 0 x div 100000))"
    by (simp only: sample_bucket_def bucket_index_def NewHist_def Let_def defaultBucketWidth_def Hist.select_convs length_replicate) simp
  then show ?thesis unfolding n by auto
qed

lemma last_bucket: "num_buckets - 1 = 100000"
  by (simp add: num_buckets_def defaultMaxLatency_def defaultBucketWidth_def)

text \<open>C37: a percentile is accurate to half a bucket, or exactly the maximum. For fewer than \<open>2\<^sup>5\<^sup>3\<close>
  samples and any percentile, the floating-point computation gives a rank between 1 and the
  number of samples. If the sample of that rank in the sorted list is under 10 seconds,
  \<^verbatim>\<open>Percentile\<close> is within 50 microseconds of it, with negative samples taken for 0; if it is 10
  seconds or more, \<^verbatim>\<open>Percentile\<close> is the largest sample, which may be far above it.\<close>

theorem percentile_accurate:
  fixes p :: rat and xs :: "int list"
  assumes "xs \<noteq> []" "length xs < 2 ^ 53" and "\<forall>x \<in> set xs. x < 2 ^ 63"
  defines "k \<equiv> unat (percentile_rank (of_nat (length xs)) p)"
  shows "1 \<le> k \<and> k \<le> length xs \<and>
    (if sort xs ! (k - 1) < 10 * 1000000000 then \<bar>hist_Percentile (hist_of xs) p - max 0 (sort xs ! (k - 1))\<bar> \<le> 50 * 1000
     else hist_Percentile (hist_of xs) p = Max (set xs))"
proof -
  let ?t = "percentile_rank (of_nat (length xs)) p"
  let ?y = "sort xs ! (k - 1)"
  have k: "0 < k" "k \<le> length xs" using percentile_rank_bounds [of "length xs" p] assms(1,2) by (simp_all add: k_def)
  have n: "length xs < 2 ^ 64" using assms(2) by simp
  have y: "?y \<in> set xs" using k by (metis nth_mem length_sort set_sort diff_less less_le_trans zero_less_one)
  have "filter (\<lambda>x. sample_bucket x < 0) xs = []" by simp
  then have loop: "percentile_loop (hist_of xs) ?t 0 0 (h_buckets (hist_of xs)) = bucket_value (hist_of xs) (sample_bucket ?y)"
    using percentile_loop_rank [OF n, of ?t 0] k by (simp add: k_def)
  have "h_count (hist_of xs) \<noteq> 0"
    using assms(1) n word_of_nat_eq_0_iff [where 'a = 64, of "length xs"] by (auto simp: hist_of_count dest: dvd_imp_le)
  then have P: "hist_Percentile (hist_of xs) p = bucket_value (hist_of xs) (sample_bucket ?y)"
    using loop by (simp add: hist_Percentile_def hist_of_count)
  show ?thesis
  proof (cases "?y < 10 * 1000000000")
    case True
    define z where "z = max 0 ?y"
    have z: "0 \<le> z" "z div 100000 < 100000" "0 \<le> z div 100000" using True by (auto simp: z_def)
    then have "nat (z div 100000) < 100000" by (simp add: nat_less_iff)
    then have "sample_bucket ?y = nat (z div 100000)" "sample_bucket ?y \<noteq> num_buckets - 1"
      unfolding last_bucket sample_bucket_eq z_def [symmetric] by simp_all
    then have "hist_Percentile (hist_of xs) p = z div 100000 * 100000 + 50000"
      unfolding P using z(3) by (simp add: bucket_value_def defaultBucketWidth_def)
    then have "\<bar>hist_Percentile (hist_of xs) p - max 0 ?y\<bar> \<le> 50 * 1000" unfolding z_def [symmetric] by linarith
    then show ?thesis using True k by simp
  next
    case False
    then have "100000 \<le> nat (max 0 ?y div 100000)" by linarith
    then have "sample_bucket ?y = num_buckets - 1" unfolding last_bucket sample_bucket_eq by simp
    then have "hist_Percentile (hist_of xs) p = Max (set xs)"
      unfolding P using hist_of_max_sint [OF assms(3) y] False by (simp add: bucket_value_def)
    then show ?thesis using False k by simp
  qed
qed

theorem percentile_accurate_witness:
  "hist_Percentile (hist_of [30000000000, 20000000000]) (1/2) = 30000000000 \<and> 1 \<le> unat (percentile_rank 2 (1/2))"
proof -
  let ?xs = "[30000000000, 20000000000] :: int list"
  define k where "k = unat (percentile_rank (of_nat (length ?xs)) (1/2))"
  have T: "1 \<le> k \<and> k \<le> length ?xs \<and>
      (if sort ?xs ! (k - 1) < 10 * 1000000000 then \<bar>hist_Percentile (hist_of ?xs) (1/2) - max 0 (sort ?xs ! (k - 1))\<bar> \<le> 50 * 1000
       else hist_Percentile (hist_of ?xs) (1/2) = Max (set ?xs))"
    unfolding k_def by (rule percentile_accurate) simp_all
  have "k = 1 \<or> k = 2" using conjunct1 [OF T] conjunct1 [OF conjunct2 [OF T]] by auto
  moreover have "sort ?xs = [20000000000, 30000000000]" by simp
  ultimately have ge: "\<not> sort ?xs ! (k - 1) < 10 * 1000000000" by (elim disjE) (simp_all only: nth_Cons_0, simp_all)
  have "hist_Percentile (hist_of ?xs) (1/2) = Max (set ?xs)"
    using conjunct2 [OF conjunct2 [OF T]] unfolding if_not_P [OF ge] .
  moreover have "Max (set ?xs) = 30000000000" by simp
  moreover have "of_nat (length ?xs) = (2 :: u64)" by simp
  then have "1 \<le> unat (percentile_rank 2 (1/2))" using conjunct1 [OF T] unfolding k_def by (simp only:)
  ultimately show ?thesis by (simp only:)
qed

section \<open>Counters\<close>

definition counters_of :: "int list \<Rightarrow> Counters" where
  "counters_of codes = foldl AddStatus zeroCounters codes"

text \<open>The counters add up. After any responses, no index is out of range, the successes are
  those with a code from 200 to 399 and the errors all others, and every response is in
  exactly one class: the class of its hundreds digit, or class 0 when there is none from 1
  to 5.\<close>

lemma counters_add_up:
  "ct_ok (counters_of codes) = of_nat (length (filter (\<lambda>c. 200 \<le> c \<and> c < 400) codes)) \<and>
   ct_err (counters_of codes) = of_nat (length (filter (\<lambda>c. \<not> (200 \<le> c \<and> c < 400)) codes)) \<and>
   length (ct_status (counters_of codes)) = 6 \<and>
   (\<forall>i < 6. ct_status (counters_of codes) ! i
      = of_nat (length (filter (\<lambda>c. (if 0 < c \<and> c < 600 then nat (c div 100) else 0) = i) codes)))"
proof (induction codes rule: rev_induct)
  case Nil
  then show ?case by (simp add: counters_of_def zeroCounters_def)
next
  case (snoc c codes)
  let ?k = "counters_of codes"
  have len: "length (ct_status ?k) = 6" using snoc by simp
  have idx: "status_index ?k c = (if 0 < c \<and> c < 600 then nat (c div 100) else 0)"
    by (auto simp: status_index_def len)
  have lt: "status_index ?k c < 6" unfolding idx by auto
  have "counters_of (codes @ [c]) = AddStatus ?k c" by (simp add: counters_of_def)
  with snoc lt len show ?case
    unfolding AddStatus_def Let_def idx by (auto simp: nth_list_update)
qed

end
