(* ===== verification/Bench_Scenarios.thy ===== *)
theory Bench_Scenarios
  imports Raft_Server "HOL-Library.Multiset"
begin

text \<open>
  \<^verbatim>\<open>bench/scenario.go\<close> and \<^verbatim>\<open>bench/scenarios.go\<close>: the workloads of the load generator. A step of
  a scenario builds a request, sends it with the HTTP client, a parameter as in
  \<open>Raft_Server\<close>, and gives the status or the error; a panic is \<^term>\<open>None\<close>. The pseudo-random letters
  of \<^verbatim>\<open>makeValue\<close> are a parameter, by seed and position. The settings of the
  client are kept; what the library does with them (timeouts, connection pools) is inside the parameter.
\<close>

section \<open>Keys and values\<close>

record ScenarioConfig =
  sc_Addrs :: "string list"
  sc_Tenant :: string
  sc_Namespace :: string
  sc_NumKeys :: int
  sc_ValueSize :: int
  sc_Timeout :: int

text \<open>The settings of the HTTP client.\<close>

record Transport =
  tr_MaxIdleConns :: int
  tr_MaxIdleConnsPerHost :: int
  tr_MaxConnsPerHost :: int
  tr_IdleConnTimeout :: int
  tr_DisableCompression :: bool
  tr_ForceAttemptHTTP2 :: bool

record Client_settings =
  cl_Transport :: Transport
  cl_Timeout :: int

definition newHTTPClient :: "int \<Rightarrow> Client_settings" where
  "newHTTPClient timeout =
     \<lparr>cl_Transport = \<lparr>tr_MaxIdleConns = 4096, tr_MaxIdleConnsPerHost = 4096, tr_MaxConnsPerHost = 4096,
        tr_IdleConnTimeout = 90 * second, tr_DisableCompression = True, tr_ForceAttemptHTTP2 = False\<rparr>,
      cl_Timeout = timeout\<rparr>"

text \<open>\<^verbatim>\<open>%08d\<close> of a non-negative number.\<close>

definition pad8 :: "nat \<Rightarrow> string" where
  "pad8 n = replicate (8 - length (dec_of_nat n)) CHR ''0'' @ dec_of_nat n"

definition makeKeyPool :: "string \<Rightarrow> string \<Rightarrow> int \<Rightarrow> string list option" where
  "makeKeyPool tenant ns n =
     (if n < 0 then None
      else Some (map (\<lambda>i. tenant @ ''/'' @ ns @ ''/k'' @ pad8 i) [0 ..< nat n]))"

definition makeValue :: "(int \<Rightarrow> nat \<Rightarrow> nat) \<Rightarrow> int \<Rightarrow> int \<Rightarrow> string option" where
  "makeValue rnd n seed =
     (if n < 0 then None else Some (map (\<lambda>i. char_of (97 + rnd seed i)) [0 ..< nat n]))"

text \<open>The index \<^verbatim>\<open>int(i) % n\<close>: a counter beyond the positive integers gives a negative index, a panic.\<close>

definition ring_index :: "u64 \<Rightarrow> nat \<Rightarrow> nat option" where
  "ring_index i n = (if n = 0 \<or> sint i < 0 \<and> sint i mod int n \<noteq> 0 then None
     else Some (nat (sint i mod int n)))"

section \<open>write\_only\<close>

record WriteOnly =
  wo_cfg :: ScenarioConfig
  wo_client :: Client_settings
  wo_keys :: "string list"
  wo_value :: string
  wo_writeURL :: string
  wo_counter :: u64

text \<open>The defaults; \<open>keys\<close> is the default size of the key pool.\<close>

definition scenario_defaults :: "int \<Rightarrow> ScenarioConfig \<Rightarrow> ScenarioConfig" where
  "scenario_defaults keys cfg =
     (let cfg = (if sc_NumKeys cfg = 0 then cfg\<lparr>sc_NumKeys := keys\<rparr> else cfg);
          cfg = (if sc_ValueSize cfg = 0 then cfg\<lparr>sc_ValueSize := 64\<rparr> else cfg) in
      if sc_Timeout cfg = 0 then cfg\<lparr>sc_Timeout := 10 * second\<rparr> else cfg)"

definition config_url :: "string \<Rightarrow> string" where
  "config_url addr = ''http://'' @ addr @ ''/api/v1/config/''"

definition NewWriteOnly :: "(int \<Rightarrow> nat \<Rightarrow> nat) \<Rightarrow> ScenarioConfig \<Rightarrow> WriteOnly option" where
  "NewWriteOnly rnd cfg0 =
     (let cfg = scenario_defaults 10000 cfg0 in
      (case (makeKeyPool (sc_Tenant cfg) (sc_Namespace cfg) (sc_NumKeys cfg), makeValue rnd (sc_ValueSize cfg) 1, sc_Addrs cfg) of
         (Some keys, Some val, addr # _) \<Rightarrow>
           Some \<lparr>wo_cfg = cfg, wo_client = newHTTPClient (sc_Timeout cfg), wo_keys = keys, wo_value = val, wo_writeURL = config_url addr, wo_counter = 0\<rparr>
       | _ \<Rightarrow> None))"

text \<open>\<^verbatim>\<open>http.NewRequestWithContext\<close>, \<^verbatim>\<open>client.Do\<close> and the reading of the answer.\<close>

definition send :: "http_client \<Rightarrow> OutRequest \<Rightarrow> err + nat" where
  "send H req = (case hc_NewRequest H (out_Method req) (out_URL req) of Some e \<Rightarrow> Inl e
     | None \<Rightarrow> (case hc_Do H req of Inl e \<Rightarrow> Inl e | Inr resp \<Rightarrow> Inr (rsp_Status resp)))"

text \<open>The request of the next step.\<close>

definition wo_request :: "WriteOnly \<Rightarrow> OutRequest option" where
  "wo_request s = map_option (\<lambda>k. \<lparr>out_Method = ''PUT'', out_URL = wo_writeURL s @ wo_keys s ! k,
       out_Header = [(''Content-Type'', ''application/octet-stream'')], out_Body = Some (wo_value s)\<rparr>)
     (ring_index (wo_counter s + 1) (length (wo_keys s)))"

definition wo_Step :: "http_client \<Rightarrow> WriteOnly \<Rightarrow> ((err + nat) \<times> WriteOnly) option" where
  "wo_Step H s = map_option (\<lambda>req. (send H req, s\<lparr>wo_counter := wo_counter s + 1\<rparr>)) (wo_request s)"

section \<open>read\_only\<close>

record ReadOnly =
  ro_cfg :: ScenarioConfig
  ro_client :: Client_settings
  ro_keys :: "string list"
  ro_readURLs :: "string list"
  ro_counter :: u64
  ro_rrIdx :: u64

definition NewReadOnly :: "ScenarioConfig \<Rightarrow> ReadOnly option" where
  "NewReadOnly cfg0 =
     (let cfg = scenario_defaults 1000 cfg0 in
      map_option (\<lambda>keys. \<lparr>ro_cfg = cfg, ro_client = newHTTPClient (sc_Timeout cfg), ro_keys = keys, ro_readURLs = map config_url (sc_Addrs cfg), ro_counter = 0, ro_rrIdx = 0\<rparr>)
        (makeKeyPool (sc_Tenant cfg) (sc_Namespace cfg) (sc_NumKeys cfg)))"

text \<open>The loop of \<^verbatim>\<open>Setup\<close> over the keys: the first failure ends it.\<close>

fun prepopulate :: "http_client \<Rightarrow> string \<Rightarrow> string \<Rightarrow> string list \<Rightarrow> err option" where
  "prepopulate H url val [] = None"
| "prepopulate H url val (k # ks) =
     (let req = \<lparr>out_Method = ''PUT'', out_URL = url @ k, out_Header = [], out_Body = Some val\<rparr> in
      (case hc_NewRequest H ''PUT'' (url @ k) of Some e \<Rightarrow> Some e
       | None \<Rightarrow>
           (case hc_Do H req of Inl e \<Rightarrow> Some (Wrap (''prepopulate '' @ k) e)
            | Inr resp \<Rightarrow>
                if rsp_Status resp \<ge> 400 then Some (ErrMsg (''prepopulate '' @ k @ '': status '' @ dec_of_nat (rsp_Status resp)))
                else prepopulate H url val ks)))"

text \<open>\<^verbatim>\<open>Setup\<close>. The pause of 500 ms after a successful prepopulation takes time and changes no state; it is left out.\<close>

definition ro_Setup :: "http_client \<Rightarrow> (int \<Rightarrow> nat \<Rightarrow> nat) \<Rightarrow> ReadOnly \<Rightarrow> err option option" where
  "ro_Setup H rnd s =
     (case (sc_Addrs (ro_cfg s), makeValue rnd (sc_ValueSize (ro_cfg s)) 2) of
        (addr # _, Some val) \<Rightarrow> Some (prepopulate H (config_url addr) val (ro_keys s))
      | _ \<Rightarrow> None)"

definition ro_Step :: "http_client \<Rightarrow> ReadOnly \<Rightarrow> ((err + nat) \<times> ReadOnly) option" where
  "ro_Step H s =
     (case (ring_index (ro_counter s + 1) (length (ro_keys s)), ring_index (ro_rrIdx s + 1) (length (ro_readURLs s))) of
        (Some k, Some u) \<Rightarrow>
          Some (send H \<lparr>out_Method = ''GET'', out_URL = ro_readURLs s ! u @ ro_keys s ! k, out_Header = [], out_Body = None\<rparr>,
            s\<lparr>ro_counter := ro_counter s + 1, ro_rrIdx := ro_rrIdx s + 1\<rparr>)
      | _ \<Rightarrow> None)"

section \<open>mixed\<close>

record Mixed =
  mx_cfg :: ScenarioConfig
  mx_readPercent :: int
  mx_r :: ReadOnly
  mx_w :: WriteOnly
  mx_counter :: u64

definition NewMixed :: "(int \<Rightarrow> nat \<Rightarrow> nat) \<Rightarrow> ScenarioConfig \<Rightarrow> int \<Rightarrow> Mixed option" where
  "NewMixed rnd cfg readPercent =
     (case (NewReadOnly cfg, NewWriteOnly rnd cfg) of
        (Some r, Some w) \<Rightarrow> Some \<lparr>mx_cfg = cfg, mx_readPercent = readPercent, mx_r = r, mx_w = w, mx_counter = 0\<rparr>
      | _ \<Rightarrow> None)"

definition mx_Name :: "Mixed \<Rightarrow> string" where
  "mx_Name s = ''mixed_'' @ FormatInt (mx_readPercent s) @ ''r_'' @ FormatInt (100 - mx_readPercent s) @ ''w''"

definition mx_Setup :: "http_client \<Rightarrow> (int \<Rightarrow> nat \<Rightarrow> nat) \<Rightarrow> Mixed \<Rightarrow> err option option" where
  "mx_Setup H rnd s = ro_Setup H rnd (mx_r s)"

definition mx_Step :: "http_client \<Rightarrow> Mixed \<Rightarrow> ((err + nat) \<times> Mixed) option" where
  "mx_Step H s0 =
     (let i = mx_counter s0 + 1; s = s0\<lparr>mx_counter := i\<rparr> in
      if int (unat (i mod 100)) < mx_readPercent s
      then map_option (\<lambda>(res, r). (res, s\<lparr>mx_r := r\<rparr>)) (ro_Step H (mx_r s))
      else map_option (\<lambda>(res, w). (res, s\<lparr>mx_w := w\<rparr>)) (wo_Step H (mx_w s)))"

section \<open>Runs of steps\<close>

text \<open>The results and the state after \<open>n\<close> steps, one after the other.\<close>

fun run_steps :: "('s \<Rightarrow> ('a \<times> 's) option) \<Rightarrow> nat \<Rightarrow> 's \<Rightarrow> ('a list \<times> 's) option" where
  "run_steps f 0 s = Some ([], s)"
| "run_steps f (Suc n) s =
     (case run_steps f n s of None \<Rightarrow> None
      | Some (xs, s1) \<Rightarrow> (case f s1 of None \<Rightarrow> None | Some (x, s2) \<Rightarrow> Some (xs @ [x], s2)))"

lemma sint_small:
  assumes "unat (i :: u64) < 2 ^ 63"
  shows "sint i = int (unat i)"
proof -
  have small: "x < 2 ^ 63 \<Longrightarrow> 0 \<le> x \<Longrightarrow> signed_take_bit 63 x = x" for x :: int
    by (rule signed_take_bit_int_eq_self) auto
  have "uint i < 2 ^ 63" using assms unfolding unat_eq_nat_uint by (simp only: nat_less_iff uint_ge_0) simp
  moreover have "sint i = signed_take_bit 63 (uint i)" unfolding sint_uint by simp
  ultimately show ?thesis using small [of "uint i"] by (simp only: uint_ge_0 uint_nat)
qed

lemma unat_plus_small: "unat (i :: u64) + n < 2 ^ 64 \<Longrightarrow> unat (i + of_nat n) = unat i + n"
  by (simp add: unat_word_ariths(1) unat_of_nat)

lemma ring_index_pos: "0 < n \<Longrightarrow> sint i = int k \<Longrightarrow> ring_index i n = Some (k mod n)"
  by (simp add: ring_index_def zmod_int [symmetric])

lemma ring_index_small:
  assumes "0 < n" "unat c + Suc j < 2 ^ 63"
  shows "ring_index (c + of_nat j + 1) n = Some ((unat c + 1 + j) mod n)"
proof -
  have "c + of_nat j + 1 = c + of_nat (Suc j)" by simp
  then have "unat (c + of_nat j + 1) = unat c + 1 + j"
    using assms(2) unat_plus_small [of c "Suc j"] by (simp only:) simp
  then have "sint (c + of_nat j + 1) = int (unat c + 1 + j)"
    using assms(2) sint_small [of "c + of_nat j + 1"] by (simp only: add_Suc_right add_0_right One_nat_def add_Suc)
  then show ?thesis by (rule ring_index_pos [OF assms(1)])
qed

text \<open>Going round a list from any place visits every element once.\<close>

lemma rotate_nth: "xs \<noteq> [] \<Longrightarrow> map (\<lambda>j. xs ! ((k + j) mod length xs)) [0 ..< length xs] = rotate k xs"
  by (rule nth_equalityI) (simp_all add: nth_rotate add.commute)

lemma mset_rotate: "mset (rotate k xs) = mset xs"
proof (induction k)
  case (Suc k)
  have "mset (rotate1 ys) = mset ys" for ys :: "'a list" by (cases ys) simp_all
  with Suc show ?case by simp
qed simp

section \<open>Properties\<close>

text \<open>A step of \<^verbatim>\<open>write_only\<close> by the request it sends.\<close>

definition wo_send :: "WriteOnly \<Rightarrow> (OutRequest \<times> WriteOnly) option" where
  "wo_send s = map_option (\<lambda>req. (req, s\<lparr>wo_counter := wo_counter s + 1\<rparr>)) (wo_request s)"

lemma wo_Step_send: "wo_Step H s = map_option (\<lambda>(req, s'). (send H req, s')) (wo_send s)"
  by (simp add: wo_Step_def wo_send_def option.map_comp comp_def)

lemma wo_run:
  assumes "wo_keys s \<noteq> []" "unat (wo_counter s) + m < 2 ^ 63"
  shows "\<exists>reqs. run_steps wo_send m s = Some (reqs, s\<lparr>wo_counter := wo_counter s + of_nat m\<rparr>) \<and>
    map out_URL reqs = map (\<lambda>j. wo_writeURL s @ wo_keys s ! ((unat (wo_counter s) + 1 + j) mod length (wo_keys s))) [0 ..< m]"
  using assms(2)
proof (induction m)
  case 0
  then show ?case by simp
next
  case (Suc m)
  then obtain reqs where reqs: "run_steps wo_send m s = Some (reqs, s\<lparr>wo_counter := wo_counter s + of_nat m\<rparr>)"
    "map out_URL reqs = map (\<lambda>j. wo_writeURL s @ wo_keys s ! ((unat (wo_counter s) + 1 + j) mod length (wo_keys s))) [0 ..< m]"
    by auto
  have "ring_index (wo_counter s + of_nat m + 1) (length (wo_keys s)) = Some ((unat (wo_counter s) + 1 + m) mod length (wo_keys s))"
    using assms(1) Suc.prems by (intro ring_index_small) simp_all
  then have "\<exists>req. wo_send (s\<lparr>wo_counter := wo_counter s + of_nat m\<rparr>) = Some (req, s\<lparr>wo_counter := wo_counter s + of_nat (Suc m)\<rparr>) \<and>
      out_URL req = wo_writeURL s @ wo_keys s ! ((unat (wo_counter s) + 1 + m) mod length (wo_keys s))"
    by (simp add: wo_send_def wo_request_def add.assoc)
  with reqs show ?case by auto
qed

text \<open>The write load is spread evenly. From any state of the counter short of \<open>2\<^sup>6\<^sup>3\<close>, as many
  consecutive steps of \<^verbatim>\<open>write_only\<close> as there are keys put every key of the pool exactly once, and
  none of them panics.\<close>

lemma write_round_robin:
  assumes "wo_keys s \<noteq> []" and "unat (wo_counter s) + length (wo_keys s) < 2 ^ 63"
  shows "\<exists>reqs s'. run_steps wo_send (length (wo_keys s)) s = Some (reqs, s') \<and>
    mset (map out_URL reqs) = mset (map (\<lambda>k. wo_writeURL s @ k) (wo_keys s))"
proof -
  let ?ks = "map (\<lambda>k. wo_writeURL s @ k) (wo_keys s)"
  obtain reqs where reqs: "run_steps wo_send (length (wo_keys s)) s = Some (reqs, s\<lparr>wo_counter := wo_counter s + of_nat (length (wo_keys s))\<rparr>)"
    "map out_URL reqs = map (\<lambda>j. wo_writeURL s @ wo_keys s ! ((unat (wo_counter s) + 1 + j) mod length (wo_keys s))) [0 ..< length (wo_keys s)]"
    using wo_run [OF assms] by blast
  have "map out_URL reqs = map (\<lambda>j. ?ks ! ((unat (wo_counter s) + 1 + j) mod length ?ks)) [0 ..< length ?ks]"
    unfolding reqs(2) using assms(1) by simp
  also have "\<dots> = rotate (unat (wo_counter s) + 1) ?ks" using assms(1) by (intro rotate_nth) simp
  finally show ?thesis using reqs(1) mset_rotate by metis
qed

definition demo_scenario :: ScenarioConfig where
  "demo_scenario = \<lparr>sc_Addrs = [''h''], sc_Tenant = ''t'', sc_Namespace = ''n'', sc_NumKeys = 2, sc_ValueSize = 1, sc_Timeout = 1\<rparr>"

definition demo_write_only :: WriteOnly where
  "demo_write_only = \<lparr>wo_cfg = demo_scenario, wo_client = newHTTPClient 1, wo_keys = [''a'', ''b''], wo_value = ''v'', wo_writeURL = ''u/'', wo_counter = 6\<rparr>"

text \<open>The counters of a mixed scenario: how many reads are among the steps after a counter value.\<close>

definition reads :: "u64 \<Rightarrow> int \<Rightarrow> nat \<Rightarrow> nat" where
  "reads c p m = length (filter (\<lambda>j. int ((unat c + 1 + j) mod 100) < p) [0 ..< m])"

lemma reads_le: "reads c p m \<le> m"
  unfolding reads_def by (metis length_filter_le length_upt minus_nat.diff_0)

lemma reads_100:
  assumes "0 \<le> p" "p \<le> 100"
  shows "reads c p 100 = nat p"
proof -
  let ?f = "\<lambda>j. (unat c + 1 + j) mod 100"
  have "map ?f [0 ..< 100] = map (\<lambda>j. [0 ..< 100] ! ((unat c + 1 + j) mod length [0 ..< 100])) [0 ..< length [0 ..< (100 :: nat)]]"
    by (rule map_cong) simp_all
  also have "\<dots> = rotate (unat c + 1) [0 ..< 100]" by (rule rotate_nth) simp
  finally have "mset (map ?f [0 ..< 100]) = mset [0 ..< 100]" using mset_rotate by metis
  then have "size (filter_mset (\<lambda>x. int x < p) (mset (map ?f [0 ..< 100]))) = size (filter_mset (\<lambda>x. int x < p) (mset [0 ..< 100]))"
    by metis
  then have "length (filter (\<lambda>x. int x < p) (map ?f [0 ..< 100])) = length (filter (\<lambda>x. int x < p) [0 ..< 100])"
    by (simp only: mset_filter [symmetric] size_mset)
  moreover have "filter (\<lambda>x. int x < p) [0 ..< 100] = [0 ..< nat p]"
  proof -
    have "[0 ..< 100] = [0 ..< nat p] @ [nat p ..< 100]" using assms upt_add_eq_append [of 0 "nat p" "100 - nat p"] by simp
    moreover have "filter (\<lambda>x. int x < p) [nat p ..< 100] = []" using assms by (auto simp: filter_empty_conv)
    moreover have "filter (\<lambda>x. int x < p) [0 ..< nat p] = [0 ..< nat p]" using assms by (auto simp: filter_id_conv)
    ultimately show ?thesis by simp
  qed
  ultimately show ?thesis by (simp add: reads_def filter_map comp_def)
qed

lemma mx_Step_read:
  assumes "int (unat ((mx_counter s + 1) mod 100)) < mx_readPercent s"
    and "ring_index (ro_counter (mx_r s) + 1) (length (ro_keys (mx_r s))) = Some j"
    and "ring_index (ro_rrIdx (mx_r s) + 1) (length (ro_readURLs (mx_r s))) = Some k"
  shows "\<exists>x. mx_Step H s = Some (x, s\<lparr>mx_counter := mx_counter s + 1,
    mx_r := (mx_r s)\<lparr>ro_counter := ro_counter (mx_r s) + 1, ro_rrIdx := ro_rrIdx (mx_r s) + 1\<rparr>\<rparr>)"
  using assms by (simp add: mx_Step_def ro_Step_def Let_def)

lemma mx_Step_write:
  assumes "\<not> int (unat ((mx_counter s + 1) mod 100)) < mx_readPercent s"
    and "ring_index (wo_counter (mx_w s) + 1) (length (wo_keys (mx_w s))) = Some j"
  shows "\<exists>x. mx_Step H s = Some (x, s\<lparr>mx_counter := mx_counter s + 1, mx_w := (mx_w s)\<lparr>wo_counter := wo_counter (mx_w s) + 1\<rparr>\<rparr>)"
  using assms by (simp add: mx_Step_def wo_Step_def wo_request_def Let_def)

text \<open>The state after \<open>m\<close> steps of which \<open>k\<close> were reads.\<close>

definition mx_after :: "Mixed \<Rightarrow> nat \<Rightarrow> nat \<Rightarrow> Mixed" where
  "mx_after s m k = s\<lparr>mx_counter := mx_counter s + of_nat m,
     mx_r := (mx_r s)\<lparr>ro_counter := ro_counter (mx_r s) + of_nat k, ro_rrIdx := ro_rrIdx (mx_r s) + of_nat k\<rparr>,
     mx_w := (mx_w s)\<lparr>wo_counter := wo_counter (mx_w s) + of_nat (m - k)\<rparr>\<rparr>"

lemma mx_run:
  assumes "ro_keys (mx_r s) \<noteq> []" "ro_readURLs (mx_r s) \<noteq> []" "wo_keys (mx_w s) \<noteq> []"
    and "unat (ro_counter (mx_r s)) + m < 2 ^ 63" "unat (ro_rrIdx (mx_r s)) + m < 2 ^ 63" "unat (wo_counter (mx_w s)) + m < 2 ^ 63"
    and "unat (mx_counter s) + m < 2 ^ 64"
  shows "\<exists>res. run_steps (mx_Step H) m s = Some (res, mx_after s m (reads (mx_counter s) (mx_readPercent s) m))"
  using assms(4-7)
proof (induction m)
  case 0
  then show ?case by (simp add: reads_def mx_after_def)
next
  case (Suc m)
  define k where "k = reads (mx_counter s) (mx_readPercent s) m"
  let ?s = "mx_after s m k" and ?i = "mx_counter s + of_nat m + 1"
  obtain res where res: "run_steps (mx_Step H) m s = Some (res, ?s)" using Suc by (auto simp: k_def)
  have le: "k \<le> m" unfolding k_def by (rule reads_le)
  have "?i = mx_counter s + of_nat (Suc m)" by simp
  then have "unat ?i = unat (mx_counter s) + 1 + m"
    using Suc.prems(4) unat_plus_small [of "mx_counter s" "Suc m"] by (simp only:)
  then have pick: "unat (?i mod 100) = (unat (mx_counter s) + 1 + m) mod 100" by (simp add: unat_mod)
  have sel: "mx_counter ?s = mx_counter s + of_nat m" "mx_readPercent ?s = mx_readPercent s"
    "ro_counter (mx_r ?s) = ro_counter (mx_r s) + of_nat k" "ro_rrIdx (mx_r ?s) = ro_rrIdx (mx_r s) + of_nat k"
    "wo_counter (mx_w ?s) = wo_counter (mx_w s) + of_nat (m - k)" "ro_keys (mx_r ?s) = ro_keys (mx_r s)"
    "ro_readURLs (mx_r ?s) = ro_readURLs (mx_r s)" "wo_keys (mx_w ?s) = wo_keys (mx_w s)"
    by (simp_all add: mx_after_def)
  show ?case
  proof (cases "int ((unat (mx_counter s) + 1 + m) mod 100) < mx_readPercent s")
    case True
    then have "reads (mx_counter s) (mx_readPercent s) (Suc m) = Suc k" by (simp add: reads_def k_def)
    moreover obtain x where "mx_Step H ?s = Some (x, ?s\<lparr>mx_counter := mx_counter ?s + 1,
        mx_r := (mx_r ?s)\<lparr>ro_counter := ro_counter (mx_r ?s) + 1, ro_rrIdx := ro_rrIdx (mx_r ?s) + 1\<rparr>\<rparr>)"
    proof -
      have "ring_index (ro_counter (mx_r ?s) + 1) (length (ro_keys (mx_r ?s))) = Some ((unat (ro_counter (mx_r s)) + 1 + k) mod length (ro_keys (mx_r s)))"
        "ring_index (ro_rrIdx (mx_r ?s) + 1) (length (ro_readURLs (mx_r ?s))) = Some ((unat (ro_rrIdx (mx_r s)) + 1 + k) mod length (ro_readURLs (mx_r s)))"
        unfolding sel using assms(1,2) Suc.prems le by (intro ring_index_small; simp)+
      then show thesis using mx_Step_read [of ?s] that True unfolding sel pick by blast
    qed
    ultimately show ?thesis using res by (simp add: mx_after_def add.commute)
  next
    case False
    then have "reads (mx_counter s) (mx_readPercent s) (Suc m) = k" by (simp add: reads_def k_def)
    moreover obtain x where "mx_Step H ?s = Some (x, ?s\<lparr>mx_counter := mx_counter ?s + 1,
        mx_w := (mx_w ?s)\<lparr>wo_counter := wo_counter (mx_w ?s) + 1\<rparr>\<rparr>)"
    proof -
      have "ring_index (wo_counter (mx_w ?s) + 1) (length (wo_keys (mx_w ?s))) = Some ((unat (wo_counter (mx_w s)) + 1 + (m - k)) mod length (wo_keys (mx_w s)))"
        unfolding sel using assms(3) Suc.prems le by (intro ring_index_small; simp)
      then show thesis using mx_Step_write [of ?s] that False unfolding sel pick by blast
    qed
    ultimately show ?thesis using res le by (simp add: mx_after_def add.commute Suc_diff_le)
  qed
qed

text \<open>C29: the mixed load has the exact ratio. For a read percentage from 0 to 100, any 100 consecutive
  steps are exactly that many reads, and writes for the rest, whatever the state of the
  counter (short of its wrap-around) and the answers of the servers; and none panics.\<close>

theorem mixed_exact_split:
  assumes "0 \<le> mx_readPercent s" "mx_readPercent s \<le> 100"
    and "ro_keys (mx_r s) \<noteq> []" "ro_readURLs (mx_r s) \<noteq> []" "wo_keys (mx_w s) \<noteq> []"
    and "unat (ro_counter (mx_r s)) + 100 < 2 ^ 63" "unat (ro_rrIdx (mx_r s)) + 100 < 2 ^ 63"
    and "unat (wo_counter (mx_w s)) + 100 < 2 ^ 63" "unat (mx_counter s) + 100 < 2 ^ 64"
  shows "\<exists>res s'. run_steps (mx_Step H) 100 s = Some (res, s') \<and>
    ro_counter (mx_r s') = ro_counter (mx_r s) + of_int (mx_readPercent s) \<and>
    wo_counter (mx_w s') = wo_counter (mx_w s) + of_int (100 - mx_readPercent s)"
proof -
  obtain res where res: "run_steps (mx_Step H) 100 s = Some (res, mx_after s 100 (nat (mx_readPercent s)))"
    using mx_run [OF assms(3-9)] reads_100 [OF assms(1,2)] by auto
  have "of_nat (nat (mx_readPercent s)) = (of_int (mx_readPercent s) :: u64)"
    "of_nat (100 - nat (mx_readPercent s)) = (of_int (100 - mx_readPercent s) :: u64)"
    using assms(1,2) by (simp_all add: of_nat_diff nat_le_iff)
  with res show ?thesis by (simp add: mx_after_def del: run_steps.simps)
qed

definition demo_mixed :: Mixed where
  "demo_mixed = \<lparr>mx_cfg = demo_scenario, mx_readPercent = 95,
     mx_r = \<lparr>ro_cfg = demo_scenario, ro_client = newHTTPClient 1, ro_keys = [''a'', ''b''], ro_readURLs = [''u/''], ro_counter = 0, ro_rrIdx = 0\<rparr>,
     mx_w = demo_write_only, mx_counter = 41\<rparr>"

theorem mixed_exact_split_witness:
  "\<exists>res s'. run_steps (mx_Step \<lparr>hc_NewRequest = \<lambda>_ _. None, hc_Do = \<lambda>_. Inl ErrJson\<rparr>) 100 demo_mixed = Some (res, s') \<and>
    ro_counter (mx_r s') = 95 \<and> wo_counter (mx_w s') = 11"
proof -
  have d: "mx_readPercent demo_mixed = 95" "ro_keys (mx_r demo_mixed) \<noteq> []" "ro_readURLs (mx_r demo_mixed) \<noteq> []"
    "wo_keys (mx_w demo_mixed) \<noteq> []" "ro_counter (mx_r demo_mixed) = 0" "ro_rrIdx (mx_r demo_mixed) = 0"
    "wo_counter (mx_w demo_mixed) = 6" "mx_counter demo_mixed = 41"
    by (simp_all add: demo_mixed_def demo_write_only_def)
  have w: "95 \<le> (100 :: int)" "0 \<le> (95 :: int)" by simp_all
  show ?thesis
    using mixed_exact_split [of demo_mixed "\<lparr>hc_NewRequest = \<lambda>_ _. None, hc_Do = \<lambda>_. Inl ErrJson\<rparr>", unfolded d(1,5-8)] d(2-4)
    by (simp del: run_steps.simps)
qed

end
