(* ===== verification/Go_Time.thy ===== *)
theory Go_Time
  imports Go_Duration
begin

text \<open>
  \<^verbatim>\<open>time.Time\<close> as the result files and the report use it: an instant with the offset of its zone, its
  text in the format RFC 3339, and the strict parser. The calendar is the proleptic Gregorian
  one, by cycles of 400 years. A time whose year has four digits and whose offset is a whole
  number of minutes reads back from its text.
\<close>

section \<open>The calendar\<close>

definition leap :: "nat \<Rightarrow> bool" where
  "leap y \<longleftrightarrow> y mod 4 = 0 \<and> (y mod 100 \<noteq> 0 \<or> y mod 400 = 0)"

definition year_days :: "nat \<Rightarrow> nat" where
  "year_days y = (if leap y then 366 else 365)"

definition daysIn :: "nat \<Rightarrow> nat \<Rightarrow> nat" where
  "daysIn m y = (if m = 2 then (if leap y then 29 else 28) else if m \<in> {4, 6, 9, 11} then 30 else 31)"

text \<open>The year and the month of a day, and the days before them. A day is counted from the start of the cycle.\<close>

function find_year :: "nat \<Rightarrow> nat \<Rightarrow> nat \<times> nat" where
  "find_year y d = (if d < year_days y then (y, d) else find_year (Suc y) (d - year_days y))"
  by pat_completeness auto
termination
  by (relation "measure snd") (auto simp: year_days_def)

declare find_year.simps [simp del]

fun find_month :: "nat \<Rightarrow> nat list \<Rightarrow> nat \<Rightarrow> nat \<times> nat" where
  "find_month y [] d = (12, d)"
| "find_month y (m # ms) d = (if d < daysIn m y then (m, d) else find_month y ms (d - daysIn m y))"

fun days_before_year :: "nat \<Rightarrow> nat" where
  "days_before_year 0 = 0"
| "days_before_year (Suc y) = days_before_year y + year_days y"

definition days_before_month :: "nat \<Rightarrow> nat \<Rightarrow> nat" where
  "days_before_month m y = sum_list (map (\<lambda>i. daysIn i y) [1 ..< m])"

text \<open>Dates from days since the first of January of the year 0, and back.\<close>

definition date_of_days :: "int \<Rightarrow> int \<times> nat \<times> nat" where
  "date_of_days n =
     (let (y, d) = find_year 0 (nat (n mod 146097)); (m, d) = find_month y [1 ..< 13] d in
      (400 * (n div 146097) + int y, m, Suc d))"

definition days_of_date :: "int \<Rightarrow> nat \<Rightarrow> nat \<Rightarrow> int" where
  "days_of_date y m d =
     (let c = nat (y mod 400) in
      146097 * (y div 400) + int (days_before_year c + days_before_month m c + (d - 1)))"

section \<open>Times\<close>

text \<open>An instant in nanoseconds since 1970, and the seconds east of Greenwich of its location then.\<close>

record Time =
  tm_unixNano :: int
  tm_offset :: int

abbreviation giga :: int where "giga \<equiv> 1000000000"

abbreviation unix_days :: int where "unix_days \<equiv> 719528"

text \<open>A time in a location, which is a function from instants to offsets.\<close>

definition in_zone :: "(int \<Rightarrow> int) \<Rightarrow> int \<Rightarrow> Time" where
  "in_zone zone t = \<lparr>tm_unixNano = t, tm_offset = zone t\<rparr>"

text \<open>The wall clock: days since the year 0, and seconds of the day.\<close>

definition wall_days :: "Time \<Rightarrow> int" where
  "wall_days t = (tm_unixNano t div giga + tm_offset t) div 86400 + unix_days"

definition wall_secs :: "Time \<Rightarrow> nat" where
  "wall_secs t = nat ((tm_unixNano t div giga + tm_offset t) mod 86400)"

definition nanosecond :: "Time \<Rightarrow> nat" where
  "nanosecond t = nat (tm_unixNano t mod giga)"

definition appendInt :: "nat \<Rightarrow> int \<Rightarrow> string" where
  "appendInt w i = (if i < 0 then ''-'' else []) @ pad_left w (dec_of_nat (nat \<bar>i\<bar>))"

definition nanos_text :: "nat \<Rightarrow> string" where
  "nanos_text n = (let ds = frac_digits 9 n in if ds = [] then [] else CHR ''.'' # ds)"

definition zone_text :: "int \<Rightarrow> string" where
  "zone_text off =
     (if off = 0 then ''Z''
      else let z = nat \<bar>off\<bar> div 60 in
        (if off < 0 \<and> z > 0 then ''-'' else ''+'') @ appendInt 2 (int (z div 60)) @ '':'' @ appendInt 2 (int (z mod 60)))"

definition date_text :: "int \<Rightarrow> string" where
  "date_text n = (let (y, m, d) = date_of_days n in appendInt 4 y @ ''-'' @ appendInt 2 (int m) @ ''-'' @ appendInt 2 (int d))"

definition clock_text :: "nat \<Rightarrow> string" where
  "clock_text s = appendInt 2 (int (s div 3600)) @ '':'' @ appendInt 2 (int (s mod 3600 div 60)) @ '':'' @ appendInt 2 (int (s mod 60))"

definition format_RFC3339 :: "bool \<Rightarrow> Time \<Rightarrow> string" where
  "format_RFC3339 nanos t = date_text (wall_days t) @ ''T'' @ clock_text (wall_secs t) @
     (if nanos then nanos_text (nanosecond t) else []) @ zone_text (tm_offset t)"

text \<open>\<^verbatim>\<open>MarshalJSON\<close>: \<^term>\<open>None\<close> when the year has not four digits or the offset a whole day.\<close>

definition time_text :: "Time \<Rightarrow> string option" where
  "time_text t =
     (let (y, m, d) = date_of_days (wall_days t) in
      if y < 0 \<or> y > 9999 then None
      else if nat \<bar>tm_offset t\<bar> div 3600 \<ge> 24 then None
      else Some (format_RFC3339 True t))"

section \<open>Parsing\<close>

definition parse_num :: "string \<Rightarrow> nat \<Rightarrow> nat \<Rightarrow> nat option" where
  "parse_num s lo hi = (if list_all is_digit s \<and> lo \<le> nat_of_dec s \<and> nat_of_dec s \<le> hi then Some (nat_of_dec s) else None)"

definition slice :: "nat \<Rightarrow> nat \<Rightarrow> string \<Rightarrow> string" where
  "slice i j s = take (j - i) (drop i s)"

definition parse_date :: "string \<Rightarrow> int option" where
  "parse_date s =
     (case (parse_num (slice 0 4 s) 0 9999, parse_num (slice 5 7 s) 1 12) of
        (Some y, Some m) \<Rightarrow>
          (case parse_num (slice 8 10 s) 1 (daysIn m y) of
             Some d \<Rightarrow> if s ! 4 = CHR ''-'' \<and> s ! 7 = CHR ''-'' then Some (days_of_date (int y) m d) else None
           | None \<Rightarrow> None)
      | _ \<Rightarrow> None)"

definition parse_clock :: "string \<Rightarrow> nat option" where
  "parse_clock s =
     (case (parse_num (slice 0 2 s) 0 23, parse_num (slice 3 5 s) 0 59, parse_num (slice 6 8 s) 0 59) of
        (Some h, Some m, Some sec) \<Rightarrow> if s ! 2 = CHR '':'' \<and> s ! 5 = CHR '':'' then Some (h * 3600 + m * 60 + sec) else None
      | _ \<Rightarrow> None)"

text \<open>The digits of a fraction: nine of them count.\<close>

definition parse_nanos :: "string \<Rightarrow> nat \<times> string" where
  "parse_nanos s =
     (if length s \<ge> 2 \<and> s ! 0 = CHR ''.'' \<and> is_digit (s ! 1) then
        let ds = takeWhile is_digit (tl s); k = take 9 ds in (nat_of_dec k * 10 ^ (9 - length k), dropWhile is_digit (tl s))
      else (0, s))"

definition parse_zone :: "string \<Rightarrow> int option" where
  "parse_zone s =
     (if s = ''Z'' then Some 0
      else if length s \<noteq> 6 then None
      else (case (parse_num (slice 1 3 s) 0 23, parse_num (slice 4 6 s) 0 59) of
          (Some h, Some m) \<Rightarrow>
            if s ! 0 \<in> {CHR ''-'', CHR ''+''} \<and> s ! 3 = CHR '':''
            then Some (let z = int ((h * 60 + m) * 60) in if s ! 0 = CHR ''-'' then - z else z) else None
        | _ \<Rightarrow> None))"

definition parse_RFC3339 :: "string \<Rightarrow> Time option" where
  "parse_RFC3339 s =
     (if length s < 19 then None
      else (case (parse_date (take 10 s), parse_clock (slice 11 19 s)) of
          (Some n, Some sec) \<Rightarrow>
            if s ! 10 \<noteq> CHR ''T'' then None
            else let (ns, rest) = parse_nanos (drop 19 s) in
              (case parse_zone rest of
                 None \<Rightarrow> None
               | Some off \<Rightarrow>
                   Some \<lparr>tm_unixNano = ((n - unix_days) * 86400 + int sec - off) * giga + int ns, tm_offset = off\<rparr>)
        | _ \<Rightarrow> None))"

section \<open>The calendar is consistent\<close>

lemma leap_mod: "leap (y mod 400) = leap y"
proof -
  have "(4 :: nat) dvd 400" "(100 :: nat) dvd 400" by simp_all
  then show ?thesis by (simp add: leap_def mod_mod_cancel)
qed

lemma daysIn_mod: "daysIn m (y mod 400) = daysIn m y"
  by (simp add: daysIn_def leap_mod)

lemma ceil_div_step: "0 < k \<Longrightarrow> (Suc y + (k - 1)) div k = (y + (k - 1)) div k + (if y mod k = 0 then 1 else 0)"
proof -
  assume k: "0 < (k :: nat)"
  have y: "y = y div k * k + y mod k" by simp
  have "(Suc y + (k - 1)) div k = y div k + 1" using k by simp
  moreover have "(y + (k - 1)) div k = y div k + (y mod k + (k - 1)) div k"
    using k div_mult_self3 [of k "y div k" "y mod k + (k - 1)"] y by (simp add: add.assoc [symmetric] del: div_mult_self3)
  moreover have "(y mod k + (k - 1)) div k = (if y mod k = 0 then 0 else 1)"
  proof (cases "y mod k = 0")
    case False
    then obtain j where "y mod k = Suc j" by (cases "y mod k") simp_all
    moreover from this have "j < k" using mod_less_divisor [OF k, of y] by simp
    ultimately show ?thesis using k by simp
  qed (use k in simp)
  ultimately show ?thesis by simp
qed

lemma days_before_year_closed:
  "days_before_year y + (y + 99) div 100 = 365 * y + (y + 3) div 4 + (y + 399) div 400"
proof (induction y)
  case (Suc y)
  have m: "y mod 400 = 0 \<Longrightarrow> y mod 100 = 0" "y mod 100 = 0 \<Longrightarrow> y mod 4 = 0" by presburger+
  show ?case
    using Suc ceil_div_step [of 4 y] ceil_div_step [of 100 y] ceil_div_step [of 400 y] m
    by (auto simp: year_days_def leap_def split: if_splits)
qed simp

lemma days_before_cycle: "days_before_year 400 = 146097"
  using days_before_year_closed [of 400] by simp

lemma days_before_year_mono: "y \<le> y' \<Longrightarrow> days_before_year y \<le> days_before_year y'"
  by (induction rule: dec_induct) simp_all

lemma find_year_inv:
  "find_year y d = (y', d') \<Longrightarrow> days_before_year y' + d' = days_before_year y + d \<and> d' < year_days y'"
proof (induction y d rule: find_year.induct)
  case (1 y d)
  then show ?case by (cases "d < year_days y") (auto simp: find_year.simps [of y d])
qed

lemma find_month_inv:
  assumes "find_month y [m ..< 13] d = (m', d')" "d < sum_list (map (\<lambda>i. daysIn i y) [m ..< 13])" "1 \<le> m"
  shows "days_before_month m' y + d' = days_before_month m y + d \<and> d' < daysIn m' y \<and> m \<le> m' \<and> m' \<le> 12"
  using assms
proof (induction "13 - m" arbitrary: m d)
  case (Suc k)
  then have m: "m < 13" by simp
  have b: "days_before_month (Suc m) y = days_before_month m y + daysIn m y" using Suc.prems(3) by (simp add: days_before_month_def)
  show ?case
  proof (cases "d < daysIn m y")
    case False
    then have "find_month y [Suc m ..< 13] (d - daysIn m y) = (m', d')"
      "d - daysIn m y < sum_list (map (\<lambda>i. daysIn i y) [Suc m ..< 13])"
      using Suc.prems(1,2) m by (simp_all add: upt_conv_Cons)
    moreover have "k = 13 - Suc m" using Suc.hyps(2) by simp
    ultimately have "days_before_month m' y + d' = days_before_month (Suc m) y + (d - daysIn m y) \<and> d' < daysIn m' y \<and> Suc m \<le> m' \<and> m' \<le> 12"
      by (intro Suc.hyps(1)) simp_all
    then show ?thesis using b False by simp
  qed (use Suc.prems m in \<open>simp add: upt_conv_Cons\<close>)
qed simp

lemma months_of_year: "sum_list (map (\<lambda>i. daysIn i y) [1 ..< 13]) = year_days y"
  by (simp add: daysIn_def year_days_def upt_conv_Cons)

lemma date_of_days:
  assumes "date_of_days n = (y, m, d)"
  shows "days_of_date y m d = n" and "1 \<le> m" "m \<le> 12" "1 \<le> d" "d \<le> daysIn m (nat (y mod 400))"
proof -
  let ?r = "nat (n mod 146097)"
  obtain y0 d0 where y0: "find_year 0 ?r = (y0, d0)" by fastforce
  obtain m0 d1 where m0: "find_month y0 [1 ..< 13] d0 = (m0, d1)" by fastforce
  have e: "y = 400 * (n div 146097) + int y0" "m = m0" "d = Suc d1" using assms 
    by (simp_all add: date_of_days_def y0 m0 del: One_nat_def)
  have Y: "days_before_year y0 + d0 = ?r" "d0 < year_days y0" using find_year_inv [OF y0] by simp_all
  have M: "days_before_month m0 y0 + d1 = d0" "d1 < daysIn m0 y0" "1 \<le> m0" "m0 \<le> 12"
    using find_month_inv [OF m0] Y(2) months_of_year [of y0] by (simp_all add: days_before_month_def)
  have r: "?r < 146097" "int ?r = n mod 146097" by simp_all
  have "y0 < 400"
  proof (rule ccontr)
    assume "\<not> y0 < 400"
    then have "days_before_year 400 \<le> days_before_year y0" by (intro days_before_year_mono) simp
    then show False using Y(1) r(1) by (simp add: days_before_cycle)
  qed
  then have c: "nat (y mod 400) = y0" "y div 400 = n div 146097" by (simp_all add: e)
  have "int (days_before_year y0 + days_before_month m0 y0 + (d - 1)) = n mod 146097" using Y(1) M(1) r(2) by (simp add: e)
  then show "days_of_date y m d = n" by (simp add: days_of_date_def Let_def c e(2))
  show "1 \<le> m" "m \<le> 12" "1 \<le> d" "d \<le> daysIn m (nat (y mod 400))" using M c(1) e by simp_all
qed

section \<open>Times read back\<close>

lemma slice_append: "length xs = i \<Longrightarrow> length xs + length ys = j \<Longrightarrow> slice i j (xs @ ys @ zs) = ys"
  by (auto simp: slice_def)

lemma appendInt_digits:
  assumes "i < 10 ^ w" "0 < w"
  shows "length (appendInt w (int i)) = w" "list_all is_digit (appendInt w (int i))" "nat_of_dec (appendInt w (int i)) = i"
  using dec_of_nat_length [OF assms] dec_of_nat_digits [of i]
  by (auto simp: appendInt_def pad_left_def nat_of_dec_lead nat_of_dec_of_nat list_all_iff is_digit_def)

lemma parse_num_appendInt:
  "i < 10 ^ w \<Longrightarrow> 0 < w \<Longrightarrow> lo \<le> i \<Longrightarrow> i \<le> hi \<Longrightarrow> parse_num (appendInt w (int i)) lo hi = Some i"
  by (simp add: parse_num_def appendInt_digits)

text \<open>Two-digit fields.\<close>

lemmas two = appendInt_digits(1) [of _ 2, simplified] parse_num_appendInt [of _ 2, simplified]

lemma parse_date_text:
  assumes "date_of_days n = (y, m, d)" "0 \<le> y" "y \<le> 9999"
  shows "parse_date (date_text n) = Some n" and "length (date_text n) = 10"
proof -
  obtain k where k: "y = int k" using assms(2) nonneg_int_cases by blast
  note D = date_of_days [OF assms(1)]
  have d: "d \<le> daysIn m k" using D(5) daysIn_mod [of m k] by (simp add: k nat_mod_distrib)
  have "daysIn m k \<le> 31" by (auto simp: daysIn_def)
  then have lt: "k < 10 ^ 4" "m < 100" "d < 100" using assms(3) D(3) d by (simp_all add: k)
  define Y where "Y = appendInt 4 y"
  define Mo where "Mo = appendInt 2 (int m)"
  define Da where "Da = appendInt 2 (int d)"
  have len: "length Y = 4" "length Mo = 2" "length Da = 2"
    using lt two(1) appendInt_digits(1) [OF lt(1)] by (simp_all add: Y_def Mo_def Da_def k)
  have t: "date_text n = Y @ ''-'' @ Mo @ ''-'' @ Da" by (simp add: date_text_def assms(1) Y_def Mo_def Da_def)
  show "length (date_text n) = 10" by (simp add: t len)
  have s: "slice 0 4 (date_text n) = Y" "slice 5 7 (date_text n) = Mo" "slice 8 10 (date_text n) = Da"
    using slice_append [of "[]" 0 Y 4 "''-'' @ Mo @ ''-'' @ Da"] slice_append [of "Y @ ''-''" 5 Mo 7 "''-'' @ Da"]
      slice_append [of "Y @ ''-'' @ Mo @ ''-''" 8 Da 10 "[]"] len by (simp_all add: t)
  have p: "parse_num Y 0 9999 = Some k" "parse_num Mo 1 12 = Some m" "parse_num Da 1 (daysIn m k) = Some d"
    using lt D d assms(3) two(2) parse_num_appendInt [OF lt(1)] by (simp_all add: Y_def Mo_def Da_def k)
  have c: "date_text n ! 4 = CHR ''-''" "date_text n ! 7 = CHR ''-''"
    using nth_append_length [of Y "CHR ''-''" "Mo @ ''-'' @ Da"] nth_append_length [of "Y @ ''-'' @ Mo" "CHR ''-''" Da] len by (simp_all add: t)
  show "parse_date (date_text n) = Some n"
    unfolding parse_date_def s p using c D(1) p(3) by (simp add: k)
qed

lemma parse_clock_text:
  assumes "s < 86400"
  shows "parse_clock (clock_text s) = Some s" and "length (clock_text s) = 8"
proof -
  define H where "H = appendInt 2 (int (s div 3600))"
  define Mi where "Mi = appendInt 2 (int (s mod 3600 div 60))"
  define S where "S = appendInt 2 (int (s mod 60))"
  have lt: "s div 3600 \<le> 23" "s mod 3600 div 60 \<le> 59" "s mod 60 \<le> 59"
    using assms mod_less_divisor [of 3600 s] mod_less_divisor [of 60 s] by auto
  then have len: "length H = 2" "length Mi = 2" "length S = 2" using two(1) by (simp_all add: H_def Mi_def S_def)
  have p: "parse_num H 0 23 = Some (s div 3600)" "parse_num Mi 0 59 = Some (s mod 3600 div 60)" "parse_num S 0 59 = Some (s mod 60)"
    using lt two(2) by (simp_all add: H_def Mi_def S_def)
  have t: "clock_text s = H @ '':'' @ Mi @ '':'' @ S" by (simp add: clock_text_def H_def Mi_def S_def)
  show "length (clock_text s) = 8" by (simp add: t len)
  have sl: "slice 0 2 (clock_text s) = H" "slice 3 5 (clock_text s) = Mi" "slice 6 8 (clock_text s) = S"
    using slice_append [of "[]" 0 H 2 "'':'' @ Mi @ '':'' @ S"] slice_append [of "H @ '':''" 3 Mi 5 "'':'' @ S"]
      slice_append [of "H @ '':'' @ Mi @ '':''" 6 S 8 "[]"] len by (simp_all add: t)
  have c: "clock_text s ! 2 = CHR '':''" "clock_text s ! 5 = CHR '':''"
    using nth_append_length [of H "CHR '':''" "Mi @ '':'' @ S"] nth_append_length [of "H @ '':'' @ Mi" "CHR '':''" S] len by (simp_all add: t)
  have "s mod 3600 mod 60 = s mod 60" by (rule mod_mod_cancel) simp
  then have "s div 3600 * 3600 + s mod 3600 div 60 * 60 + s mod 60 = s"
    using div_mult_mod_eq [of s 3600] div_mult_mod_eq [of "s mod 3600" 60] by linarith
  then show "parse_clock (clock_text s) = Some s" unfolding parse_clock_def sl p using c by simp
qed

lemma zone_text_hd: "zone_text off \<noteq> []" "hd (zone_text off) \<in> {CHR ''Z'', CHR ''-'', CHR ''+''}"
  by (simp_all add: zone_text_def Let_def)

lemma parse_nanos_text:
  assumes "n < 1000000000"
  shows "parse_nanos (nanos_text n @ zone_text off) = (n, zone_text off)"
proof -
  define ds where "ds = frac_digits 9 n"
  have fd: "list_all is_digit ds" "length ds \<le> 9" "nat_of_dec ds * 10 ^ (9 - length ds) = n"
    using frac_digits [of 9 n, folded ds_def] assms by simp_all
  obtain z r where z: "zone_text off = z # r" "\<not> is_digit z" "z \<noteq> CHR ''.''"
    using zone_text_hd [of off] by (cases "zone_text off") (auto simp: is_digit_def)
  have t: "nanos_text n = (if ds = [] then [] else CHR ''.'' # ds)" by (simp add: nanos_text_def ds_def Let_def)
  show ?thesis
  proof (cases "ds = []")
    case True
    then have "nanos_text n = []" "n = 0" using fd(3) t by (simp_all add: nat_of_dec_def)
    then show ?thesis using z by (simp add: parse_nanos_def)
  next
    case False
    have "takeWhile is_digit (ds @ z # r) = ds" "dropWhile is_digit (ds @ z # r) = z # r"
      using fd(1) z(2) by (auto simp: list_all_iff)
    moreover have "is_digit (ds ! 0)" using fd(1) False by (cases ds) simp_all
    ultimately show ?thesis
      using fd z False by (cases ds) (simp_all add: t Let_def parse_nanos_def)
  qed
qed

lemma parse_zone_text:
  assumes "60 dvd off" "\<bar>off\<bar> < 86400"
  shows "parse_zone (zone_text off) = Some off"
proof (cases "off = 0")
  case False
  define z where "z = nat \<bar>off\<bar> div 60"
  define H where "H = appendInt 2 (int (z div 60))"
  define M where "M = appendInt 2 (int (z mod 60))"
  define sg where "sg = (if off < 0 then CHR ''-'' else CHR ''+'')"
  have "60 dvd nat \<bar>off\<bar>" using assms(1) by (metis dvd_abs_iff int_dvd_int_iff int_nat_eq abs_ge_zero of_nat_numeral)
  then have z: "z * 60 = nat \<bar>off\<bar>" by (simp add: z_def)
  then have pos: "0 < z" "z < 1440" using False assms(2) by linarith+
  then have lt: "z div 60 \<le> 23" "z mod 60 \<le> 59" by auto
  then have len: "length H = 2" "length M = 2" using two(1) by (simp_all add: H_def M_def)
  have p: "parse_num H 0 23 = Some (z div 60)" "parse_num M 0 59 = Some (z mod 60)" using lt two(2) by (simp_all add: H_def M_def)
  have t: "zone_text off = [sg] @ H @ '':'' @ M"
    using False pos by (simp add: zone_text_def z_def [symmetric] H_def M_def sg_def)
  have sl: "slice 1 3 (zone_text off) = H" "slice 4 6 (zone_text off) = M"
    using slice_append [of "[sg]" 1 H 3 "'':'' @ M"] slice_append [of "[sg] @ H @ '':''" 4 M 6 "[]"] len by (simp_all add: t)
  have c: "zone_text off ! 3 = CHR '':''" "zone_text off ! 0 = sg" "length (zone_text off) = 6"
    using nth_append_length [of "[sg] @ H" "CHR '':''" M] len by (simp_all add: t)
  have "int ((z div 60 * 60 + z mod 60) * 60) = \<bar>off\<bar>" using z by simp
  then show ?thesis unfolding parse_zone_def sl p using c by (auto simp: sg_def)
qed (simp add: zone_text_def parse_zone_def)

definition time_ok :: "Time \<Rightarrow> bool" where
  "time_ok t \<longleftrightarrow> 0 \<le> fst (date_of_days (wall_days t)) \<and> fst (date_of_days (wall_days t)) \<le> 9999 \<and>
     tm_offset t mod 60 = 0 \<and> \<bar>tm_offset t\<bar> < 86400"

lemma parse_time_text:
  assumes "time_ok t"
  shows "\<exists>s. time_text t = Some s \<and> parse_RFC3339 s = Some t"
proof -
  obtain y m d where dt: "date_of_days (wall_days t) = (y, m, d)" by (cases "date_of_days (wall_days t)")
  define D where "D = date_text (wall_days t)"
  define C where "C = clock_text (wall_secs t)"
  define N where "N = nanos_text (nanosecond t) @ zone_text (tm_offset t)"
  let ?s = "D @ ''T'' @ C @ N"
  have y: "0 \<le> y" "y \<le> 9999" and off: "60 dvd tm_offset t" "\<bar>tm_offset t\<bar> < 86400"
    using assms dt by (auto simp: time_ok_def dvd_eq_mod_eq_0)
  have f: "time_text t = Some ?s" using y off dt by (simp add: time_text_def format_RFC3339_def D_def C_def N_def)
  have D: "parse_date D = Some (wall_days t)" "length D = 10" using parse_date_text [OF dt y] by (simp_all add: D_def)
  have "wall_secs t < 86400" by (simp add: wall_secs_def nat_less_iff)
  then have C: "parse_clock C = Some (wall_secs t)" "length C = 8" using parse_clock_text by (simp_all add: C_def)
  have sl: "take 10 ?s = D" "slice 11 19 ?s = C" "drop 19 ?s = N" "?s ! 10 = CHR ''T''" "\<not> length ?s < 19"
    using D(2) C(2) slice_append [of "D @ ''T''" 11 C 19 N] nth_append_length [of D "CHR ''T''" "C @ N"] by simp_all
  have n: "parse_nanos N = (nanosecond t, zone_text (tm_offset t))"
    unfolding N_def by (rule parse_nanos_text) (simp add: nanosecond_def nat_less_iff)
  let ?w = "tm_unixNano t div giga + tm_offset t"
  have "(wall_days t - unix_days) * 86400 + int (wall_secs t) = ?w" by (simp add: wall_days_def wall_secs_def)
  then have "((wall_days t - unix_days) * 86400 + int (wall_secs t) - tm_offset t) * giga + int (nanosecond t) = tm_unixNano t"
    by (simp add: nanosecond_def)
  then have "parse_RFC3339 ?s = Some t"
    unfolding parse_RFC3339_def sl n using D(1) C(1) sl(4,5) parse_zone_text [OF off] by (simp add: sl n)
  with f show ?thesis by blast
qed

end
