(* ===== verification/Bench_Load.thy ===== *)
theory Bench_Load
  imports Bench_Stats Bench_Scenarios Go_Time
begin

text \<open>
  \<^verbatim>\<open>bench/load.go\<close>: what \<^verbatim>\<open>Run\<close> makes of the requests of its workers. A sample is one turn of a
  worker's loop: which worker, when it started, what the step gave, how long it took, and
  whether the run had been cancelled when the worker looked. The samples of all workers come in
  the order in which they are recorded; the scheduler, the clock and the scenario decide them.
  The runtime system and the clock are parameters.
\<close>

section \<open>Scenarios\<close>

text \<open>The three implementations of the interface \<^verbatim>\<open>Scenario\<close>.\<close>

datatype scenario = SWrite WriteOnly | SRead ReadOnly | SMixed Mixed

definition sc_Name :: "scenario \<Rightarrow> string" where
  "sc_Name sc = (case sc of SWrite _ \<Rightarrow> ''write_only'' | SRead _ \<Rightarrow> ''read_only'' | SMixed m \<Rightarrow> mx_Name m)"

definition sc_Setup :: "http_client \<Rightarrow> (int \<Rightarrow> nat \<Rightarrow> nat) \<Rightarrow> scenario \<Rightarrow> err option option" where
  "sc_Setup H rnd sc = (case sc of SWrite _ \<Rightarrow> Some None | SRead r \<Rightarrow> ro_Setup H rnd r | SMixed m \<Rightarrow> mx_Setup H rnd m)"

definition sc_Step :: "http_client \<Rightarrow> scenario \<Rightarrow> ((err + nat) \<times> scenario) option" where
  "sc_Step H sc = (case sc of
      SWrite w \<Rightarrow> map_option (\<lambda>(x, w). (x, SWrite w)) (wo_Step H w)
    | SRead r \<Rightarrow> map_option (\<lambda>(x, r). (x, SRead r)) (ro_Step H r)
    | SMixed m \<Rightarrow> map_option (\<lambda>(x, m). (x, SMixed m)) (mx_Step H m))"

text \<open>\<^verbatim>\<open>Teardown\<close> has nothing to release and gives no error.\<close>

definition sc_Teardown :: "scenario \<Rightarrow> err option" where
  "sc_Teardown sc = (case sc of SWrite _ \<Rightarrow> None | SRead _ \<Rightarrow> None | SMixed _ \<Rightarrow> None)"

section \<open>Configuration\<close>

record LoadConfig =
  ld_Concurrency :: int
  ld_Duration :: int
  ld_WarmUp :: int
  ld_RPSCap :: int

definition load_defaults :: "LoadConfig \<Rightarrow> LoadConfig" where
  "load_defaults lc =
     (let lc = (if ld_Concurrency lc \<le> 0 then lc\<lparr>ld_Concurrency := 1\<rparr> else lc) in
      if ld_Duration lc \<le> 0 then lc\<lparr>ld_Duration := 10 * second\<rparr> else lc)"

text \<open>The interval of the shared ticker, if there is one.\<close>

definition tick_interval :: "int \<Rightarrow> int option" where
  "tick_interval cap = (if cap > 0 then (let i = second div cap in Some (if i \<le> 0 then 1 else i)) else None)"

section \<open>Accounting\<close>

record sample =
  sm_worker :: nat
  sm_t0 :: int
  sm_result :: "err + nat"
  sm_lat :: int
  sm_cancelled :: bool

record run_state =
  rn_hists :: "Hist list"
  rn_counters :: Counters

definition sample_code :: "sample \<Rightarrow> int" where
  "sample_code x = (case sm_result x of Inl e \<Rightarrow> 0 | Inr status \<Rightarrow> int status)"

text \<open>Samples of the warm-up and errors of requests that the end of the run aborted are dropped.\<close>

definition kept :: "int \<Rightarrow> sample \<Rightarrow> bool" where
  "kept measureStart x \<longleftrightarrow> \<not> sm_t0 x < measureStart \<and> \<not> ((\<exists>e. sm_result x = Inl e) \<and> sm_cancelled x)"

definition record_sample :: "int \<Rightarrow> run_state \<Rightarrow> sample \<Rightarrow> run_state" where
  "record_sample measureStart st x =
     (if sm_t0 x < measureStart then st
      else if isl (sm_result x) \<and> sm_cancelled x then st
      else let w = sm_worker x in
        \<lparr>rn_hists = (rn_hists st)[w := hist_Observe (rn_hists st ! w) (sm_lat x)],
         rn_counters = AddStatus (rn_counters st) (sample_code x)\<rparr>)"

text \<open>The environment record of \<^verbatim>\<open>bench/env.go\<close>, and what it is made from.\<close>

record Env =
  en_Timestamp :: Time
  en_Go :: string
  en_GOOS :: string
  en_GOARCH :: string
  en_NumCPU :: int
  en_GOMAXPROCS :: int
  en_Hostname :: string
  en_PaladinBuild :: string

record runtime_info =
  ri_Version :: string
  ri_GOOS :: string
  ri_GOARCH :: string
  ri_NumCPU :: int
  ri_GOMAXPROCS :: int
  ri_Hostname :: "err + string"
  ri_Getenv :: "string \<Rightarrow> string"

definition CollectEnv :: "runtime_info \<Rightarrow> Time \<Rightarrow> Env" where
  "CollectEnv ri now =
     (let host = (case ri_Hostname ri of Inl e \<Rightarrow> [] | Inr h \<Rightarrow> h) in
      \<lparr>en_Timestamp = now, en_Go = ri_Version ri, en_GOOS = ri_GOOS ri, en_GOARCH = ri_GOARCH ri,
        en_NumCPU = ri_NumCPU ri, en_GOMAXPROCS = ri_GOMAXPROCS ri, en_Hostname = host,
        en_PaladinBuild = ri_Getenv ri ''PALADIN_BUILD''\<rparr>)"

text \<open>The readings of the clock, in nanoseconds since 1970, and the local zone.\<close>

record run_times =
  rt_zone :: "int \<Rightarrow> int"
  rt_startedAt :: int
  rt_endedAt :: int
  rt_envAt :: int

record Result =
  rs_Scenario :: string
  rs_StartedAt :: Time
  rs_Duration :: int
  rs_Concurrency :: int
  rs_RPSCap :: int
  rs_Count :: u64
  rs_Errors :: u64
  rs_StatusClass :: "u64 list"
  rs_RPS :: rat
  rs_Latency :: Snapshot
  rs_Env :: Env

text \<open>\<^verbatim>\<open>Duration.Seconds\<close> of a non-negative duration.\<close>

definition Seconds :: "int \<Rightarrow> rat" where
  "Seconds d = float64 (float64 (of_int (d div second)) + float64 (of_int (d mod second) / 1000000000))"

definition run_start :: "LoadConfig \<Rightarrow> run_state" where
  "run_start lc = \<lparr>rn_hists = replicate (nat (ld_Concurrency lc)) NewHist, rn_counters = zeroCounters\<rparr>"

definition merge_all :: "Hist list \<Rightarrow> Hist" where
  "merge_all hs = foldl (\<lambda>total h. hist_Merge total (Some h)) NewHist hs"

text \<open>What the main goroutine makes of the histograms and counters at the end; \<open>lc\<close> has its defaults.\<close>

definition run_result :: "string \<Rightarrow> runtime_info \<Rightarrow> run_times \<Rightarrow> LoadConfig \<Rightarrow> run_state \<Rightarrow> Result" where
  "run_result name ri tms lc st =
     (let measureStart = rt_startedAt tms + ld_WarmUp lc;
          actualDur = (if rt_endedAt tms - measureStart \<le> 0 then ld_Duration lc else rt_endedAt tms - measureStart);
          total = merge_all (rn_hists st) in
      \<lparr>rs_Scenario = name, rs_StartedAt = in_zone (rt_zone tms) measureStart, rs_Duration = actualDur,
       rs_Concurrency = ld_Concurrency lc, rs_RPSCap = ld_RPSCap lc, rs_Count = hist_Count total,
       rs_Errors = counters_Err (rn_counters st), rs_StatusClass = ByClass (rn_counters st),
       rs_RPS = float64 (float64 (of_nat (unat (hist_Count total))) / Seconds actualDur),
       rs_Latency = hist_Snapshot total, rs_Env = CollectEnv ri (in_zone (rt_zone tms) (rt_envAt tms))\<rparr>)"

definition Run :: "string \<Rightarrow> runtime_info \<Rightarrow> run_times \<Rightarrow> err option \<Rightarrow> LoadConfig \<Rightarrow> sample list \<Rightarrow> err + Result" where
  "Run name ri tms setup lc0 samples =
     (let lc = load_defaults lc0 in
      (case setup of Some e \<Rightarrow> Inl (Wrap ''scenario setup'' e)
       | None \<Rightarrow> Inr (run_result name ri tms lc
           (foldl (record_sample (rt_startedAt tms + ld_WarmUp lc)) (run_start lc) samples))))"

section \<open>Properties\<close>

text \<open>A histogram does not depend on the order of its samples.\<close>

lemma Observe_commute:
  assumes "hist_ok h"
  shows "hist_Observe (hist_Observe h x) y = hist_Observe (hist_Observe h y) x"
proof -
  let ?i = "bucket_index h (clamp x)" and ?j = "bucket_index h (clamp y)"
  have i: "bucket_index (hist_Observe h z) d = bucket_index h d" for z d
    using assms by (intro bucket_index_cong) simp_all
  have "h_buckets (hist_Observe (hist_Observe h x) y) = h_buckets (hist_Observe (hist_Observe h y) x)"
    using bucket_index_lt [OF assms, of "clamp x"] bucket_index_lt [OF assms, of "clamp y"] assms
    by (cases "?i = ?j") (simp_all add: hist_Observe_sel i hist_ok_def list_update_swap)
  then show ?thesis
    by (intro Hist.equality) (simp_all add: hist_Observe_sel i min.left_commute max.left_commute)
qed

lemma foldl_Observe_ok: "hist_ok h \<Longrightarrow> hist_ok (foldl hist_Observe h xs)"
  by (induction xs arbitrary: h) simp_all

lemma Observe_into: "hist_ok h \<Longrightarrow> foldl hist_Observe (hist_Observe h x) xs = hist_Observe (foldl hist_Observe h xs) x"
  by (induction xs arbitrary: h) (simp_all add: Observe_commute)

lemma hist_of_Cons: "hist_of (x # xs) = hist_Observe (hist_of xs) x"
  using Observe_into [OF hist_ok_of [of "[]"], of x xs] by (simp add: hist_of_def)

lemma hist_of_mset: "mset xs = mset ys \<Longrightarrow> hist_of xs = hist_of ys"
proof (induction xs arbitrary: ys)
  case (Cons x xs)
  then obtain as bs where ys: "ys = as @ x # bs" by (metis list.set_intros(1) mset_eq_setD split_list)
  then have "mset xs = mset (as @ bs)" using Cons.prems by simp
  then have "hist_of xs = hist_of (as @ bs)" by (rule Cons.IH)
  moreover have "hist_of ys = hist_Observe (hist_of (as @ bs)) x"
    unfolding ys using Observe_into [OF foldl_Observe_ok [OF hist_ok_of [of "[]"], of as], of x bs]
    by (simp add: hist_of_def)
  ultimately show ?case by (simp add: hist_of_Cons)
qed simp

text \<open>What the workers have recorded: each histogram holds the kept latencies of its worker.\<close>

definition latencies :: "int \<Rightarrow> nat \<Rightarrow> sample list \<Rightarrow> int list" where
  "latencies ms w xs = map sm_lat (filter (\<lambda>x. kept ms x \<and> sm_worker x = w) xs)"

lemma record_sample_dropped: "\<not> kept ms x \<Longrightarrow> record_sample ms st x = st"
  by (auto simp: record_sample_def kept_def isl_def)

lemma record_sample_kept:
  "kept ms x \<Longrightarrow> record_sample ms st x =
    \<lparr>rn_hists = (rn_hists st)[sm_worker x := hist_Observe (rn_hists st ! sm_worker x) (sm_lat x)],
     rn_counters = AddStatus (rn_counters st) (sample_code x)\<rparr>"
  by (auto simp: record_sample_def kept_def isl_def Let_def)

lemma record_samples:
  assumes "\<forall>x \<in> set xs. sm_worker x < n"
  shows "foldl (record_sample ms) \<lparr>rn_hists = replicate n NewHist, rn_counters = zeroCounters\<rparr> xs =
    \<lparr>rn_hists = map (\<lambda>w. hist_of (latencies ms w xs)) [0 ..< n],
     rn_counters = counters_of (map sample_code (filter (kept ms) xs))\<rparr>"
  using assms
proof (induction xs rule: rev_induct)
  case Nil
  then show ?case by (simp add: latencies_def counters_of_def map_replicate_const)
next
  case (snoc x xs)
  then have IH: "foldl (record_sample ms) \<lparr>rn_hists = replicate n NewHist, rn_counters = zeroCounters\<rparr> xs =
    \<lparr>rn_hists = map (\<lambda>w. hist_of (latencies ms w xs)) [0 ..< n],
     rn_counters = counters_of (map sample_code (filter (kept ms) xs))\<rparr>" and w: "sm_worker x < n" by auto
  show ?case
  proof (cases "kept ms x")
    case True
    have "(map (\<lambda>w. hist_of (latencies ms w xs)) [0 ..< n])[sm_worker x := hist_Observe (hist_of (latencies ms (sm_worker x) xs)) (sm_lat x)]
        = map (\<lambda>w. hist_of (latencies ms w (xs @ [x]))) [0 ..< n]"
      using True w by (intro nth_equalityI) (auto simp: nth_list_update latencies_def)
    then show ?thesis
      using True w by (simp add: IH record_sample_kept counters_of_def)
  next
    case False
    then show ?thesis by (simp add: IH record_sample_dropped latencies_def)
  qed
qed

lemma merge_all_of:
  assumes "\<forall>l \<in> set ls. length l < 2 ^ 64"
  shows "merge_all (map hist_of ls) = hist_of (concat ls)"
  using assms
proof (induction ls rule: rev_induct)
  case Nil
  then show ?case by (simp add: merge_all_def)
next
  case (snoc l ls)
  then show ?case using merge_is_union [of l "concat ls"] by (simp add: merge_all_def)
qed

lemma mset_by_worker:
  "\<forall>x \<in> set xs. sm_worker x < n \<Longrightarrow>
    mset (concat (map (\<lambda>w. latencies ms w xs) [0 ..< n])) = mset (map sm_lat (filter (kept ms) xs))"
proof (induction xs)
  case Nil
  have "concat (map (\<lambda>w. []) [0 ..< n]) = ([] :: int list)" by (induction n) simp_all
  then show ?case by (simp add: latencies_def)
next
  case (Cons x xs)
  have step: "latencies ms w (x # xs) = (if kept ms x \<and> sm_worker x = w then [sm_lat x] else []) @ latencies ms w xs" for w
    by (simp add: latencies_def)
  have "mset (concat (map (\<lambda>w. (if b \<and> k = w then [y] else []) @ f w) [0 ..< n]))
      = (if b \<and> k < n then {#y#} else {#}) + mset (concat (map f [0 ..< n]))" for b k and y :: int and f
    by (induction n) (auto simp: less_Suc_eq)
  then show ?case using Cons unfolding step by auto
qed

text \<open>The classes of the counters partition the responses.\<close>

lemma length_by_class: "\<forall>c \<in> set cs. f c < (m :: nat) \<Longrightarrow> (\<Sum>i<m. length (filter (\<lambda>c. f c = i) cs)) = length cs"
proof (induction cs)
  case (Cons c cs)
  have "(\<Sum>i<m. length (filter (\<lambda>c. f c = i) (c # cs))) = (\<Sum>i<m. (if f c = i then 1 else 0) + length (filter (\<lambda>c. f c = i) cs))"
    by (intro sum.cong) simp_all
  moreover have "(\<Sum>i<m. if f c = i then 1 else 0) = (1 :: nat)" using Cons.prems sum.delta' [of "{..<m}" "f c" "\<lambda>_. 1 :: nat"] by simp
  ultimately show ?case using Cons by (simp add: sum.distrib)
qed simp

lemma ByClass_sum: "sum_list (ByClass (counters_of codes)) = of_nat (length codes)"
proof -
  define f where "f c = (if 0 < c \<and> c < 600 then nat (c div 100) else 0)" for c :: int
  have "\<forall>c \<in> set codes. f c < 6" by (auto simp: f_def)
  from length_by_class [OF this] have "of_nat (length codes) = (\<Sum>i<6. of_nat (length (filter (\<lambda>c. f c = i) codes)) :: u64)"
    by (metis of_nat_sum)
  also have "\<dots> = (\<Sum>i<6. ct_status (counters_of codes) ! i)"
    using counters_add_up [of codes] unfolding f_def by (intro sum.cong) auto
  also have "\<dots> = sum_list (ByClass (counters_of codes))"
    by (simp add: ByClass_def interv_sum_list_conv_sum_set_nat atLeast0LessThan)
  finally show ?thesis by simp
qed

text \<open>A run accounts for every measured request once. However the requests of the workers
  interleave, the report of a run counts exactly the requests that started after the warm-up
  and were not aborted by its end; its latency figures are those of one histogram of all their
  latencies, although every worker has its own; its errors are those without an answer from 200
  to 399; and the status classes add up to the count.\<close>

lemma run_accounting:
  assumes "Run name ri tms None lc samples = Inr r" and "length samples < 2 ^ 64"
    and "\<forall>x \<in> set samples. int (sm_worker x) < rs_Concurrency r"
  defines "ks \<equiv> filter (kept (rt_startedAt tms + ld_WarmUp lc)) samples"
  shows "rs_Count r = of_nat (length ks) \<and> rs_Latency r = hist_Snapshot (hist_of (map sm_lat ks)) \<and>
    rs_Errors r = of_nat (length (filter (\<lambda>x. \<not> (200 \<le> sample_code x \<and> sample_code x < 400)) ks)) \<and>
    sum_list (rs_StatusClass r) = rs_Count r"
proof -
  let ?n = "nat (ld_Concurrency (load_defaults lc))" and ?ms = "rt_startedAt tms + ld_WarmUp lc"
  define st where "st = foldl (record_sample ?ms) (run_start (load_defaults lc)) samples"
  have ms: "ld_WarmUp (load_defaults lc) = ld_WarmUp lc" by (simp add: load_defaults_def Let_def)
  have r: "rs_Count r = h_count (merge_all (rn_hists st))" "rs_Latency r = hist_Snapshot (merge_all (rn_hists st))"
    "rs_Errors r = ct_err (rn_counters st)" "rs_StatusClass r = ByClass (rn_counters st)"
    "rs_Concurrency r = ld_Concurrency (load_defaults lc)"
    using assms(1) by (auto simp: Run_def run_result_def Let_def ms st_def hist_Count_def counters_Err_def)
  have "\<forall>x \<in> set samples. sm_worker x < ?n" using assms(3) by (auto simp: r(5))
  note w = this
  have st: "st = \<lparr>rn_hists = map (\<lambda>w. hist_of (latencies ?ms w samples)) [0 ..< ?n], rn_counters = counters_of (map sample_code ks)\<rparr>"
    unfolding st_def run_start_def ks_def by (rule record_samples [OF w])
  have "length (latencies ?ms w samples) \<le> length samples" for w
    unfolding latencies_def by (simp add: length_filter_le)
  then have "\<forall>l \<in> set (map (\<lambda>w. latencies ?ms w samples) [0 ..< ?n]). length l < 2 ^ 64"
    using assms(2) by (auto intro: le_less_trans)
  from merge_all_of [OF this] have "merge_all (rn_hists st) = hist_of (concat (map (\<lambda>w. latencies ?ms w samples) [0 ..< ?n]))"
    by (simp add: st comp_def)
  also have "\<dots> = hist_of (map sm_lat ks)" unfolding ks_def by (rule hist_of_mset [OF mset_by_worker [OF w]])
  finally have total: "merge_all (rn_hists st) = hist_of (map sm_lat ks)" .
  have "ct_err (counters_of (map sample_code ks)) = of_nat (length (filter (\<lambda>x. \<not> (200 \<le> sample_code x \<and> sample_code x < 400)) ks))"
    using counters_add_up [of "map sample_code ks"] by (simp add: filter_map comp_def)
  then show ?thesis using r total by (simp add: st hist_of_count ByClass_sum)
qed

definition demo_samples :: "sample list" where
  "demo_samples = [\<lparr>sm_worker = 0, sm_t0 = 5, sm_result = Inr 200, sm_lat = 7, sm_cancelled = False\<rparr>,
     \<lparr>sm_worker = 1, sm_t0 = 15, sm_result = Inr 503, sm_lat = 9, sm_cancelled = False\<rparr>,
     \<lparr>sm_worker = 0, sm_t0 = 16, sm_result = Inr 201, sm_lat = 8, sm_cancelled = False\<rparr>,
     \<lparr>sm_worker = 1, sm_t0 = 30, sm_result = Inl ErrJson, sm_lat = 3, sm_cancelled = True\<rparr>]"

definition demo_load :: LoadConfig where
  "demo_load = \<lparr>ld_Concurrency = 2, ld_Duration = 30, ld_WarmUp = 10, ld_RPSCap = 0\<rparr>"

definition demo_runtime :: runtime_info where
  "demo_runtime = \<lparr>ri_Version = ''go1.23'', ri_GOOS = ''linux'', ri_GOARCH = ''amd64'', ri_NumCPU = 4, ri_GOMAXPROCS = 4,
     ri_Hostname = Inr ''h'', ri_Getenv = (\<lambda>_. [])\<rparr>"

definition demo_times :: run_times where
  "demo_times = \<lparr>rt_zone = (\<lambda>_. 0), rt_startedAt = 0, rt_endedAt = 40, rt_envAt = 41\<rparr>"


end
