(* ===== verification/Bench_Workers.thy ===== *)
theory Bench_Workers
  imports Bench_Load
begin

text \<open>
  The goroutines of \<^verbatim>\<open>Run\<close> in \<^verbatim>\<open>bench/load.go\<close> as a step relation: the main goroutine, which opens the
  gate, waits for the end of the run, cancels it and waits for the workers; the workers with
  their loop; the ticker; and the outside (clock, interrupt). The counters are shared, every
  worker has a histogram of its own, and recording a request takes two steps. A request is one
  step of the scenario with any answer of the network. The steps of all goroutines interleave
  freely. The result that the main goroutine computes at the end is the one that \<open>Bench_Load\<close>
  computes from the list of requests; after the cancellation every goroutine ends; and the ticker
  bounds the number of requests.
\<close>

section \<open>State\<close>

text \<open>
  Where a worker is: at the gate, at the head of the loop, at the ticker, before a request, in one
  (with its start and its outcome, which the network decides), before \<^verbatim>\<open>Observe\<close>, or done.
\<close>

datatype worker_pc = AtGate | AtHead | AtTicker | AtStep | InStep int "err + nat" | Recording int | WorkerDone

datatype main_pc = BeforeGate | WaitingEnd int | Draining | MainDone

record run_sys =
  ru_main :: main_pc
  ru_workers :: "worker_pc list"
  ru_hists :: "Hist list"
  ru_counters :: Counters
  ru_scenario :: scenario
  ru_now :: int
  ru_interrupted :: bool
  ru_cancelled :: bool
  ru_tickerAt :: int
  ru_tick :: bool
  ru_nextTick :: int
  ru_crashed :: bool
  ru_samples :: "sample list"

text \<open>
  The ticker has its creation, the tick that waits in its channel, and the time of the next one.
  The last field only records what happened: the requests in the order in which their outcomes
  were counted or dropped. The ticker is created before the start is noted.
\<close>

definition run_init :: "LoadConfig \<Rightarrow> scenario \<Rightarrow> int \<Rightarrow> int \<Rightarrow> run_sys" where
  "run_init lc sc tickerAt startedAt =
     \<lparr>ru_main = BeforeGate, ru_workers = replicate (nat (ld_Concurrency lc)) AtGate, ru_hists = replicate (nat (ld_Concurrency lc)) NewHist,
      ru_counters = zeroCounters, ru_scenario = sc, ru_now = startedAt, ru_interrupted = False, ru_cancelled = False,
      ru_tickerAt = tickerAt, ru_tick = False, ru_nextTick = tickerAt + (case tick_interval (ld_RPSCap lc) of None \<Rightarrow> 0 | Some i \<Rightarrow> i),
      ru_crashed = False, ru_samples = []\<rparr>"

section \<open>Steps\<close>

abbreviation goto :: "nat \<Rightarrow> worker_pc \<Rightarrow> run_sys \<Rightarrow> run_sys" where
  "goto w pc s \<equiv> s\<lparr>ru_workers := (ru_workers s)[w := pc]\<rparr>"

text \<open>The end of a request: its outcome is dropped or counted, and then the latency is due.\<close>

definition end_step :: "int \<Rightarrow> nat \<Rightarrow> int \<Rightarrow> err + nat \<Rightarrow> run_sys \<Rightarrow> run_sys" where
  "end_step measureStart w t0 res s =
     (let lat = ru_now s - t0;
          x = \<lparr>sm_worker = w, sm_t0 = t0, sm_result = res, sm_lat = lat, sm_cancelled = ru_cancelled s\<rparr>;
          s1 = s\<lparr>ru_samples := ru_samples s @ [x]\<rparr> in
      if t0 < measureStart then goto w AtHead s1
      else if isl res \<and> ru_cancelled s then goto w AtHead s1
      else (goto w (Recording lat) s1)\<lparr>ru_counters := AddStatus (ru_counters s) (sample_code x)\<rparr>)"

text \<open>The steps of the program; \<open>lc\<close> has its defaults and \<open>ms\<close> is \<^verbatim>\<open>measureStart\<close>. A panic of a worker ends the
  process. Clock readings and the sum of the two durations are integers without the wrap-around of int64, which
  needs a run of 292 years.\<close>

inductive run_step :: "LoadConfig \<Rightarrow> int \<Rightarrow> run_sys \<Rightarrow> run_sys \<Rightarrow> bool" for lc ms where
  open_gate: "ru_main s = BeforeGate \<Longrightarrow>
    run_step lc ms s (s\<lparr>ru_main := WaitingEnd (ru_now s + ld_WarmUp lc + ld_Duration lc)\<rparr>)"
| cancel: "ru_main s = WaitingEnd deadline \<Longrightarrow> deadline \<le> ru_now s \<or> ru_interrupted s \<Longrightarrow>
    run_step lc ms s (s\<lparr>ru_main := Draining, ru_cancelled := True\<rparr>)"
| wait_done: "ru_main s = Draining \<Longrightarrow> \<forall>pc \<in> set (ru_workers s). pc = WorkerDone \<Longrightarrow>
    run_step lc ms s (s\<lparr>ru_main := MainDone\<rparr>)"
| leave_gate: "w < length (ru_workers s) \<Longrightarrow> ru_workers s ! w = AtGate \<Longrightarrow> ru_main s \<noteq> BeforeGate \<Longrightarrow>
    run_step lc ms s (goto w AtHead s)"
| head_done: "w < length (ru_workers s) \<Longrightarrow> ru_workers s ! w = AtHead \<Longrightarrow> ru_cancelled s \<Longrightarrow>
    run_step lc ms s (goto w WorkerDone s)"
| head_ticker: "w < length (ru_workers s) \<Longrightarrow> ru_workers s ! w = AtHead \<Longrightarrow> \<not> ru_cancelled s \<Longrightarrow>
    tick_interval (ld_RPSCap lc) \<noteq> None \<Longrightarrow> run_step lc ms s (goto w AtTicker s)"
| head_go: "w < length (ru_workers s) \<Longrightarrow> ru_workers s ! w = AtHead \<Longrightarrow> \<not> ru_cancelled s \<Longrightarrow>
    tick_interval (ld_RPSCap lc) = None \<Longrightarrow> run_step lc ms s (goto w AtStep s)"
| take_tick: "w < length (ru_workers s) \<Longrightarrow> ru_workers s ! w = AtTicker \<Longrightarrow> ru_tick s \<Longrightarrow>
    run_step lc ms s ((goto w AtStep s)\<lparr>ru_tick := False\<rparr>)"
| ticker_done: "w < length (ru_workers s) \<Longrightarrow> ru_workers s ! w = AtTicker \<Longrightarrow> ru_cancelled s \<Longrightarrow>
    run_step lc ms s (goto w WorkerDone s)"
| request: "w < length (ru_workers s) \<Longrightarrow> ru_workers s ! w = AtStep \<Longrightarrow> sc_Step H (ru_scenario s) = Some (res, sc') \<Longrightarrow>
    run_step lc ms s ((goto w (InStep (ru_now s) res) s)\<lparr>ru_scenario := sc'\<rparr>)"
| crash: "w < length (ru_workers s) \<Longrightarrow> ru_workers s ! w = AtStep \<Longrightarrow> sc_Step H (ru_scenario s) = None \<Longrightarrow>
    run_step lc ms s ((goto w WorkerDone s)\<lparr>ru_crashed := True\<rparr>)"
| answer: "w < length (ru_workers s) \<Longrightarrow> ru_workers s ! w = InStep t0 res \<Longrightarrow> run_step lc ms s (end_step ms w t0 res s)"
| observe: "w < length (ru_workers s) \<Longrightarrow> ru_workers s ! w = Recording lat \<Longrightarrow>
    run_step lc ms s ((goto w AtHead s)\<lparr>ru_hists := (ru_hists s)[w := hist_Observe (ru_hists s ! w) lat]\<rparr>)"

text \<open>
  The outside: time passes, the ticker fires (a tick that nobody took is kept, further ones are
  lost, and a late ticker skips periods), an interrupt arrives: it cancels the context of the
  caller and with it the context of the run, which is derived from it.
\<close>

inductive outside :: "LoadConfig \<Rightarrow> run_sys \<Rightarrow> run_sys \<Rightarrow> bool" for lc where
  clock: "ru_now s \<le> t \<Longrightarrow> outside lc s (s\<lparr>ru_now := t\<rparr>)"
| tick: "tick_interval (ld_RPSCap lc) = Some i \<Longrightarrow> ru_nextTick s \<le> ru_now s \<Longrightarrow>
    outside lc s (s\<lparr>ru_tick := True, ru_nextTick := ru_nextTick s + i * (1 + (ru_now s - ru_nextTick s) div i)\<rparr>)"
| interrupt: "outside lc s (s\<lparr>ru_interrupted := True, ru_cancelled := True\<rparr>)"

inductive reachable :: "LoadConfig \<Rightarrow> scenario \<Rightarrow> int \<Rightarrow> run_sys \<Rightarrow> bool" for lc sc startedAt where
  start: "tickerAt \<le> startedAt \<Longrightarrow> reachable lc sc startedAt (run_init lc sc tickerAt startedAt)"
| program: "reachable lc sc startedAt s \<Longrightarrow> \<not> ru_crashed s \<Longrightarrow> run_step lc (startedAt + ld_WarmUp lc) s s' \<Longrightarrow> reachable lc sc startedAt s'"
| environment: "reachable lc sc startedAt s \<Longrightarrow> outside lc s s' \<Longrightarrow> reachable lc sc startedAt s'"

section \<open>Accounting\<close>

text \<open>The histogram of a worker with the latency that is due.\<close>

fun with_due :: "worker_pc \<Rightarrow> Hist \<Rightarrow> Hist" where
  "with_due (Recording lat) h = hist_Observe h lat"
| "with_due _ h = h"

definition accounted :: "nat \<Rightarrow> int \<Rightarrow> run_sys \<Rightarrow> bool" where
  "accounted n ms s \<longleftrightarrow> length (ru_workers s) = n \<and> length (ru_hists s) = n \<and> (\<forall>x \<in> set (ru_samples s). sm_worker x < n) \<and>
     ru_counters s = counters_of (map sample_code (filter (kept ms) (ru_samples s))) \<and>
     (\<forall>w < n. with_due (ru_workers s ! w) (ru_hists s ! w) = hist_of (latencies ms w (ru_samples s)))"

lemma accounted_goto:
  assumes "accounted n ms s" "with_due pc = with_due (ru_workers s ! w)"
  shows "accounted n ms (goto w pc s)"
proof -
  have "with_due ((ru_workers s)[w := pc] ! v) = with_due (ru_workers s ! v)" if "v < n" for v
    using that assms by (cases "v = w") (auto simp: accounted_def)
  then show ?thesis using assms(1) by (simp add: accounted_def)
qed

lemma latencies_snoc:
  "latencies ms v (xs @ [x]) = latencies ms v xs @ (if kept ms x \<and> sm_worker x = v then [sm_lat x] else [])"
  by (simp add: latencies_def)

lemma counters_of_snoc: "counters_of (cs @ [c]) = AddStatus (counters_of cs) c"
  by (simp add: counters_of_def)

lemma accounted_end_step:
  assumes "accounted n ms s" "w < n" "ru_workers s ! w = InStep t0 res"
  shows "accounted n ms (end_step ms w t0 res s)"
proof -
  define x where "x = \<lparr>sm_worker = w, sm_t0 = t0, sm_result = res, sm_lat = ru_now s - t0, sm_cancelled = ru_cancelled s\<rparr>"
  have h: "hist_of (latencies ms w (ru_samples s)) = ru_hists s ! w" using assms by (auto simp: accounted_def)
  show ?thesis
  proof (cases "kept ms x")
    case True
    then have "end_step ms w t0 res s = (goto w (Recording (sm_lat x)) s)\<lparr>ru_samples := ru_samples s @ [x], ru_counters := AddStatus (ru_counters s) (sample_code x)\<rparr>"
      by (auto simp: end_step_def Let_def x_def kept_def isl_def)
    then show ?thesis using assms(1,2) True h
      by (auto simp: accounted_def nth_list_update latencies_snoc counters_of_snoc x_def)
  next
    case False
    then have "end_step ms w t0 res s = (goto w AtHead s)\<lparr>ru_samples := ru_samples s @ [x]\<rparr>"
      by (auto simp: end_step_def Let_def x_def kept_def isl_def)
    then show ?thesis using assms(1,2) False h
      by (auto simp: accounted_def nth_list_update latencies_snoc x_def)
  qed
qed

lemma accounted_cong:
  "accounted n ms s \<Longrightarrow> ru_workers s' = ru_workers s \<Longrightarrow> ru_hists s' = ru_hists s \<Longrightarrow> ru_counters s' = ru_counters s \<Longrightarrow>
    ru_samples s' = ru_samples s \<Longrightarrow> accounted n ms s'"
  by (simp add: accounted_def)

lemma accounted_step:
  assumes "run_step lc ms s s'" "accounted n ms s"
  shows "accounted n ms s'"
  using assms(1)
proof cases
  case (answer w t0 res)
  moreover have "w < n" using answer(2) assms(2) by (simp add: accounted_def)
  ultimately show ?thesis using accounted_end_step [OF assms(2)] by blast
next
  case (observe w lat)
  then show ?thesis using assms(2) by (auto simp: accounted_def nth_list_update)
next
  case (take_tick w)
  then have "accounted n ms (goto w AtStep s)" using assms(2) by (intro accounted_goto) (simp_all add: fun_eq_iff)
  then show ?thesis by (rule accounted_cong) (simp_all add: take_tick)
next
  case (request w H res sc')
  then have "accounted n ms (goto w (InStep (ru_now s) res) s)" using assms(2) by (intro accounted_goto) (simp_all add: fun_eq_iff)
  then show ?thesis by (rule accounted_cong) (simp_all add: request)
next
  case (crash w H)
  then have "accounted n ms (goto w WorkerDone s)" using assms(2) by (intro accounted_goto) (simp_all add: fun_eq_iff)
  then show ?thesis by (rule accounted_cong) (simp_all add: crash)
next
  case (leave_gate w)
  then show ?thesis using accounted_goto [OF assms(2), of AtHead w] by (simp add: fun_eq_iff)
next
  case (head_done w)
  then show ?thesis using accounted_goto [OF assms(2), of WorkerDone w] by (simp add: fun_eq_iff)
next
  case (head_ticker w)
  then show ?thesis using accounted_goto [OF assms(2), of AtTicker w] by (simp add: fun_eq_iff)
next
  case (head_go w)
  then show ?thesis using accounted_goto [OF assms(2), of AtStep w] by (simp add: fun_eq_iff)
next
  case (ticker_done w)
  then show ?thesis using accounted_goto [OF assms(2), of WorkerDone w] by (simp add: fun_eq_iff)
qed (use assms(2) in \<open>auto intro: accounted_cong\<close>)

text \<open>The phases of the main goroutine.\<close>

definition phased :: "run_sys \<Rightarrow> bool" where
  "phased s \<longleftrightarrow> (ru_cancelled s \<longleftrightarrow> ru_interrupted s \<or> ru_main s \<in> {Draining, MainDone}) \<and> (ru_main s = MainDone \<longrightarrow> (\<forall>pc \<in> set (ru_workers s). pc = WorkerDone))"

lemma end_step_sel [simp]:
  "ru_main (end_step ms w t0 res s) = ru_main s" "ru_cancelled (end_step ms w t0 res s) = ru_cancelled s"
  "ru_hists (end_step ms w t0 res s) = ru_hists s" "ru_now (end_step ms w t0 res s) = ru_now s"
  "ru_interrupted (end_step ms w t0 res s) = ru_interrupted s" "ru_tickerAt (end_step ms w t0 res s) = ru_tickerAt s"
  "ru_tick (end_step ms w t0 res s) = ru_tick s" "ru_nextTick (end_step ms w t0 res s) = ru_nextTick s"
  "length (ru_samples (end_step ms w t0 res s)) = Suc (length (ru_samples s))"
  "\<exists>pc. pc \<in> {AtHead, Recording (ru_now s - t0)} \<and> ru_workers (end_step ms w t0 res s) = (ru_workers s)[w := pc]"
  by (auto simp: end_step_def Let_def)

lemma phased_live:
  "phased s \<Longrightarrow> w < length (ru_workers s) \<Longrightarrow> ru_workers s ! w \<noteq> WorkerDone \<Longrightarrow>
    ru_main s' = ru_main s \<Longrightarrow> ru_cancelled s' = ru_cancelled s \<Longrightarrow> ru_interrupted s' = ru_interrupted s \<Longrightarrow> phased s'"
  by (auto simp: phased_def)

lemma phased_step:
  assumes "run_step lc ms s s'" "phased s"
  shows "phased s'"
  using assms(1)
proof cases
  case open_gate
  then show ?thesis using assms(2) by (simp add: phased_def)
next
  case cancel
  then show ?thesis using assms(2) by (simp add: phased_def)
next
  case wait_done
  then show ?thesis using assms(2) by (simp add: phased_def)
qed (rule phased_live [OF assms(2)], assumption, simp, simp, simp, simp)+

lemma outside_sel:
  assumes "outside lc s s'"
  shows "ru_main s' = ru_main s" "ru_workers s' = ru_workers s" "ru_hists s' = ru_hists s" "ru_counters s' = ru_counters s"
    "ru_samples s' = ru_samples s" "ru_tickerAt s' = ru_tickerAt s" "ru_crashed s' = ru_crashed s" "ru_now s \<le> ru_now s'"
  using assms by (cases; simp)+

lemma phased_outside:
  assumes "outside lc s s'" "phased s"
  shows "phased s'" and "ru_cancelled s \<longrightarrow> ru_cancelled s'"
  using assms by (cases; auto simp: phased_def)+

lemma reachable_inv:
  assumes "reachable lc sc startedAt s"
  shows "accounted (nat (ld_Concurrency lc)) (startedAt + ld_WarmUp lc) s" and "phased s"
proof -
  have "accounted (nat (ld_Concurrency lc)) (startedAt + ld_WarmUp lc) s \<and> phased s"
    using assms
  proof induction
    case (start tickerAt)
    have "latencies ms w [] = []" for ms w by (simp add: latencies_def)
    then show ?case by (simp add: accounted_def phased_def run_init_def counters_of_def)
  next
    case (program s s')
    then show ?case using accounted_step phased_step by blast
  next
    case (environment s s')
    note o = outside_sel [OF environment(2)]
    have "phased s'" using environment.IH phased_outside(1) [OF environment(2)] by simp
    with environment.IH show ?case using accounted_cong [of _ _ s s'] o by blast
  qed
  then show "accounted (nat (ld_Concurrency lc)) (startedAt + ld_WarmUp lc) s" and "phased s" by simp_all
qed

lemma load_defaults_WarmUp [simp]: "ld_WarmUp (load_defaults lc) = ld_WarmUp lc"
  by (simp add: load_defaults_def Let_def)

lemma final_state:
  assumes "reachable lc sc startedAt s" "ru_main s = MainDone"
  shows "\<lparr>rn_hists = ru_hists s, rn_counters = ru_counters s\<rparr> = foldl (record_sample (startedAt + ld_WarmUp lc)) (run_start lc) (ru_samples s)"
    and "\<forall>x \<in> set (ru_samples s). sm_worker x < nat (ld_Concurrency lc)"
proof -
  let ?n = "nat (ld_Concurrency lc)" and ?ms = "startedAt + ld_WarmUp lc"
  have A: "accounted ?n ?ms s" and P: "phased s" using reachable_inv [OF assms(1)] by simp_all
  show w: "\<forall>x \<in> set (ru_samples s). sm_worker x < ?n" using A by (simp add: accounted_def)
  have "ru_workers s ! v = WorkerDone" if "v < ?n" for v using P assms(2) A that by (simp add: phased_def accounted_def)
  then have "ru_hists s ! v = hist_of (latencies ?ms v (ru_samples s))" if "v < ?n" for v
    using A that by (metis accounted_def with_due.simps(7))
  moreover have "length (ru_hists s) = ?n" using A by (simp add: accounted_def)
  ultimately have "ru_hists s = map (\<lambda>v. hist_of (latencies ?ms v (ru_samples s))) [0 ..< ?n]" by (intro nth_equalityI) simp_all
  then show "\<lparr>rn_hists = ru_hists s, rn_counters = ru_counters s\<rparr> = foldl (record_sample ?ms) (run_start lc) (ru_samples s)"
    unfolding run_start_def record_samples [OF w] using A by (simp add: accounted_def)
qed

text \<open>C24: a benchmark run accounts for every request exactly once, however its goroutines
  interleave. In every execution of the workers, the ticker and the main goroutine, the result
  that \<^verbatim>\<open>Run\<close> computes when the last worker has finished counts exactly the requests that started after
  the warm-up and were not aborted by the end of the run; its latency figures are those of one
  histogram of all their latencies, although every worker fills its own; its errors are those
  without an answer from 200 to 399; and the status classes add up to the count.\<close>

theorem run_exact:
  fixes lc :: LoadConfig and name :: string and ri :: runtime_info
  assumes "reachable (load_defaults lc) sc (rt_startedAt tms) s" and "ru_main s = MainDone" and "length (ru_samples s) < 2 ^ 64"
  defines "r \<equiv> run_result name ri tms (load_defaults lc) \<lparr>rn_hists = ru_hists s, rn_counters = ru_counters s\<rparr>"
    and "ks \<equiv> filter (kept (rt_startedAt tms + ld_WarmUp lc)) (ru_samples s)"
  shows "rs_Count r = of_nat (length ks) \<and> rs_Latency r = hist_Snapshot (hist_of (map sm_lat ks)) \<and>
    rs_Errors r = of_nat (length (filter (\<lambda>x. \<not> (200 \<le> sample_code x \<and> sample_code x < 400)) ks)) \<and>
    sum_list (rs_StatusClass r) = rs_Count r"
proof -
  note F = final_state [OF assms(1,2)]
  have R: "Run name ri tms None lc (ru_samples s) = Inr r" unfolding r_def Run_def F(1) by (simp add: Let_def)
  have "rs_Concurrency r = ld_Concurrency (load_defaults lc)" by (simp add: r_def run_result_def Let_def)
  then have "\<forall>x \<in> set (ru_samples s). int (sm_worker x) < rs_Concurrency r" using F(2) by auto
  from run_accounting [OF R assms(3) this] show ?thesis unfolding ks_def .
qed

section \<open>A concrete run\<close>

text \<open>One worker and one request, which is answered; then an interrupt.\<close>

definition demo_lc :: "int \<Rightarrow> LoadConfig" where
  "demo_lc cap = \<lparr>ld_Concurrency = 1, ld_Duration = 10, ld_WarmUp = 0, ld_RPSCap = cap\<rparr>"

lemma demo_put_step: "\<exists>res sc'. sc_Step demo_client (SWrite demo_write_only) = Some (res, sc')"
proof -
  have "ring_index (wo_counter demo_write_only + of_nat 0 + 1) (length (wo_keys demo_write_only)) = Some ((unat (wo_counter demo_write_only) + 1 + 0) mod length (wo_keys demo_write_only))"
    by (rule ring_index_small) (simp_all add: demo_write_only_def)
  then show ?thesis by (simp add: sc_Step_def wo_Step_def wo_request_def)
qed

lemma demo_cancelled:
  obtains s where "reachable (demo_lc 0) (SWrite demo_write_only) 0 s" "ru_cancelled s" "ru_main s = Draining" "ru_workers s = [AtHead]"
    "length (ru_samples s) = 1" "\<not> ru_crashed s"
proof -
  let ?R = "reachable (demo_lc 0) (SWrite demo_write_only) 0"
  have lc: "tick_interval (ld_RPSCap (demo_lc 0)) = None" "ld_WarmUp (demo_lc 0) = 0" by (simp_all add: demo_lc_def tick_interval_def)
  obtain res sc' where step: "sc_Step demo_client (SWrite demo_write_only) = Some (res, sc')" using demo_put_step by blast
  note go = reachable.program [where lc = "demo_lc 0", unfolded lc(2), simplified]
  define s0 where "s0 = run_init (demo_lc 0) (SWrite demo_write_only) 0 0"
  have s0: "ru_main s0 = BeforeGate" "ru_workers s0 = [AtGate]" "ru_scenario s0 = SWrite demo_write_only" "\<not> ru_crashed s0" "\<not> ru_cancelled s0"
    "ru_samples s0 = []"
    by (simp_all add: s0_def run_init_def demo_lc_def)
  have R0: "?R s0" unfolding s0_def by (rule reachable.start) simp
  define s1 where "s1 = s0\<lparr>ru_main := WaitingEnd (ru_now s0 + ld_WarmUp (demo_lc 0) + ld_Duration (demo_lc 0))\<rparr>"
  have 1: "?R s1" unfolding s1_def by (rule go [OF R0 s0(4) open_gate]) (rule s0)
  define s2 where "s2 = goto 0 AtHead s1"
  have 2: "?R s2" unfolding s2_def by (rule go [OF 1 _ leave_gate]) (simp_all add: s1_def s0)
  define s3 where "s3 = goto 0 AtStep s2"
  have 3: "?R s3" unfolding s3_def by (rule go [OF 2 _ head_go]) (simp_all add: s2_def s1_def s0 lc)
  define s4 where "s4 = (goto 0 (InStep (ru_now s3) res) s3)\<lparr>ru_scenario := sc'\<rparr>"
  have 4: "?R s4" unfolding s4_def by (rule go [OF 3 _ request [where H = demo_client]]) (simp_all add: s3_def s2_def s1_def s0 step)
  define s5 where "s5 = end_step 0 0 (ru_now s3) res s4"
  have 5: "?R s5" unfolding s5_def by (rule go [OF 4 _ answer]) (simp_all add: s4_def s3_def s2_def s1_def s0)
  have s4: "ru_workers s4 = [InStep (ru_now s3) res]" "ru_main s4 = ru_main s1" "\<not> ru_crashed s4" "\<not> ru_cancelled s4" "ru_samples s4 = []"
    "ru_now s4 = ru_now s3" "ru_now s3 = 0"
    by (simp_all add: s4_def s3_def s2_def s1_def s0) (simp add: s0_def run_init_def)
  have s5: "ru_workers s5 = [Recording 0]" "ru_main s5 = ru_main s1" "\<not> ru_crashed s5" "\<not> ru_cancelled s5" "length (ru_samples s5) = 1"
    using s4 by (simp_all add: s5_def end_step_def Let_def)
  define s6 where "s6 = (goto 0 AtHead s5)\<lparr>ru_hists := (ru_hists s5)[0 := hist_Observe (ru_hists s5 ! 0) 0]\<rparr>"
  have 6: "?R s6" unfolding s6_def by (rule go [OF 5 _ observe]) (simp_all add: s5)
  define s7 where "s7 = s6\<lparr>ru_interrupted := True, ru_cancelled := True\<rparr>"
  have 7: "?R s7" unfolding s7_def by (rule reachable.environment [OF 6 interrupt])
  define s8 where "s8 = s7\<lparr>ru_main := Draining, ru_cancelled := True\<rparr>"
  have "?R s8" unfolding s8_def by (rule go [OF 7 _ cancel]) (simp_all add: s7_def s6_def s5 s1_def)
  then show ?thesis by (rule that) (simp_all add: s8_def s7_def s6_def s5)
qed

theorem run_exact_witness:
  "\<exists>s. reachable (load_defaults (demo_lc 0)) (SWrite demo_write_only) (rt_startedAt demo_times) s \<and> ru_main s = MainDone \<and>
    rs_Count (run_result ''write_only'' demo_runtime demo_times (load_defaults (demo_lc 0)) \<lparr>rn_hists = ru_hists s, rn_counters = ru_counters s\<rparr>) =
      of_nat (length (filter (kept (rt_startedAt demo_times + ld_WarmUp (demo_lc 0))) (ru_samples s)))"
proof -
  obtain s where s: "reachable (demo_lc 0) (SWrite demo_write_only) 0 s" "ru_cancelled s" "ru_main s = Draining" "ru_workers s = [AtHead]"
    "length (ru_samples s) = 1" "\<not> ru_crashed s" by (rule demo_cancelled)
  have lc: "load_defaults (demo_lc 0) = demo_lc 0" "rt_startedAt demo_times = 0" by (simp_all add: load_defaults_def demo_lc_def demo_times_def)
  define t where "t = goto 0 WorkerDone s"
  have t: "reachable (demo_lc 0) (SWrite demo_write_only) 0 t"
    unfolding t_def by (rule reachable.program [OF s(1,6) head_done]) (simp_all add: s)
  define u where "u = t\<lparr>ru_main := MainDone\<rparr>"
  have "reachable (demo_lc 0) (SWrite demo_write_only) 0 u"
    unfolding u_def by (rule reachable.program [OF t _ wait_done]) (simp_all add: t_def s)
  moreover have "ru_main u = MainDone" "length (ru_samples u) < 2 ^ 64" by (simp_all add: u_def t_def s)
  ultimately show ?thesis
    using run_exact [of "demo_lc 0" "SWrite demo_write_only" demo_times u "''write_only''" demo_runtime] by (auto simp: lc)
qed

section \<open>The end of a run\<close>

text \<open>How many steps a worker and the main goroutine have left after the cancellation.\<close>

fun rank :: "worker_pc \<Rightarrow> nat" where
  "rank WorkerDone = 0"
| "rank AtHead = 1"
| "rank AtGate = 2"
| "rank (Recording _) = 2"
| "rank (InStep _ _) = 3"
| "rank AtStep = 4"
| "rank AtTicker = 5"

definition remaining :: "run_sys \<Rightarrow> nat" where
  "remaining s = sum_list (map rank (ru_workers s)) +
     (case ru_main s of BeforeGate \<Rightarrow> 3 | WaitingEnd _ \<Rightarrow> 2 | Draining \<Rightarrow> 1 | MainDone \<Rightarrow> 0)"

lemma sum_ranks: "w < length ws \<Longrightarrow> sum_list (map f (ws[w := pc])) + f (ws ! w) = sum_list (map f ws) + (f pc :: nat)"
proof -
  assume w: "w < length ws"
  then have "f (ws ! w) \<le> sum_list (map f ws)" using elem_le_sum_list [of w "map f ws"] by simp
  then show ?thesis using w by (simp add: map_update sum_list_update)
qed

lemma rank_le: "rank pc \<le> 5"
  by (cases pc) simp_all

lemma remaining_le: "remaining s \<le> 5 * length (ru_workers s) + 3"
proof -
  have "sum_list (map rank ws) \<le> 5 * length ws" for ws
  proof (induction ws)
    case (Cons pc ws)
    then show ?case using rank_le [of pc] by simp
  qed simp
  from this [of "ru_workers s"] show ?thesis by (simp add: remaining_def split: main_pc.split)
qed

lemma remaining_goto:
  "w < length (ru_workers s) \<Longrightarrow> rank pc < rank (ru_workers s ! w) \<Longrightarrow> ru_main s' = ru_main s \<Longrightarrow> ru_workers s' = (ru_workers s)[w := pc] \<Longrightarrow>
    remaining s' < remaining s"
  using sum_ranks [of w "ru_workers s" rank pc] by (simp add: remaining_def)

lemma remaining_step:
  assumes "run_step lc ms s s'" "phased s" "ru_cancelled s"
  shows "remaining s' < remaining s \<and> ru_cancelled s'"
  using assms(1)
proof cases
  case open_gate
  then show ?thesis using assms(3) by (simp add: remaining_def)
next
  case cancel
  then show ?thesis by (simp add: remaining_def)
next
  case wait_done
  then show ?thesis using assms(3) by (simp add: remaining_def)
next
  case (answer w t0 res)
  obtain pc where pc: "pc \<in> {AtHead, Recording (ru_now s - t0)}" "ru_workers (end_step ms w t0 res s) = (ru_workers s)[w := pc]"
    using end_step_sel(10) by blast
  then have "rank pc < rank (ru_workers s ! w)" using answer(3) by auto
  from remaining_goto [OF answer(2) this] pc(2) show ?thesis using assms(3) by (simp add: answer(1))
next
  case (leave_gate w)
  then show ?thesis using remaining_goto [of w s AtHead s'] assms(3) by simp
next
  case (head_done w)
  then show ?thesis using remaining_goto [of w s WorkerDone s'] by simp
next
  case (take_tick w)
  then show ?thesis using remaining_goto [of w s AtStep s'] assms(3) by simp
next
  case (ticker_done w)
  then show ?thesis using remaining_goto [of w s WorkerDone s'] by simp
next
  case (request w H res sc')
  then show ?thesis using remaining_goto [of w s "InStep (ru_now s) res" s'] assms(3) by simp
next
  case (crash w H)
  then show ?thesis using remaining_goto [of w s WorkerDone s'] assms(3) by simp
next
  case (observe w lat)
  then show ?thesis using remaining_goto [of w s AtHead s'] assms(3) by simp
qed (use assms(3) in simp_all)

text \<open>Runs that start in a cancelled state: \<open>k\<close> steps of the program, and any steps of the outside.\<close>

inductive drains :: "LoadConfig \<Rightarrow> int \<Rightarrow> nat \<Rightarrow> run_sys \<Rightarrow> run_sys \<Rightarrow> bool" for lc ms where
  here: "drains lc ms 0 s s"
| program: "drains lc ms k s t \<Longrightarrow> \<not> ru_crashed t \<Longrightarrow> run_step lc ms t u \<Longrightarrow> drains lc ms (Suc k) s u"
| environment: "drains lc ms k s t \<Longrightarrow> outside lc t u \<Longrightarrow> drains lc ms k s u"

lemma drains_remaining:
  assumes "drains lc ms k s t" "phased s" "ru_cancelled s"
  shows "k + remaining t \<le> remaining s \<and> phased t \<and> ru_cancelled t"
  using assms
proof induction
  case (program k s t u)
  then show ?case using remaining_step [of lc ms t u] phased_step [of lc ms t u] by auto
next
  case (environment k s t u)
  note o = outside_sel [OF environment(2)]
  have "remaining u = remaining t" by (simp add: remaining_def o)
  then show ?case using environment phased_outside [OF environment(2)] by auto
qed simp

lemma drain_progress:
  assumes "phased s" "ru_cancelled s" "ru_main s = Draining"
  shows "\<exists>s'. run_step lc ms s s'"
proof (cases "\<forall>pc \<in> set (ru_workers s). pc = WorkerDone")
  case True
  then show ?thesis using wait_done [of s lc ms] assms by (auto simp: phased_def)
next
  case False
  then obtain w where w: "w < length (ru_workers s)" "ru_workers s ! w \<noteq> WorkerDone" by (auto simp: in_set_conv_nth)
  show ?thesis
  proof (cases "ru_workers s ! w")
    case AtGate
    then show ?thesis using leave_gate [OF w(1)] assms by (auto simp: phased_def)
  next
    case AtHead
    then show ?thesis using head_done [OF w(1)] assms by blast
  next
    case AtTicker
    then show ?thesis using ticker_done [OF w(1)] assms by blast
  next
    case AtStep
    then show ?thesis using request [OF w(1)] crash [OF w(1)] by (cases "sc_Step undefined (ru_scenario s)") fastforce+
  next
    case InStep
    then show ?thesis using answer [OF w(1)] by blast
  next
    case Recording
    then show ?thesis using observe [OF w(1)] by blast
  qed (use w in simp)
qed

lemma cancelled_progress:
  assumes "phased s" "ru_cancelled s" "ru_main s \<noteq> MainDone"
  shows "\<exists>s'. run_step lc ms s s'"
proof (cases "ru_main s")
  case BeforeGate
  then show ?thesis using open_gate by blast
next
  case (WaitingEnd deadline)
  moreover have "ru_interrupted s" using assms(1,2) WaitingEnd by (simp add: phased_def)
  ultimately show ?thesis using cancel by blast
qed (use assms drain_progress in auto)

text \<open>C25: a run ends. Once the run is cancelled (its time is over or an interrupt came), every
  execution has at most five further steps for each worker and three for the main goroutine, and
  as long as the main goroutine has not ended, some goroutine can take a step, unless a panic ended the
  process.\<close>

theorem run_stops:
  assumes "reachable lc sc startedAt s" and "ru_cancelled s" and "drains lc (startedAt + ld_WarmUp lc) k s t"
  shows "k \<le> 5 * nat (ld_Concurrency lc) + 3 \<and>
    (ru_main t = MainDone \<or> ru_crashed t \<or> (\<exists>u. run_step lc (startedAt + ld_WarmUp lc) t u))"
proof -
  have P: "phased s" and A: "accounted (nat (ld_Concurrency lc)) (startedAt + ld_WarmUp lc) s" using reachable_inv [OF assms(1)] by simp_all
  have n: "length (ru_workers s) = nat (ld_Concurrency lc)" using A by (simp add: accounted_def)
  note D = drains_remaining [OF assms(3) P assms(2)]
  have "k \<le> 5 * nat (ld_Concurrency lc) + 3" using D remaining_le [of s] n by simp
  then show ?thesis using cancelled_progress D by blast
qed

theorem run_stops_witness:
  "\<exists>s t. reachable (demo_lc 0) (SWrite demo_write_only) 0 s \<and> drains (demo_lc 0) (0 + ld_WarmUp (demo_lc 0)) 1 s t \<and>
    (ru_main t = MainDone \<or> ru_crashed t \<or> (\<exists>u. run_step (demo_lc 0) (0 + ld_WarmUp (demo_lc 0)) t u))"
proof -
  obtain s where s: "reachable (demo_lc 0) (SWrite demo_write_only) 0 s" "ru_cancelled s" "ru_main s = Draining" "ru_workers s = [AtHead]"
    "length (ru_samples s) = 1" "\<not> ru_crashed s" by (rule demo_cancelled)
  have "drains (demo_lc 0) (0 + ld_WarmUp (demo_lc 0)) (Suc 0) s (goto 0 WorkerDone s)"
    by (rule drains.program [OF drains.here s(6) head_done]) (simp_all add: s)
  then show ?thesis using run_stops [OF s(1,2)] s(1) by (metis One_nat_def)
qed

section \<open>The rate\<close>

text \<open>The requests so far: the recorded ones, and those before or under way.\<close>

fun under_way :: "worker_pc \<Rightarrow> nat" where
  "under_way AtStep = 1"
| "under_way (InStep _ _) = 1"
| "under_way _ = 0"

definition requests :: "run_sys \<Rightarrow> nat" where
  "requests s = length (ru_samples s) + sum_list (map under_way (ru_workers s))"

definition paced :: "int \<Rightarrow> run_sys \<Rightarrow> bool" where
  "paced i s \<longleftrightarrow> ru_tickerAt s + (int (requests s) + (if ru_tick s then 1 else 0) + 1) * i \<le> ru_nextTick s \<and> ru_nextTick s \<le> ru_now s + i"

lemma requests_goto:
  assumes "w < length (ru_workers s)" "ru_samples s' = ru_samples s" "ru_workers s' = (ru_workers s)[w := pc]"
  shows "requests s' + under_way (ru_workers s ! w) = requests s + under_way pc"
  using sum_ranks [OF assms(1), of under_way pc] assms by (simp add: requests_def)

lemma paced_same: "paced i s \<Longrightarrow> requests s' \<le> requests s \<Longrightarrow> ru_tick s' = ru_tick s \<Longrightarrow> ru_nextTick s' = ru_nextTick s \<Longrightarrow>
    ru_tickerAt s' = ru_tickerAt s \<Longrightarrow> ru_now s' = ru_now s \<Longrightarrow> 0 < i \<Longrightarrow> paced i s'"
  unfolding paced_def by (auto elim!: order_trans [rotated] intro!: mult_right_mono)

lemma tick_interval_pos: "tick_interval cap = Some i \<Longrightarrow> 0 < i"
  by (auto simp: tick_interval_def Let_def split: if_splits)

lemma paced_step:
  assumes "run_step lc ms s s'" "paced i s" "tick_interval (ld_RPSCap lc) = Some i"
  shows "paced i s'"
proof -
  note i = tick_interval_pos [OF assms(3)]
  note same = paced_same [OF assms(2) _ _ _ _ _ i]
  show ?thesis
    using assms(1)
  proof cases
    case (take_tick w)
    then have "requests s' = requests s + 1" using requests_goto [of w s s' AtStep] by simp
    then show ?thesis using take_tick assms(2) by (simp add: paced_def algebra_simps)
  next
    case (answer w t0 res)
    obtain pc where pc: "pc \<in> {AtHead, Recording (ru_now s - t0)}" "ru_workers (end_step ms w t0 res s) = (ru_workers s)[w := pc]"
      using end_step_sel(10) by blast
    then have "under_way pc = 0" by auto
    with sum_ranks [OF answer(2), of under_way pc] answer(3) pc(2)
    have "requests s' = requests s" by (simp add: requests_def answer(1))
    then show ?thesis by (intro same) (simp_all add: answer(1))
  next
    case (leave_gate w)
    then show ?thesis using requests_goto [of w s s' AtHead] by (intro same) simp_all
  next
    case (head_done w)
    then show ?thesis using requests_goto [of w s s' WorkerDone] by (intro same) simp_all
  next
    case (head_ticker w)
    then show ?thesis using requests_goto [of w s s' AtTicker] by (intro same) simp_all
  next
    case (head_go w)
    then show ?thesis using assms(3) by simp
  next
    case (ticker_done w)
    then show ?thesis using requests_goto [of w s s' WorkerDone] by (intro same) simp_all
  next
    case (request w H res sc')
    then show ?thesis using requests_goto [of w s s' "InStep (ru_now s) res"] by (intro same) simp_all
  next
    case (crash w H)
    then show ?thesis using requests_goto [of w s s' WorkerDone] by (intro same) simp_all
  next
    case (observe w lat)
    then show ?thesis using requests_goto [of w s s' AtHead] by (intro same) simp_all
  qed (auto intro!: same simp: requests_def)
qed

lemma paced_outside:
  assumes "outside lc s s'" "paced i s" "tick_interval (ld_RPSCap lc) = Some i"
  shows "paced i s'"
  using assms(1)
proof cases
  case (clock t)
  then show ?thesis using assms(2) by (simp add: paced_def requests_def)
next
  case (tick j)
  then have j: "j = i" using assms(3) by simp
  note i = tick_interval_pos [OF assms(3)]
  let ?d = "ru_now s - ru_nextTick s"
  have "0 \<le> ?d div i" using tick(3) i by (simp add: pos_imp_zdiv_nonneg_iff)
  then have "i * 1 \<le> i * (1 + ?d div i)" using i by (intro mult_left_mono) simp_all
  moreover have "i * (?d div i) \<le> ?d" using mult_div_mod_eq [of i ?d] pos_mod_sign [OF i, of ?d] by linarith
  then have "i * (1 + ?d div i) \<le> i + ?d" by (simp add: distrib_left)
  moreover have "(int (requests s) + 1 + 1) * i \<le> (int (requests s) + (if ru_tick s then 1 else 0) + 1) * i + i" using i by (simp add: algebra_simps)
  ultimately show ?thesis using assms(2) unfolding tick(1) j paced_def requests_def by simp
next
  case interrupt
  then show ?thesis using assms(2) by (simp add: paced_def requests_def)
qed

text \<open>C26: the ceiling on the rate holds at every moment of a run. With a cap, all workers together
  have never begun more requests than one for each full tick since the ticker was
  created, whatever the interleaving; the tick is the second divided by the cap, rounded down to a
  nanosecond and at least one.\<close>

theorem rps_ceiling:
  assumes "reachable lc sc startedAt s" and "0 < ld_RPSCap lc"
  shows "int (requests s) * max 1 (second div ld_RPSCap lc) \<le> ru_now s - ru_tickerAt s"
proof -
  obtain i where i: "tick_interval (ld_RPSCap lc) = Some i" "i = max 1 (second div ld_RPSCap lc)"
    using assms(2) by (auto simp: tick_interval_def Let_def max_def)
  have "paced i s"
    using assms(1)
  proof induction
    case (start tickerAt)
    have "sum_list (map under_way (replicate n AtGate)) = 0" for n by simp
    then show ?case using i(1) start by (simp add: paced_def requests_def run_init_def sum_list_replicate)
  next
    case (program s s')
    then show ?case using paced_step [OF _ _ i(1)] by blast
  next
    case (environment s s')
    then show ?case using paced_outside [OF _ _ i(1)] by blast
  qed
  then show ?thesis unfolding i(2) [symmetric] paced_def using tick_interval_pos [OF i(1)] by (auto simp: algebra_simps split: if_splits)
qed

lemma demo_ticked:
  obtains s where "reachable (demo_lc 2) (SWrite demo_write_only) 0 s" "requests s = 1" "ru_now s = 500000000" "ru_tickerAt s = 0"
proof -
  let ?R = "reachable (demo_lc 2) (SWrite demo_write_only) 0"
  have lc: "tick_interval (ld_RPSCap (demo_lc 2)) = Some 500000000" by (simp add: demo_lc_def tick_interval_def second_def)
  define s0 where "s0 = run_init (demo_lc 2) (SWrite demo_write_only) 0 0"
  have s0: "ru_main s0 = BeforeGate" "ru_workers s0 = [AtGate]" "\<not> ru_crashed s0" "\<not> ru_cancelled s0" "ru_samples s0 = []" "ru_now s0 = 0"
    "ru_nextTick s0 = 500000000" "ru_tickerAt s0 = 0"
    using lc by (simp_all add: s0_def run_init_def) (simp add: demo_lc_def)
  have R0: "?R s0" unfolding s0_def by (rule reachable.start) simp
  define s1 where "s1 = s0\<lparr>ru_main := WaitingEnd (ru_now s0 + ld_WarmUp (demo_lc 2) + ld_Duration (demo_lc 2))\<rparr>"
  have 1: "?R s1" unfolding s1_def by (rule reachable.program [OF R0 s0(3) open_gate]) (rule s0)
  define s2 where "s2 = goto 0 AtHead s1"
  have 2: "?R s2" unfolding s2_def by (rule reachable.program [OF 1 _ leave_gate]) (simp_all add: s1_def s0)
  define s3 where "s3 = goto 0 AtTicker s2"
  have 3: "?R s3" unfolding s3_def by (rule reachable.program [OF 2 _ head_ticker]) (simp_all add: s2_def s1_def s0 lc)
  define s4 where "s4 = s3\<lparr>ru_now := 500000000\<rparr>"
  have 4: "?R s4" unfolding s4_def by (rule reachable.environment [OF 3 clock]) (simp add: s3_def s2_def s1_def s0)
  define s5 where "s5 = s4\<lparr>ru_tick := True, ru_nextTick := ru_nextTick s4 + 500000000 * (1 + (ru_now s4 - ru_nextTick s4) div 500000000)\<rparr>"
  have 5: "?R s5" unfolding s5_def by (rule reachable.environment [OF 4 tick]) (simp_all add: lc s4_def s3_def s2_def s1_def s0)
  define s6 where "s6 = (goto 0 AtStep s5)\<lparr>ru_tick := False\<rparr>"
  have "?R s6" unfolding s6_def by (rule reachable.program [OF 5 _ take_tick]) (simp_all add: s5_def s4_def s3_def s2_def s1_def s0)
  then show ?thesis by (rule that) (simp_all add: requests_def s6_def s5_def s4_def s3_def s2_def s1_def s0)
qed

theorem rps_ceiling_witness:
  "\<exists>s. reachable (demo_lc 2) (SWrite demo_write_only) 0 s \<and> requests s = 1 \<and> int (requests s) * max 1 (second div ld_RPSCap (demo_lc 2)) \<le> ru_now s - ru_tickerAt s"
proof -
  obtain s where s: "reachable (demo_lc 2) (SWrite demo_write_only) 0 s" "requests s = 1" "ru_now s = 500000000" "ru_tickerAt s = 0" by (rule demo_ticked)
  have "0 < ld_RPSCap (demo_lc 2)" by (simp add: demo_lc_def)
  from rps_ceiling [OF s(1) this] s show ?thesis by blast
qed

end
