(* ===== verification/Bench_Report.thy ===== *)
theory Bench_Report
  imports Bench_Load "HOL-Library.Product_Lexorder"
begin

text \<open>
  \<^verbatim>\<open>bench/report.go\<close>: the Markdown report of a set of results, as the text that is written. The
  report does not look at write errors.
\<close>

section \<open>Durations\<close>

definition microsecond :: int where "microsecond = 1000"

definition millisecond :: int where "millisecond = 1000 * 1000"

definition formatDur :: "int \<Rightarrow> string" where
  "formatDur d =
     (if d \<ge> second then fmt_fixed 2 (Seconds d) @ ''s''
      else if d \<ge> millisecond then fmt_fixed 2 (float64 (float64 (of_int d) / 1000000)) @ ''ms''
      else if d \<ge> microsecond then fmt_fixed 0 (float64 (float64 (of_int d) / 1000)) @ [CHR 0xC2, CHR 0xB5] @ ''s''
      else FormatInt d @ ''ns'')"

section \<open>The report\<close>

definition line :: "string \<Rightarrow> string" where
  "line s = s @ [CHR 0x0A]"

definition report_order :: "Result \<Rightarrow> string \<times> int" where
  "report_order r = (rs_Scenario r, rs_Concurrency r)"

definition env_lines :: "Env \<Rightarrow> string" where
  "env_lines env =
     line ''## Environment'' @
     line (''- Timestamp: '' @ format_RFC3339 False (en_Timestamp env)) @
     line (''- Host: '' @ en_Hostname env) @
     line (''- OS/Arch: '' @ en_GOOS env @ ''/'' @ en_GOARCH env) @
     line (''- CPUs: '' @ FormatInt (en_NumCPU env) @ '' (GOMAXPROCS='' @ FormatInt (en_GOMAXPROCS env) @ '')'') @
     line (''- Go: '' @ en_Go env) @
     (if en_PaladinBuild env \<noteq> [] then line (''- Paladin build: '' @ en_PaladinBuild env) else []) @
     line []"

definition summary_row :: "Result \<Rightarrow> string" where
  "summary_row r =
     line (''| '' @ rs_Scenario r @ '' | '' @ FormatInt (rs_Concurrency r) @ '' | '' @ formatDur (rs_Duration r) @ '' | '' @
       fmt_fixed 0 (rs_RPS r) @ '' | '' @ formatDur (sn_P50 (rs_Latency r)) @ '' | '' @ formatDur (sn_P95 (rs_Latency r)) @ '' | '' @
       formatDur (sn_P99 (rs_Latency r)) @ '' | '' @ formatDur (sn_P999 (rs_Latency r)) @ '' | '' @
       formatDur (sn_Max (rs_Latency r)) @ '' | '' @ FormatUint (rs_Errors r) @ '' |'')"

definition details :: "Result \<Rightarrow> string" where
  "details r =
     line (''### '' @ rs_Scenario r @ '' (concurrency='' @ FormatInt (rs_Concurrency r) @ '', duration='' @ formatDur (rs_Duration r) @ '')'') @
     line [] @
     line (''- Total requests: '' @ FormatUint (rs_Count r)) @
     line (''- RPS: '' @ fmt_fixed 1 (rs_RPS r)) @
     line (''- Errors: '' @ FormatUint (rs_Errors r)) @
     line (''- Status class: '' @ statusClassSummary (rs_StatusClass r)) @
     line ''- Latency:'' @
     line (''  - min='' @ formatDur (sn_Min (rs_Latency r)) @ '' mean='' @ formatDur (sn_Mean (rs_Latency r)) @ '' max='' @
       formatDur (sn_Max (rs_Latency r))) @
     line (''  - p50='' @ formatDur (sn_P50 (rs_Latency r)) @ '' p90='' @ formatDur (sn_P90 (rs_Latency r)) @ '' p95='' @
       formatDur (sn_P95 (rs_Latency r)) @ '' p99='' @ formatDur (sn_P99 (rs_Latency r)) @ '' p99.9='' @
       formatDur (sn_P999 (rs_Latency r))) @
     line []"

definition RenderMarkdown :: "string \<Rightarrow> Result list \<Rightarrow> string" where
  "RenderMarkdown title results0 =
     line (''# '' @ title) @ line [] @
     (if results0 = [] then line ''_No results._''
      else let results = sort_key report_order results0 in
        env_lines (rs_Env (hd results)) @
        line ''## Summary'' @
        line ''| Scenario | Conc | Dur | RPS | P50 | P95 | P99 | P99.9 | Max | Errors |'' @
        line ''|---|---:|---:|---:|---:|---:|---:|---:|---:|---:|'' @
        concat (map summary_row results) @ line [] @
        line ''## Details'' @ concat (map details results))"

section \<open>Properties\<close>

lemma sort_key_unique:
  assumes "mset xs = mset ys" "distinct (map f xs)"
  shows "sort_key f xs = sort_key f ys"
proof (rule map_sorted_distinct_set_unique [of f])
  have d: "distinct (map f ys)" using assms by (metis mset_map mset_eq_imp_distinct_iff)
  show "inj_on f (set (sort_key f xs) \<union> set (sort_key f ys))"
    using assms by (simp add: distinct_map mset_eq_setD [OF assms(1)])
  show "sorted (map f (sort_key f xs))" "sorted (map f (sort_key f ys))" by simp_all
  show "distinct (map f (sort_key f xs))" "distinct (map f (sort_key f ys))"
    using assms(2) d by (simp_all add: distinct_map distinct_sort)
  show "set (sort_key f xs) = set (sort_key f ys)" using mset_eq_setD [OF assms(1)] by simp
qed

text \<open>The report does not depend on the order of its input. For results of which no two have the
  same scenario and concurrency, every arrangement of them gives the same text, so that two
  reports of the same results compare equal.\<close>

lemma report_deterministic:
  assumes "mset rs = mset rs'" and "distinct (map report_order rs)"
  shows "RenderMarkdown title rs = RenderMarkdown title rs'"
proof -
  have "rs = [] \<longleftrightarrow> rs' = []" using assms(1) by auto
  then show ?thesis using sort_key_unique [OF assms] by (simp add: RenderMarkdown_def)
qed


end
