(* ===== verification/Go_Number.thy ===== *)
theory Go_Number
  imports Go_Duration Go_Json
begin

text \<open>
  Numbers in JSON texts: a \<^verbatim>\<open>float64\<close> printed with the fewest digits that read back as the same
  double, as \<^verbatim>\<open>strconv.AppendFloat\<close> with precision -1 does, and read with correct rounding, overflow
  and subnormal numbers included. A non-negative normal double reads back from its text, because
  seventeen digits always suffice. Signed integers are here too.
\<close>

section \<open>Reading\<close>

text \<open>Rounding to the nearest double over the whole range; \<^term>\<open>None\<close> is an overflow.\<close>

definition float64_full :: "rat \<Rightarrow> rat option" where
  "float64_full x = (if x \<le> 0 then Some 0
     else let u = 2 powi (max (ilog2 x - 52) (- 1074)); r = of_int (round_even (x / u)) * u in
       if r \<ge> 2 ^ 1024 then None else Some r)"

definition exp_value :: "string \<Rightarrow> int" where
  "exp_value s = (case s of [] \<Rightarrow> 0
     | c # r \<Rightarrow> if r \<noteq> [] \<and> hd r = CHR ''-'' then - int (nat_of_dec (tl r))
         else if r \<noteq> [] \<and> hd r = CHR ''+'' then int (nat_of_dec (tl r)) else int (nat_of_dec r))"

text \<open>The number that an unsigned literal of the JSON grammar denotes.\<close>

definition dec_value :: "string \<Rightarrow> rat" where
  "dec_value s =
     (let i = takeWhile is_digit s; r = dropWhile is_digit s;
          dot = (r \<noteq> [] \<and> hd r = CHR ''.'');
          f = (if dot then takeWhile is_digit (tl r) else []); ex = (if dot then dropWhile is_digit (tl r) else r) in
      of_nat (nat_of_dec (i @ f)) * 10 powi (exp_value ex - int (length f)))"

definition ParseFloat :: "string \<Rightarrow> rat option" where
  "ParseFloat s =
     (if s \<noteq> [] \<and> hd s = CHR ''-'' then map_option uminus (float64_full (dec_value (tl s))) else float64_full (dec_value s))"

section \<open>Printing\<close>

text \<open>The decimal of \<open>n\<close> digits that stands for a double, if there is one: the nearest, when both neighbours do.\<close>

definition shortest_at :: "rat \<Rightarrow> nat \<Rightarrow> nat option" where
  "shortest_at x n =
     (let q = 10 powi (ilog 10 x - int n + 1); lo = nat \<lfloor>x / q\<rfloor>;
          down = (float64 (of_nat lo * q) = x); up = (float64 (of_nat (Suc lo) * q) = x) in
      if down \<and> up then Some (nat (round_even (x / q)))
      else if down then Some lo else if up then Some (Suc lo) else None)"

fun shortest_from :: "rat \<Rightarrow> nat list \<Rightarrow> nat \<times> nat" where
  "shortest_from x [] = (0, 0)"
| "shortest_from x (n # ns) = (case shortest_at x n of Some c \<Rightarrow> (n, c) | None \<Rightarrow> shortest_from x ns)"

definition strip_zeros :: "string \<Rightarrow> string" where
  "strip_zeros w = rev (dropWhile (\<lambda>c. c = CHR ''0'') (rev w))"

text \<open>The digits and the position of the decimal point.\<close>

definition shortest :: "rat \<Rightarrow> string \<times> int" where
  "shortest x = (let (n, c) = shortest_from x [1 ..< 18]; w = dec_of_nat c in
     (strip_zeros w, ilog 10 x + 1 + int (length w) - int n))"

definition fmt_f :: "string \<Rightarrow> int \<Rightarrow> string" where
  "fmt_f ds dp =
     (if dp > 0 then take (nat dp) ds @ replicate (nat dp - length ds) CHR ''0'' else ''0'') @
     (if int (length ds) > dp then ''.'' @ replicate (nat (- dp)) CHR ''0'' @ drop (nat dp) ds else [])"

definition fmt_e :: "string \<Rightarrow> int \<Rightarrow> string" where
  "fmt_e ds dp = hd ds # (if tl ds \<noteq> [] then CHR ''.'' # tl ds else []) @ ''e'' @
     (if dp - 1 < 0 then ''-'' else ''+'') @ dec_of_nat (nat \<bar>dp - 1\<bar>)"

text \<open>The encoder of package json.\<close>

definition float_text :: "rat \<Rightarrow> string" where
  "float_text x =
     (if x = 0 then ''0''
      else let (ds, dp) = shortest x in
        if x < float64 (1 / 1000000) \<or> x \<ge> 10 ^ 21 then fmt_e ds dp else fmt_f ds dp)"

section \<open>Seventeen digits suffice\<close>

lemma powi_le: "1 < b \<Longrightarrow> m \<le> n \<Longrightarrow> (of_nat b :: rat) powi m \<le> of_nat b powi n"
  by (rule power_int_increasing) simp_all

lemma ilog_unique:
  assumes "1 < b" "of_nat b powi e \<le> x" "x < of_nat b powi (e + 1)"
  shows "ilog b x = e"
proof -
  have "0 < (of_nat b :: rat) powi e" using assms(1) by simp
  then have x: "0 < x" using assms(2) by linarith
  note B = ilog_bounds [OF x assms(1)]
  show ?thesis
  proof (rule antisym)
    show "ilog b x \<le> e" using powi_le [OF assms(1), of "e + 1" "ilog b x"] B assms by (meson leD le_less_trans not_le zless_imp_add1_zle)
    show "e \<le> ilog b x" using powi_le [OF assms(1), of "ilog b x + 1" e] B assms by (meson leD le_less_trans not_le zless_imp_add1_zle less_le_trans)
  qed
qed

lemma round_even_near: "\<bar>y - of_int m\<bar> < 1/2 \<Longrightarrow> round_even y = m"
proof -
  assume y: "\<bar>y - of_int m\<bar> < 1/2"
  show ?thesis
  proof (cases "of_int m \<le> y")
    case True
    then have "\<lfloor>y\<rfloor> = m" using y by (simp add: floor_eq_iff)
    then show ?thesis using y True by (simp add: round_even_def Let_def)
  next
    case False
    then have "\<lfloor>y\<rfloor> = m - 1" using y by (simp add: floor_eq_iff)
    then show ?thesis using y False by (simp add: round_even_def Let_def)
  qed
qed

text \<open>Rounding from within half a unit of the seventeenth digit gives the double back.\<close>

lemma float64_near:
  assumes fx: "float64 x = x" and x: "0 < x" and near: "\<bar>v - x\<bar> \<le> x / (2 * 10 ^ 16)"
  shows "float64 v = x"
proof -
  define E where "E = ilog2 x"
  define u where "u = (2 :: rat) powi (E - 52)"
  have u: "0 < u" by (simp add: u_def)
  have pw: "2 powi E = 2 ^ 52 * u" "2 powi (E + 1) = 2 ^ 53 * u" "2 powi (E - 1) = 2 ^ 51 * u" "2 powi (E - 53) = u / 2"
    by (simp_all add: u_def power_int_diff power_int_add)
  define m where "m = round_even (x / u)"
  have xm: "x = of_int m * u" using fx x by (simp add: float64_def Let_def m_def u_def E_def)
  have mlt: "m < 2 ^ 53" and mge: "2 ^ 52 \<le> m"
  proof -
    have "x < 2 powi (E + 1)" "2 powi E \<le> x" using ilog2_bounds [OF x] by (simp_all add: E_def)
    then have lt: "of_int m * u < of_int (2 ^ 53) * u" and le: "of_int (2 ^ 52) * u \<le> of_int m * u" by (simp_all add: pw xm)
    show "m < 2 ^ 53" using lt u by simp
    show "2 ^ 52 \<le> m" using le u by simp
  qed
  have mr: "rat_of_int m \<le> 2 ^ 53 - 1" "2 ^ 52 \<le> rat_of_int m"
    using mlt mge of_int_le_iff [of m "2 ^ 53 - 1", where ?'a = rat] of_int_le_iff [of "2 ^ 52" m, where ?'a = rat] by simp_all
  define t where "t = v / u"
  have v: "v = t * u" using u by (simp add: t_def)
  have nr: "\<bar>t - of_int m\<bar> \<le> of_int m / (2 * 10 ^ 16)"
  proof -
    have "\<bar>t - of_int m\<bar> * u = \<bar>v - x\<bar>" using u by (simp add: v xm abs_mult flip: left_diff_distrib)
    also have "\<dots> \<le> of_int m / (2 * 10 ^ 16) * u" using near by (simp add: xm)
    finally show ?thesis using u by simp
  qed
  then have half: "\<bar>t - of_int m\<bar> < 1/2" using mr by simp
  show ?thesis
  proof (cases "2 ^ 52 \<le> t")
    case True
    have "t < 2 ^ 53" using half mr(1) by linarith
    then have "ilog2 v = E" by (intro ilog_unique) (use True u in \<open>simp_all add: pw v\<close>)
    moreover have "0 < v" using True u by (simp add: v)
    ultimately show ?thesis using round_even_near [OF half] u by (simp add: float64_def Let_def u_def [symmetric] t_def xm)
  next
    case False
    have "rat_of_int m < 2 ^ 52 + 1" using False half by linarith
    then have "m < 2 ^ 52 + 1" using of_int_less_iff [of m "2 ^ 52 + 1", where ?'a = rat] by simp
    then have m: "m = 2 ^ 52" using mge by simp
    have "rat_of_int m - 1 \<le> t" using half by linarith
    then have "2 ^ 51 \<le> t" by (simp add: m)
    then have "ilog2 v = E - 1" by (intro ilog_unique) (use False u in \<open>simp_all add: pw v\<close>)
    moreover have "round_even (v / (u / 2)) = 2 ^ 53"
    proof (rule round_even_near)
      have "v / (u / 2) = 2 * t" using u by (simp add: v)
      then show "\<bar>v / (u / 2) - of_int (2 ^ 53)\<bar> < 1 / 2" using nr by (simp add: m abs_if split: if_splits)
    qed
    moreover have "0 < v" using \<open>2 ^ 51 \<le> t\<close> u by (simp add: v)
    ultimately show ?thesis by (simp add: float64_def Let_def pw xm m)
  qed
qed

lemma shortest_17:
  assumes fx: "float64 x = x" and x: "0 < x"
  shows "shortest_at x 17 \<noteq> None"
proof -
  define e where "e = ilog 10 x"
  define q where "q = (10 :: rat) powi (e - int 17 + 1)"
  have q: "0 < q" by (simp add: q_def)
  have "10 powi e = 10 ^ 16 * q" by (simp add: q_def power_int_diff power_int_add)
  then have qx: "q \<le> x / 10 ^ 16" using ilog_bounds(1) [OF x, of 10] by (simp add: e_def)
  define lo where "lo = nat \<lfloor>x / q\<rfloor>"
  have f: "of_nat lo \<le> x / q" "x / q < of_nat lo + 1"
    using x q floor_correct [of "x / q"] by (simp_all add: lo_def)
  have near: "float64 (of_nat k * q) = x" if "\<bar>of_nat k - x / q\<bar> \<le> 1 / 2" for k
  proof (rule float64_near [OF fx x])
    have "of_nat k * q - x = (of_nat k - x / q) * q" using q by (simp add: left_diff_distrib)
    then have "\<bar>of_nat k * q - x\<bar> = \<bar>of_nat k - x / q\<bar> * q" using q by (simp add: abs_mult)
    also have "\<dots> \<le> 1 / 2 * q" using that q by (intro mult_right_mono) simp_all
    also have "\<dots> \<le> x / (2 * 10 ^ 16)" using qx by simp
    finally show "\<bar>of_nat k * q - x\<bar> \<le> x / (2 * 10 ^ 16)" .
  qed
  have "x / q - of_nat lo \<le> 1 / 2 \<or> of_nat (Suc lo) - x / q \<le> 1 / 2" by simp linarith
  then have "float64 (of_nat lo * q) = x \<or> float64 (of_nat (Suc lo) * q) = x"
  proof
    assume "x / q - of_nat lo \<le> 1 / 2"
    then have "\<bar>of_nat lo - x / q\<bar> \<le> 1 / 2" using f by linarith
    then show ?thesis using near by blast
  next
    assume "of_nat (Suc lo) - x / q \<le> 1 / 2"
    then have "\<bar>of_nat (Suc lo) - x / q\<bar> \<le> 1 / 2" using f by simp
    then show ?thesis using near by blast
  qed
  then show ?thesis unfolding shortest_at_def e_def [symmetric] q_def [symmetric] lo_def [symmetric] Let_def by auto
qed

lemma round_even_floor: "round_even y = \<lfloor>y\<rfloor> \<or> round_even y = \<lfloor>y\<rfloor> + 1"
  by (simp add: round_even_def Let_def)

lemma shortest_at_value:
  assumes "shortest_at x n = Some c" "0 < x"
  shows "float64 (of_nat c * 10 powi (ilog 10 x - int n + 1)) = x"
proof -
  let ?q = "(10 :: rat) powi (ilog 10 x - int n + 1)"
  have "0 \<le> x / ?q" using assms(2) by simp
  then have "0 \<le> \<lfloor>x / ?q\<rfloor>" by simp
  then have "nat (round_even (x / ?q)) = nat \<lfloor>x / ?q\<rfloor> \<or> nat (round_even (x / ?q)) = Suc (nat \<lfloor>x / ?q\<rfloor>)"
    using round_even_floor [of "x / ?q"] by (auto simp: nat_add_distrib)
  then show ?thesis using assms(1) by (auto simp: shortest_at_def Let_def split: if_splits)
qed

lemma shortest_from_value:
  assumes "\<exists>n \<in> set ns. shortest_at x n \<noteq> None" "0 < x"
  obtains n c where "shortest_from x ns = (n, c)" "float64 (of_nat c * 10 powi (ilog 10 x - int n + 1)) = x"
  using assms(1)
proof (induction ns arbitrary: thesis)
  case (Cons n ns)
  show ?case
  proof (cases "shortest_at x n")
    case None
    then show ?thesis using Cons by (auto split: option.splits)
  next
    case (Some c)
    then show ?thesis using Cons.prems(1) [of n c] shortest_at_value [OF Some assms(2)] by simp
  qed
qed simp

text \<open>The value of digits with a decimal point.\<close>

definition point_value :: "string \<Rightarrow> int \<Rightarrow> rat" where
  "point_value ds dp = of_nat (nat_of_dec ds) * 10 powi (dp - int (length ds))"

lemma strip_zeros:
  obtains k where "w = strip_zeros w @ replicate k CHR ''0''"
proof -
  define z where "z = takeWhile (\<lambda>c. c = CHR ''0'') (rev w)"
  have z: "replicate (length z) CHR ''0'' = z" by (rule replicate_length_same) (auto simp: z_def dest: set_takeWhileD)
  have "rev w = z @ rev (strip_zeros w)" by (simp add: z_def strip_zeros_def)
  then have "w = strip_zeros w @ rev z" using rev_append [of z "rev (strip_zeros w)"] rev_rev_ident [of w] by simp
  moreover have "rev z = replicate (length z) CHR ''0''" using rev_replicate [of "length z" "CHR ''0''"] z by simp
  ultimately show ?thesis using that by metis
qed

lemma point_value_zeros: "point_value (s @ replicate k CHR ''0'') dp = point_value s dp"
proof -
  have "(10 :: rat) powi (dp - int (length s)) = 10 ^ k * 10 powi (dp - int (length s) - int k)"
    by (simp add: power_int_diff)
  then show ?thesis by (simp add: point_value_def nat_of_dec_zeros algebra_simps)
qed

lemma shortest_value:
  assumes "float64 x = x" "0 < x" "shortest x = (ds, dp)"
  shows "float64 (point_value ds dp) = x" "list_all is_digit ds" "ds \<noteq> []" "hd ds \<noteq> CHR ''0''"
proof -
  obtain n c where nc: "shortest_from x [1 ..< 18] = (n, c)" "float64 (of_nat c * 10 powi (ilog 10 x - int n + 1)) = x"
    by (rule shortest_from_value [of "[1 ..< 18]" x]) (use shortest_17 [OF assms(1,2)] assms(2) in auto)
  obtain k where k: "dec_of_nat c = strip_zeros (dec_of_nat c) @ replicate k CHR ''0''" by (rule strip_zeros)
  have d: "ds = strip_zeros (dec_of_nat c)" "dp = ilog 10 x + 1 + int (length (dec_of_nat c)) - int n"
    using assms(3) nc(1) by (simp_all add: shortest_def Let_def del: One_nat_def)
  have "point_value (dec_of_nat c) dp = of_nat c * 10 powi (ilog 10 x - int n + 1)"
    by (simp add: point_value_def nat_of_dec_of_nat d algebra_simps)
  then show "float64 (point_value ds dp) = x" using nc(2) point_value_zeros [of ds k dp] k by (simp add: d(1))
  show "list_all is_digit ds" using dec_of_nat_digits [of c] k d(1) by (metis list_all_append)
  have "c \<noteq> 0" using nc(2) assms(2) by (intro notI) (simp add: float64_def)
  then have c: "hd (dec_of_nat c) \<noteq> CHR ''0''"
    using dec_of_nat_hd [of c] code_digit_char [of c] by (cases "c < 10") (auto simp: dec_of_nat.simps [of c])
  show "ds \<noteq> []"
  proof
    assume "ds = []"
    then have r: "dec_of_nat c = replicate k CHR ''0''" using k d(1) by simp
    then have "k \<noteq> 0" using dec_of_nat_ne [of c] by (metis replicate_0)
    then show False using c unfolding r by simp
  qed
  then show "hd ds \<noteq> CHR ''0''" using c k d(1) by (metis hd_append2)
qed

section \<open>Literals\<close>

definition literal :: "string \<Rightarrow> string \<Rightarrow> string \<Rightarrow> string" where
  "literal i f ex = i @ (if f = [] then [] else CHR ''.'' # f) @ ex"

definition exp_part :: "string \<Rightarrow> bool" where
  "exp_part ex \<longleftrightarrow> ex = [] \<or> (\<exists>sg n. ex = ''e'' @ [sg] @ dec_of_nat n \<and> sg \<in> {CHR ''-'', CHR ''+''})"

lemma exp_part_hd: "exp_part ex \<Longrightarrow> ex = [] \<or> \<not> is_digit (hd ex) \<and> hd ex \<noteq> CHR ''.''"
  by (auto simp: exp_part_def is_digit_def)

lemma digit_block:
  assumes "list_all is_digit i" "r = [] \<or> \<not> is_digit (hd r)"
  shows "takeWhile is_digit (i @ r) = i" "dropWhile is_digit (i @ r) = r"
  using assms by (cases r; auto simp: list_all_iff)+

lemma literal_value:
  assumes "list_all is_digit i" "list_all is_digit f" "exp_part ex"
  shows "dec_value (literal i f ex) = of_nat (nat_of_dec (i @ f)) * 10 powi (exp_value ex - int (length f))"
proof -
  let ?r = "(if f = [] then [] else CHR ''.'' # f) @ ex"
  have "?r = [] \<or> \<not> is_digit (hd ?r)" using exp_part_hd [OF assms(3)] by (auto simp: is_digit_def)
  note tw = digit_block [OF assms(1) this]
  have d: "dec_value (literal i f ex) = (let r = ?r; dot = (r \<noteq> [] \<and> hd r = CHR ''.'');
          f = (if dot then takeWhile is_digit (tl r) else []); ex = (if dot then dropWhile is_digit (tl r) else r) in
      of_nat (nat_of_dec (i @ f)) * 10 powi (exp_value ex - int (length f)))"
    unfolding dec_value_def literal_def tw Let_def ..
  show ?thesis
  proof (cases "f = []")
    case True
    then show ?thesis using d exp_part_hd [OF assms(3)] by (auto simp: Let_def)
  next
    case False
    have "ex = [] \<or> \<not> is_digit (hd ex)" using exp_part_hd [OF assms(3)] by blast
    from digit_block [OF assms(2) this] False show ?thesis using d by (simp add: Let_def)
  qed
qed

lemma exp_part_valid: "exp_part ex \<Longrightarrow> valid_exp ex \<and> list_all num_char ex"
proof -
  have "list_all num_char (dec_of_nat n)" for n by (rule dec_of_nat_number)
  moreover have "num_char CHR ''e''" "num_char CHR ''-''" "num_char CHR ''+''" by (simp_all add: num_char_def)
  ultimately show "exp_part ex \<Longrightarrow> ?thesis" using dec_of_nat_digits by (auto simp: exp_part_def valid_exp_def)
qed

lemma literal_valid:
  assumes "list_all is_digit i" "i \<noteq> []" "hd i = CHR ''0'' \<longrightarrow> length i = 1" "list_all is_digit f" "exp_part ex"
  shows "valid_number (literal i f ex)" "list_all num_char (literal i f ex)"
proof -
  let ?r = "(if f = [] then [] else CHR ''.'' # f) @ ex"
  have "?r = [] \<or> \<not> is_digit (hd ?r)" using exp_part_hd [OF assms(5)] by (auto simp: is_digit_def)
  note tw = digit_block [OF assms(1) this]
  have frac: "valid_frac ?r"
  proof (cases "f = []")
    case True
    then show ?thesis using exp_part_valid [OF assms(5)] exp_part_hd [OF assms(5)] by (auto simp: valid_frac_def split: list.splits)
  next
    case False
    have "ex = [] \<or> \<not> is_digit (hd ex)" using exp_part_hd [OF assms(5)] by blast
    from digit_block [OF assms(4) this] False show ?thesis using exp_part_valid [OF assms(5)] by (simp add: valid_frac_def)
  qed
  obtain c cs where i: "i = c # cs" using assms(2) by (cases i) auto
  have "c \<noteq> CHR ''-''" using assms(1) i by (auto simp: is_digit_def)
  then have "valid_number (i @ ?r) = (let j = takeWhile is_digit (i @ ?r) in
      j \<noteq> [] \<and> (hd j = CHR ''0'' \<longrightarrow> length j = 1) \<and> valid_frac (dropWhile is_digit (i @ ?r)))"
    by (simp add: valid_number_def i Let_def)
  then show "valid_number (literal i f ex)" unfolding literal_def tw Let_def using assms(2,3) frac by blast
  have "list_all num_char ds" if "list_all is_digit ds" for ds using that by (auto simp: list_all_iff num_char_def)
  then show "list_all num_char (literal i f ex)"
    using assms exp_part_valid [OF assms(5)] by (simp add: literal_def num_char_def)
qed

text \<open>Both formats are literals for their digits.\<close>

lemma fmt_f_literal:
  assumes "list_all is_digit ds" "ds \<noteq> []" "hd ds \<noteq> CHR ''0''"
  obtains i f where "fmt_f ds dp = literal i f []" "list_all is_digit i" "list_all is_digit f" "i \<noteq> []" "hd i = CHR ''0'' \<longrightarrow> length i = 1"
    "of_nat (nat_of_dec (i @ f)) * 10 powi (- int (length f)) = point_value ds dp"
proof -
  have z: "list_all is_digit (replicate k CHR ''0'')" for k by (auto simp: list_all_iff is_digit_def)
  consider "dp \<le> 0" | "0 < dp" "dp < int (length ds)" | "int (length ds) \<le> dp" by linarith
  then show ?thesis
  proof cases
    case 1
    let ?f = "replicate (nat (- dp)) CHR ''0'' @ ds"
    have lt: "dp < int (length ds)" using 1 assms(2) by (cases ds) auto
    have "''0'' @ ?f = replicate (Suc (nat (- dp))) CHR ''0'' @ ds" by simp
    then have v: "nat_of_dec (''0'' @ ?f) = nat_of_dec ds" by (simp only: nat_of_dec_lead)
    show ?thesis
      by (rule that [of "''0''" ?f])
        (use 1 lt assms z v in \<open>simp_all add: fmt_f_def literal_def point_value_def is_digit_def\<close>)
  next
    case 2
    let ?i = "take (nat dp) ds" and ?f = "drop (nat dp) ds"
    have "list_all is_digit (?i @ ?f)" using assms(1) by simp
    then have d: "list_all is_digit ?i" "list_all is_digit ?f" by (simp_all only: list_all_append)
    have "- int (length ?f) = dp - int (length ds)" "hd ?i = hd ds" "?i \<noteq> []" "?f \<noteq> []"
      "nat dp - length ds = 0" using 2 assms(2) by auto
    then show ?thesis
      by (intro that [of ?i ?f]) (use 2 assms d in \<open>simp_all add: fmt_f_def literal_def point_value_def\<close>)
  next
    case 3
    then have p: "0 < dp" using assms(2) by (cases ds) auto
    define k where "k = nat dp - length ds"
    have k: "dp - int (length ds) = int k" "take (nat dp) ds = ds" using 3 by (simp_all add: k_def)
    show ?thesis
      by (rule that [of "ds @ replicate k CHR ''0''" "[]"])
        (use 3 p assms z k in \<open>simp_all add: fmt_f_def literal_def point_value_def nat_of_dec_zeros k_def [symmetric]\<close>)
  qed
qed

lemma fmt_e_literal:
  assumes "list_all is_digit ds" "ds \<noteq> []" "hd ds \<noteq> CHR ''0''"
  obtains ex where "fmt_e ds dp = literal [hd ds] (tl ds) ex" "exp_part ex"
    "of_nat (nat_of_dec ([hd ds] @ tl ds)) * 10 powi (exp_value ex - int (length (tl ds))) = point_value ds dp"
proof -
  let ?ex = "''e'' @ (if dp - 1 < 0 then ''-'' else ''+'') @ dec_of_nat (nat \<bar>dp - 1\<bar>)"
  have e: "exp_value ?ex = dp - 1" by (simp add: exp_value_def nat_of_dec_of_nat)
  have l: "dp - 1 - int (length (tl ds)) = dp - int (length ds)" using assms(2) by (cases ds) simp_all
  show ?thesis
  proof (rule that [of ?ex])
    show "exp_part ?ex" by (auto simp: exp_part_def)
    show "of_nat (nat_of_dec ([hd ds] @ tl ds)) * 10 powi (exp_value ?ex - int (length (tl ds))) = point_value ds dp"
      unfolding e l point_value_def using assms(2) by simp
  qed (simp add: fmt_e_def literal_def)
qed

section \<open>Doubles read back\<close>

definition normal64 :: "rat \<Rightarrow> bool" where
  "normal64 x \<longleftrightarrow> x = 0 \<or> (2 powi (- 1022) < x \<and> x < 2 ^ 1024 \<and> float64 x = x)"

lemma float64_full_normal:
  assumes "float64 v = x" "2 powi (- 1022) < x" "x < 2 ^ 1024"
  shows "float64_full v = Some x"
proof -
  have "(0 :: rat) < 2 powi (- 1022)" by (rule zero_less_power_int) simp
  then have x: "0 < x" using assms(2) by linarith
  have v: "0 < v" using assms(1) x by (rule_tac ccontr) (simp add: float64_def)
  define E where "E = ilog2 v"
  have "v < 2 powi (E + 1)" using ilog2_bounds(2) [OF v] by (simp add: E_def)
  then have "v / 2 powi (E - 52) \<le> of_int (2 ^ 53)" by (simp add: power_int_diff power_int_add field_simps)
  then have "rat_of_int (round_even (v / 2 powi (E - 52))) \<le> of_int (2 ^ 53)" using round_even_le by (simp only: of_int_le_iff)
  then have "x \<le> of_int (2 ^ 53) * 2 powi (E - 52)"
    using mult_right_mono [of _ _ "2 powi (E - 52)"] assms(1) v by (fastforce simp: float64_def Let_def E_def)
  also have "\<dots> = 2 powi (E + 1)" by (simp add: power_int_diff power_int_add)
  finally have "x \<le> 2 powi (E + 1)" .
  have "\<not> E + 1 \<le> - 1022"
  proof
    assume "E + 1 \<le> - 1022"
    then have "(2 :: rat) powi (E + 1) \<le> 2 powi (- 1022)" by (rule power_int_increasing) simp
    with \<open>x \<le> 2 powi (E + 1)\<close> assms(2) show False by linarith
  qed
  then have "max (E - 52) (- 1074) = E - 52" by simp
  then show ?thesis using assms v by (simp add: float64_full_def float64_def Let_def E_def)
qed

text \<open>The text of a double is a JSON number and reads back as the same double.\<close>

lemma float_text_roundtrip:
  assumes "normal64 x"
  shows "valid_number (float_text x)" "list_all num_char (float_text x)" "ParseFloat (float_text x) = Some x"
proof -
  have "valid_number (float_text x) \<and> list_all num_char (float_text x) \<and> ParseFloat (float_text x) = Some x"
  proof (cases "x = 0")
    case True
    have "float_text x = literal ''0'' [] []" using True by (simp add: float_text_def literal_def)
    then show ?thesis
      using literal_valid [of "''0''" "[]" "[]"] literal_value [of "''0''" "[]" "[]"] True
      by (simp add: exp_part_def is_digit_def ParseFloat_def literal_def float64_full_def nat_of_dec_def)
  next
    case False
    then have n: "2 powi (- 1022) < x" "x < 2 ^ 1024" "float64 x = x" using assms by (simp_all add: normal64_def)
    have "(0 :: rat) < 2 powi (- 1022)" by (rule zero_less_power_int) simp
    then have x: "0 < x" using n(1) by linarith
    obtain ds dp where s: "shortest x = (ds, dp)" by fastforce
    note S = shortest_value [OF n(3) x s]
    obtain i f ex where l: "float_text x = literal i f ex" "list_all is_digit i" "list_all is_digit f" "i \<noteq> []"
      "hd i = CHR ''0'' \<longrightarrow> length i = 1" "exp_part ex"
      "of_nat (nat_of_dec (i @ f)) * 10 powi (exp_value ex - int (length f)) = point_value ds dp"
    proof (cases "x < float64 (1 / 1000000) \<or> x \<ge> 10 ^ 21")
      case True
      then have t: "float_text x = fmt_e ds dp" using False s by (simp add: float_text_def)
      obtain ex where "fmt_e ds dp = literal [hd ds] (tl ds) ex" "exp_part ex"
        "of_nat (nat_of_dec ([hd ds] @ tl ds)) * 10 powi (exp_value ex - int (length (tl ds))) = point_value ds dp"
        by (rule fmt_e_literal [OF S(2,3,4), of dp])
      then show ?thesis using that [of "[hd ds]" "tl ds" ex] t S(2,3) by (cases ds) simp_all
    next
      case F: False
      then have t: "float_text x = fmt_f ds dp" using False s by (simp add: float_text_def)
      obtain i f where "fmt_f ds dp = literal i f []" "list_all is_digit i" "list_all is_digit f" "i \<noteq> []" "hd i = CHR ''0'' \<longrightarrow> length i = 1"
        "of_nat (nat_of_dec (i @ f)) * 10 powi (- int (length f)) = point_value ds dp"
        by (rule fmt_f_literal [OF S(2,3,4), of dp])
      then show ?thesis using that [of i f "[]"] t by (simp add: exp_part_def exp_value_def)
    qed
    have "literal i f ex = hd i # tl i @ (if f = [] then [] else CHR ''.'' # f) @ ex" using l(4) by (cases i) (simp_all add: literal_def)
    moreover have "hd i \<noteq> CHR ''-''" using l(2,4) by (cases i) (auto simp: is_digit_def)
    ultimately have "ParseFloat (float_text x) = float64_full (dec_value (literal i f ex))" by (simp add: ParseFloat_def l(1))
    also have "\<dots> = Some x" using float64_full_normal [OF S(1) n(1,2)] by (simp add: literal_value [OF l(2,3,6)] l(7))
    finally show ?thesis using literal_valid [OF l(2,4,5,3,6)] l(1) by simp
  qed
  then show "valid_number (float_text x)" "list_all num_char (float_text x)" "ParseFloat (float_text x) = Some x" by simp_all
qed

text \<open>Rounding to a double stays within a factor of two and is idempotent.\<close>

lemma float64_decompose:
  assumes "0 < x"
  obtains m where "float64 x = of_int m * 2 powi (ilog2 x - 52)" "2 ^ 52 \<le> m" "m \<le> 2 ^ 53"
proof -
  define u where "u = (2 :: rat) powi (ilog2 x - 52)"
  have u: "0 < u" by (simp add: u_def)
  have "of_int (2 ^ 52) \<le> x / u" unfolding u_def by (rule float64_mantissa [OF assms])
  moreover have "x / u \<le> of_int (2 ^ 53)"
    using ilog2_bounds(2) [OF assms] u by (simp add: u_def power_int_diff power_int_add field_simps)
  ultimately have "2 ^ 52 \<le> round_even (x / u)" "round_even (x / u) \<le> 2 ^ 53" using round_even_ge round_even_le by blast+
  then show ?thesis using that assms by (simp add: float64_def Let_def u_def)
qed

lemma float64_factor:
  assumes "0 < x"
  shows "x / 2 \<le> float64 x" "float64 x \<le> 2 * x"
proof -
  define E where "E = ilog2 x"
  define u where "u = (2 :: rat) powi (E - 52)"
  have u: "0 < u" by (simp add: u_def)
  obtain m where m: "float64 x = of_int m * u" "2 ^ 52 \<le> m" "m \<le> 2 ^ 53" using float64_decompose [OF assms] by (auto simp: u_def E_def)
  have pw: "2 powi E = of_int (2 ^ 52) * u" "2 powi (E + 1) = of_int (2 ^ 53) * u" by (simp_all add: u_def power_int_diff power_int_add)
  have x: "2 powi E \<le> x" "x < 2 powi (E + 1)" using ilog2_bounds [OF assms] by (simp_all add: E_def)
  have "of_int (2 ^ 52) * u \<le> of_int m * u" "of_int m * u \<le> of_int (2 ^ 53) * u"
    using m u by (simp_all only: mult_le_cancel_right of_int_le_iff) simp_all
  then have "2 powi E \<le> float64 x" "float64 x \<le> 2 powi (E + 1)" "(2 :: rat) powi (E + 1) = 2 * 2 powi E" unfolding pw m(1) by simp_all
  then show "x / 2 \<le> float64 x" "float64 x \<le> 2 * x" using x by linarith+
qed

lemma float64_idem: "float64 (float64 x) = float64 x"
proof (cases "0 < x")
  case True
  define E where "E = ilog2 x"
  define u where "u = (2 :: rat) powi (E - 52)"
  have u: "0 < u" by (simp add: u_def)
  obtain m where m: "float64 x = of_int m * u" "2 ^ 52 \<le> m" "m \<le> 2 ^ 53" using float64_decompose [OF True] by (auto simp: u_def E_def)
  have pw: "2 powi E = of_int (2 ^ 52) * u" "2 powi (E + 1) = of_int (2 ^ 53) * u" "2 powi (2 + E) = of_int (2 ^ 54) * u" "2 powi (E - 51) = 2 * u"
    by (simp_all add: u_def power_int_diff power_int_add)
  have pos: "0 < float64 x" by (rule float64_pos [OF True])
  show ?thesis
  proof (cases "m = 2 ^ 53")
    case True
    have "ilog2 (float64 x) = E + 1" by (rule ilog_unique) (use pw u m(1) True in simp_all)
    moreover have "float64 x / 2 powi (E + 1 - 52) = rat_of_int (2 ^ 52)" using u pw(4) by (simp add: m(1) True)
    ultimately have "float64 (float64 x) = of_int (2 ^ 52) * 2 powi (E + 1 - 52)"
      using pos by (simp only: float64_def [of "float64 x"] Let_def round_even_int) simp
    then show ?thesis using pw(4) by (simp add: m(1) True)
  next
    case False
    then have "m < 2 ^ 53" using m(3) by simp
    then have "of_int m * u < of_int (2 ^ 53) * u" "of_int (2 ^ 52) * u \<le> of_int m * u"
      using m(2) u by (simp_all only: mult_less_cancel_right mult_le_cancel_right of_int_le_iff of_int_less_iff) simp_all
    then have "ilog2 (float64 x) = E" by (intro ilog_unique) (use pw m(1) in simp_all)
    moreover have "float64 x / 2 powi (E - 52) = rat_of_int m" by (simp add: m(1) u_def)
    ultimately have "float64 (float64 x) = of_int m * 2 powi (E - 52)"
      using pos by (simp only: float64_def [of "float64 x"] Let_def round_even_int) simp
    then show ?thesis by (simp add: m(1) u_def)
  qed
qed (simp add: float64_def)

lemma normal64_float64:
  assumes "x = 0 \<or> 2 powi (- 1000) \<le> x \<and> x \<le> 2 ^ 1000"
  shows "normal64 (float64 x)"
proof (cases "x = 0")
  case False
  have "(2 :: rat) powi (- 1000) = 2 ^ 22 * 2 powi (- 1022)" by (simp add: power_int_def field_simps)
  moreover have p: "(0 :: rat) < 2 powi (- 1022)" by (rule zero_less_power_int) simp
  ultimately have lo: "2 * (2 :: rat) powi (- 1022) < 2 powi (- 1000)" by simp
  have x: "2 powi (- 1000) \<le> x" "x \<le> 2 ^ 1000" using assms False by simp_all
  then have "0 < x" using lo p by linarith
  note F = float64_factor [OF this]
  have "2 powi (- 1022) < float64 x" using F(1) x(1) lo by linarith
  moreover have "(2 :: rat) * 2 ^ 1000 < 2 ^ 1024" by simp
  then have "float64 x < 2 ^ 1024" using F(2) x(2) by linarith
  ultimately show ?thesis by (simp add: normal64_def float64_idem)
qed (simp add: float64_def normal64_def)

end
