(* ===== verification/Bench_Json.thy ===== *)
theory Bench_Json
  imports Bench_Load Go_Number
begin

text \<open>
  \<^verbatim>\<open>SaveJSON\<close> and \<^verbatim>\<open>LoadJSON\<close> of \<^verbatim>\<open>bench/load.go\<close>: a result as an indented JSON file, with its times in
  the format RFC 3339, its durations as nanoseconds and its rate as the shortest decimal of the
  double. The file system is a parameter, and so is the lenient parser \<^verbatim>\<open>time.Parse\<close>, which the library
  tries on texts that the strict one refuses. (A time with escapes in its JSON string, which the
  library refuses, is not told apart from one without.) A saved result loads back as itself.
\<close>

section \<open>Encoding\<close>

definition json_int :: "int \<Rightarrow> json" where
  "json_int i = JNum (FormatInt i)"

definition snapshot_fields :: "Snapshot \<Rightarrow> json" where
  "snapshot_fields sn = JObj [(''count'', json_uint (sn_Count sn)), (''min_ns'', json_int (sn_Min sn)), (''mean_ns'', json_int (sn_Mean sn)),
     (''p50_ns'', json_int (sn_P50 sn)), (''p90_ns'', json_int (sn_P90 sn)), (''p95_ns'', json_int (sn_P95 sn)),
     (''p99_ns'', json_int (sn_P99 sn)), (''p999_ns'', json_int (sn_P999 sn)), (''max_ns'', json_int (sn_Max sn))]"

definition env_fields :: "Env \<Rightarrow> string \<Rightarrow> json" where
  "env_fields env stamp = JObj ([(''timestamp'', JStr stamp), (''go_version'', JStr (en_Go env)), (''goos'', JStr (en_GOOS env)),
     (''goarch'', JStr (en_GOARCH env)), (''num_cpu'', json_int (en_NumCPU env)), (''gomaxprocs'', json_int (en_GOMAXPROCS env)),
     (''hostname'', JStr (en_Hostname env))] @
     (if en_PaladinBuild env = [] then [] else [(''paladin_build'', JStr (en_PaladinBuild env))]))"

text \<open>\<^term>\<open>None\<close> is the error of a time that has no RFC 3339 text.\<close>

definition result_json :: "Result \<Rightarrow> json option" where
  "result_json r = (case (time_text (rs_StartedAt r), time_text (en_Timestamp (rs_Env r))) of
      (Some started, Some stamp) \<Rightarrow>
        Some (JObj ([(''scenario'', JStr (rs_Scenario r)), (''started_at'', JStr started), (''duration_ns'', json_int (rs_Duration r)),
          (''concurrency'', json_int (rs_Concurrency r))] @
          (if rs_RPSCap r = 0 then [] else [(''rps_cap'', json_int (rs_RPSCap r))]) @
          [(''count'', json_uint (rs_Count r)), (''errors'', json_uint (rs_Errors r)),
           (''status_class'', JArr (map json_uint (rs_StatusClass r))), (''rps'', JNum (float_text (rs_RPS r))),
           (''latency'', snapshot_fields (rs_Latency r)), (''env'', env_fields (rs_Env r) stamp)]))
    | _ \<Rightarrow> None)"

text \<open>
  \<open>create\<close> is \<^verbatim>\<open>os.Create\<close> after \<^verbatim>\<open>MkdirAll\<close>, whose error is ignored; \<open>write\<close> gives the error of a write
  and what is in the file then. The answer is the error and the contents of the file, if there
  is one.
\<close>

definition SaveJSON ::
  "(string \<Rightarrow> err option) \<Rightarrow> (string \<Rightarrow> string \<Rightarrow> err option \<times> string) \<Rightarrow> Result \<Rightarrow> string \<Rightarrow> err option \<times> string option" where
  "SaveJSON create write r path = (case create path of
      Some e \<Rightarrow> (Some e, None)
    | None \<Rightarrow>
        (case result_json r of
           None \<Rightarrow> (Some ErrJson, Some [])
         | Some j \<Rightarrow> (case write path (marshal_indent ''  '' j @ [CHR 0x0A]) of (e, text) \<Rightarrow> (e, Some text))))"

section \<open>Decoding\<close>

definition set_int :: "int \<Rightarrow> json \<Rightarrow> int option" where
  "set_int old j = (case j of JNum t \<Rightarrow> Atoi t | JNull \<Rightarrow> Some old | _ \<Rightarrow> None)"

definition set_float :: "rat \<Rightarrow> json \<Rightarrow> rat option" where
  "set_float old j = (case j of JNum t \<Rightarrow> ParseFloat t | JNull \<Rightarrow> Some old | _ \<Rightarrow> None)"

definition set_time :: "(string \<Rightarrow> Time option) \<Rightarrow> Time \<Rightarrow> json \<Rightarrow> Time option" where
  "set_time lenient old j = (case j of
      JStr s \<Rightarrow> (case parse_RFC3339 s of Some t \<Rightarrow> Some t | None \<Rightarrow> lenient s)
    | JNull \<Rightarrow> Some old | _ \<Rightarrow> None)"

text \<open>An array of fixed length: extra elements are ignored, missing ones become zero.\<close>

fun decode_array :: "u64 list \<Rightarrow> json list \<Rightarrow> u64 list option" where
  "decode_array [] js = Some []"
| "decode_array (old # olds) [] = Some (0 # replicate (length olds) 0)"
| "decode_array (old # olds) (j # js) =
     (case set_uint old j of None \<Rightarrow> None | Some x \<Rightarrow> map_option ((#) x) (decode_array olds js))"

definition set_array :: "u64 list \<Rightarrow> json \<Rightarrow> u64 list option" where
  "set_array olds j = (case j of JArr js \<Rightarrow> decode_array olds js | JNull \<Rightarrow> Some olds | _ \<Rightarrow> None)"

definition set_snapshot :: "string \<Rightarrow> json \<Rightarrow> Snapshot \<Rightarrow> Snapshot option" where
  "set_snapshot k j sn =
     (if field_name k ''count'' then map_option (\<lambda>x. sn\<lparr>sn_Count := x\<rparr>) (set_uint (sn_Count sn) j)
      else if field_name k ''min_ns'' then map_option (\<lambda>x. sn\<lparr>sn_Min := x\<rparr>) (set_int (sn_Min sn) j)
      else if field_name k ''mean_ns'' then map_option (\<lambda>x. sn\<lparr>sn_Mean := x\<rparr>) (set_int (sn_Mean sn) j)
      else if field_name k ''p50_ns'' then map_option (\<lambda>x. sn\<lparr>sn_P50 := x\<rparr>) (set_int (sn_P50 sn) j)
      else if field_name k ''p90_ns'' then map_option (\<lambda>x. sn\<lparr>sn_P90 := x\<rparr>) (set_int (sn_P90 sn) j)
      else if field_name k ''p95_ns'' then map_option (\<lambda>x. sn\<lparr>sn_P95 := x\<rparr>) (set_int (sn_P95 sn) j)
      else if field_name k ''p99_ns'' then map_option (\<lambda>x. sn\<lparr>sn_P99 := x\<rparr>) (set_int (sn_P99 sn) j)
      else if field_name k ''p999_ns'' then map_option (\<lambda>x. sn\<lparr>sn_P999 := x\<rparr>) (set_int (sn_P999 sn) j)
      else if field_name k ''max_ns'' then map_option (\<lambda>x. sn\<lparr>sn_Max := x\<rparr>) (set_int (sn_Max sn) j)
      else Some sn)"

definition set_env :: "(string \<Rightarrow> Time option) \<Rightarrow> string \<Rightarrow> json \<Rightarrow> Env \<Rightarrow> Env option" where
  "set_env lenient k j en =
     (if field_name k ''timestamp'' then map_option (\<lambda>x. en\<lparr>en_Timestamp := x\<rparr>) (set_time lenient (en_Timestamp en) j)
      else if field_name k ''go_version'' then map_option (\<lambda>x. en\<lparr>en_Go := x\<rparr>) (set_string (en_Go en) j)
      else if field_name k ''goos'' then map_option (\<lambda>x. en\<lparr>en_GOOS := x\<rparr>) (set_string (en_GOOS en) j)
      else if field_name k ''goarch'' then map_option (\<lambda>x. en\<lparr>en_GOARCH := x\<rparr>) (set_string (en_GOARCH en) j)
      else if field_name k ''num_cpu'' then map_option (\<lambda>x. en\<lparr>en_NumCPU := x\<rparr>) (set_int (en_NumCPU en) j)
      else if field_name k ''gomaxprocs'' then map_option (\<lambda>x. en\<lparr>en_GOMAXPROCS := x\<rparr>) (set_int (en_GOMAXPROCS en) j)
      else if field_name k ''hostname'' then map_option (\<lambda>x. en\<lparr>en_Hostname := x\<rparr>) (set_string (en_Hostname en) j)
      else if field_name k ''paladin_build'' then map_option (\<lambda>x. en\<lparr>en_PaladinBuild := x\<rparr>) (set_string (en_PaladinBuild en) j)
      else Some en)"

definition set_result :: "(string \<Rightarrow> Time option) \<Rightarrow> string \<Rightarrow> json \<Rightarrow> Result \<Rightarrow> Result option" where
  "set_result lenient k j r =
     (if field_name k ''scenario'' then map_option (\<lambda>x. r\<lparr>rs_Scenario := x\<rparr>) (set_string (rs_Scenario r) j)
      else if field_name k ''started_at'' then map_option (\<lambda>x. r\<lparr>rs_StartedAt := x\<rparr>) (set_time lenient (rs_StartedAt r) j)
      else if field_name k ''duration_ns'' then map_option (\<lambda>x. r\<lparr>rs_Duration := x\<rparr>) (set_int (rs_Duration r) j)
      else if field_name k ''concurrency'' then map_option (\<lambda>x. r\<lparr>rs_Concurrency := x\<rparr>) (set_int (rs_Concurrency r) j)
      else if field_name k ''rps_cap'' then map_option (\<lambda>x. r\<lparr>rs_RPSCap := x\<rparr>) (set_int (rs_RPSCap r) j)
      else if field_name k ''count'' then map_option (\<lambda>x. r\<lparr>rs_Count := x\<rparr>) (set_uint (rs_Count r) j)
      else if field_name k ''errors'' then map_option (\<lambda>x. r\<lparr>rs_Errors := x\<rparr>) (set_uint (rs_Errors r) j)
      else if field_name k ''status_class'' then map_option (\<lambda>x. r\<lparr>rs_StatusClass := x\<rparr>) (set_array (rs_StatusClass r) j)
      else if field_name k ''rps'' then map_option (\<lambda>x. r\<lparr>rs_RPS := x\<rparr>) (set_float (rs_RPS r) j)
      else if field_name k ''latency'' then map_option (\<lambda>x. r\<lparr>rs_Latency := x\<rparr>) (decode_struct set_snapshot j (rs_Latency r))
      else if field_name k ''env'' then map_option (\<lambda>x. r\<lparr>rs_Env := x\<rparr>) (decode_struct (set_env lenient) j (rs_Env r))
      else Some r)"

text \<open>The zero values; the zero time is the first of January of the year 1.\<close>

definition zeroTime :: Time where
  "zeroTime = \<lparr>tm_unixNano = - 62135596800 * giga, tm_offset = 0\<rparr>"

definition zeroSnapshot :: Snapshot where
  "zeroSnapshot = \<lparr>sn_Count = 0, sn_Min = 0, sn_Mean = 0, sn_P50 = 0, sn_P90 = 0, sn_P95 = 0, sn_P99 = 0, sn_P999 = 0, sn_Max = 0\<rparr>"

definition zeroEnv :: Env where
  "zeroEnv = \<lparr>en_Timestamp = zeroTime, en_Go = [], en_GOOS = [], en_GOARCH = [], en_NumCPU = 0, en_GOMAXPROCS = 0,
     en_Hostname = [], en_PaladinBuild = []\<rparr>"

definition zeroResult :: Result where
  "zeroResult = \<lparr>rs_Scenario = [], rs_StartedAt = zeroTime, rs_Duration = 0, rs_Concurrency = 0, rs_RPSCap = 0, rs_Count = 0,
     rs_Errors = 0, rs_StatusClass = replicate 6 0, rs_RPS = 0, rs_Latency = zeroSnapshot, rs_Env = zeroEnv\<rparr>"

definition LoadJSON :: "(string \<Rightarrow> err + string) \<Rightarrow> (string \<Rightarrow> Time option) \<Rightarrow> string \<Rightarrow> err + Result" where
  "LoadJSON read lenient path = (case read path of
      Inl e \<Rightarrow> Inl e
    | Inr data \<Rightarrow>
        (case Option.bind (unmarshal data) (\<lambda>j. decode_struct (set_result lenient) j zeroResult) of
           None \<Rightarrow> Inl (Wrap (''decode '' @ path) ErrJson)
         | Some r \<Rightarrow> Inr r))"

section \<open>Numbers\<close>

lemma unmarshal_indent_newline:
  assumes "wf_json j" and "list_all is_ws ind"
  shows "unmarshal (marshal_indent ind j @ [CHR 0x0A]) = Some (coerced j)"
proof -
  have "list_all is_ws (CHR 0x0A # concat (replicate d ind))" for d
    using assms(2) by (induction d) (auto simp: is_ws_def)
  moreover have "num_end [CHR 0x0A]" by (simp add: num_end_def num_char_def is_digit_def)
  ultimately have "parse_value (Suc (length (marshal_indent ind j @ [CHR 0x0A]))) (marshal_indent ind j @ [CHR 0x0A]) = Some (coerced j, [CHR 0x0A])"
    unfolding marshal_indent_def by (intro parse_render) (use assms(1) in \<open>simp_all add: is_ws_def\<close>)
  then show ?thesis by (simp add: unmarshal_def skip_ws_def is_ws_def)
qed

definition fits64 :: "int \<Rightarrow> bool" where
  "fits64 i \<longleftrightarrow> - (2 ^ 63) \<le> i \<and> i < 2 ^ 63"

lemma FormatInt_number: "valid_number (FormatInt i)" "list_all num_char (FormatInt i)"
proof -
  have "valid_number (CHR ''-'' # dec_of_nat n)" for n
  proof -
    obtain c r where c: "dec_of_nat n = c # r" by (cases "dec_of_nat n") auto
    then have "c \<noteq> CHR ''-''" using dec_of_nat_digits [of n] by (auto simp: is_digit_def)
    then show ?thesis using dec_of_nat_number(1) [of n] c by (simp add: valid_number_def)
  qed
  then show "valid_number (FormatInt i)" by (simp add: FormatInt_def dec_of_nat_number)
  show "list_all num_char (FormatInt i)" by (simp add: FormatInt_def dec_of_nat_number num_char_def)
qed

lemma json_int_wf [simp]: "wf_json (json_int i)" "coerced (json_int i) = json_int i"
  by (simp_all add: json_int_def FormatInt_number)

lemma Atoi_FormatInt: "fits64 i \<Longrightarrow> Atoi (FormatInt i) = Some i"
proof -
  assume i: "fits64 i"
  have d: "list_all is_digit (dec_of_nat n)" "dec_of_nat n \<noteq> []" for n by (simp_all add: dec_of_nat_digits)
  show ?thesis
  proof (cases "i < 0")
    case True
    then show ?thesis using i d by (simp add: Atoi_def FormatInt_def nat_of_dec_of_nat fits64_def)
  next
    case False
    obtain c r where c: "dec_of_nat (nat i) = c # r" by (cases "dec_of_nat (nat i)") auto
    then have "c \<noteq> CHR ''-''" "c \<noteq> CHR ''+''" using dec_of_nat_digits [of "nat i"] by (auto simp: is_digit_def)
    then show ?thesis using i d [of "nat i"] False nat_of_dec_of_nat [of "nat i"] by (simp add: Atoi_def FormatInt_def fits64_def c)
  qed
qed

lemma set_int_json [simp]: "fits64 i \<Longrightarrow> set_int old (json_int i) = Some i"
  by (simp add: set_int_def json_int_def Atoi_FormatInt)

lemma set_float_json [simp]: "normal64 x \<Longrightarrow> set_float old (JNum (float_text x)) = Some x"
  by (simp add: set_float_def float_text_roundtrip)

lemma decode_array_json: "length olds = length xs \<Longrightarrow> decode_array olds (map json_uint xs) = Some xs"
  by (induction olds xs rule: list_induct2) simp_all

section \<open>Round trip\<close>

text \<open>The results whose fields fit their Go types, with times that have a text and strings of valid UTF-8.\<close>

definition snapshot_ok :: "Snapshot \<Rightarrow> bool" where
  "snapshot_ok sn \<longleftrightarrow> fits64 (sn_Min sn) \<and> fits64 (sn_Mean sn) \<and> fits64 (sn_P50 sn) \<and> fits64 (sn_P90 sn) \<and> fits64 (sn_P95 sn) \<and>
     fits64 (sn_P99 sn) \<and> fits64 (sn_P999 sn) \<and> fits64 (sn_Max sn)"

definition env_ok :: "Env \<Rightarrow> bool" where
  "env_ok en \<longleftrightarrow> time_ok (en_Timestamp en) \<and> utf8_valid (en_Go en) \<and> utf8_valid (en_GOOS en) \<and> utf8_valid (en_GOARCH en) \<and>
     fits64 (en_NumCPU en) \<and> fits64 (en_GOMAXPROCS en) \<and> utf8_valid (en_Hostname en) \<and> utf8_valid (en_PaladinBuild en)"

definition result_ok :: "Result \<Rightarrow> bool" where
  "result_ok r \<longleftrightarrow> utf8_valid (rs_Scenario r) \<and> time_ok (rs_StartedAt r) \<and> fits64 (rs_Duration r) \<and> fits64 (rs_Concurrency r) \<and>
     fits64 (rs_RPSCap r) \<and> length (rs_StatusClass r) = 6 \<and> normal64 (rs_RPS r) \<and> snapshot_ok (rs_Latency r) \<and> env_ok (rs_Env r)"

text \<open>The names of the fields are in lower case.\<close>

lemma fold_lower: "list_all (\<lambda>c. code c < 128 \<and> \<not> between 65 90 c) k \<Longrightarrow> fold_name k = k"
  by (induction k rule: fold_name.induct) (auto simp: lower_char_def)

lemma field_names [simp]:
  "fold_name ''count'' = ''count''"
  "fold_name ''min_ns'' = ''min_ns''"
  "fold_name ''mean_ns'' = ''mean_ns''"
  "fold_name ''p50_ns'' = ''p50_ns''"
  "fold_name ''p90_ns'' = ''p90_ns''"
  "fold_name ''p95_ns'' = ''p95_ns''"
  "fold_name ''p99_ns'' = ''p99_ns''"
  "fold_name ''p999_ns'' = ''p999_ns''"
  "fold_name ''max_ns'' = ''max_ns''"
  "fold_name ''timestamp'' = ''timestamp''"
  "fold_name ''go_version'' = ''go_version''"
  "fold_name ''goos'' = ''goos''"
  "fold_name ''goarch'' = ''goarch''"
  "fold_name ''num_cpu'' = ''num_cpu''"
  "fold_name ''gomaxprocs'' = ''gomaxprocs''"
  "fold_name ''hostname'' = ''hostname''"
  "fold_name ''paladin_build'' = ''paladin_build''"
  "fold_name ''scenario'' = ''scenario''"
  "fold_name ''started_at'' = ''started_at''"
  "fold_name ''duration_ns'' = ''duration_ns''"
  "fold_name ''concurrency'' = ''concurrency''"
  "fold_name ''rps_cap'' = ''rps_cap''"
  "fold_name ''errors'' = ''errors''"
  "fold_name ''status_class'' = ''status_class''"
  "fold_name ''rps'' = ''rps''"
  "fold_name ''latency'' = ''latency''"
  "fold_name ''env'' = ''env''"
  by (rule fold_lower, code_simp)+

lemma names_coerced [simp]:
  "utf8_coerce ''count'' = ''count''"
  "utf8_coerce ''min_ns'' = ''min_ns''"
  "utf8_coerce ''mean_ns'' = ''mean_ns''"
  "utf8_coerce ''p50_ns'' = ''p50_ns''"
  "utf8_coerce ''p90_ns'' = ''p90_ns''"
  "utf8_coerce ''p95_ns'' = ''p95_ns''"
  "utf8_coerce ''p99_ns'' = ''p99_ns''"
  "utf8_coerce ''p999_ns'' = ''p999_ns''"
  "utf8_coerce ''max_ns'' = ''max_ns''"
  "utf8_coerce ''timestamp'' = ''timestamp''"
  "utf8_coerce ''go_version'' = ''go_version''"
  "utf8_coerce ''goos'' = ''goos''"
  "utf8_coerce ''goarch'' = ''goarch''"
  "utf8_coerce ''num_cpu'' = ''num_cpu''"
  "utf8_coerce ''gomaxprocs'' = ''gomaxprocs''"
  "utf8_coerce ''hostname'' = ''hostname''"
  "utf8_coerce ''paladin_build'' = ''paladin_build''"
  "utf8_coerce ''scenario'' = ''scenario''"
  "utf8_coerce ''started_at'' = ''started_at''"
  "utf8_coerce ''duration_ns'' = ''duration_ns''"
  "utf8_coerce ''concurrency'' = ''concurrency''"
  "utf8_coerce ''rps_cap'' = ''rps_cap''"
  "utf8_coerce ''errors'' = ''errors''"
  "utf8_coerce ''status_class'' = ''status_class''"
  "utf8_coerce ''rps'' = ''rps''"
  "utf8_coerce ''latency'' = ''latency''"
  "utf8_coerce ''env'' = ''env''"
  by (rule utf8_coerce_valid, rule utf8_valid_ascii, code_simp)+

lemma set_snapshot_simps [simp]:
  "set_snapshot ''count'' j sn = map_option (\<lambda>x. sn\<lparr>sn_Count := x\<rparr>) (set_uint (sn_Count sn) j)"
  "set_snapshot ''min_ns'' j sn = map_option (\<lambda>x. sn\<lparr>sn_Min := x\<rparr>) (set_int (sn_Min sn) j)"
  "set_snapshot ''mean_ns'' j sn = map_option (\<lambda>x. sn\<lparr>sn_Mean := x\<rparr>) (set_int (sn_Mean sn) j)"
  "set_snapshot ''p50_ns'' j sn = map_option (\<lambda>x. sn\<lparr>sn_P50 := x\<rparr>) (set_int (sn_P50 sn) j)"
  "set_snapshot ''p90_ns'' j sn = map_option (\<lambda>x. sn\<lparr>sn_P90 := x\<rparr>) (set_int (sn_P90 sn) j)"
  "set_snapshot ''p95_ns'' j sn = map_option (\<lambda>x. sn\<lparr>sn_P95 := x\<rparr>) (set_int (sn_P95 sn) j)"
  "set_snapshot ''p99_ns'' j sn = map_option (\<lambda>x. sn\<lparr>sn_P99 := x\<rparr>) (set_int (sn_P99 sn) j)"
  "set_snapshot ''p999_ns'' j sn = map_option (\<lambda>x. sn\<lparr>sn_P999 := x\<rparr>) (set_int (sn_P999 sn) j)"
  "set_snapshot ''max_ns'' j sn = map_option (\<lambda>x. sn\<lparr>sn_Max := x\<rparr>) (set_int (sn_Max sn) j)"
  by (simp_all add: set_snapshot_def field_name_def del: fold_name.simps)

lemma set_env_simps [simp]:
  "set_env lenient ''timestamp'' j r = map_option (\<lambda>x. r\<lparr>en_Timestamp := x\<rparr>) (set_time lenient (en_Timestamp r) j)"
  "set_env lenient ''go_version'' j r = map_option (\<lambda>x. r\<lparr>en_Go := x\<rparr>) (set_string (en_Go r) j)"
  "set_env lenient ''goos'' j r = map_option (\<lambda>x. r\<lparr>en_GOOS := x\<rparr>) (set_string (en_GOOS r) j)"
  "set_env lenient ''goarch'' j r = map_option (\<lambda>x. r\<lparr>en_GOARCH := x\<rparr>) (set_string (en_GOARCH r) j)"
  "set_env lenient ''num_cpu'' j r = map_option (\<lambda>x. r\<lparr>en_NumCPU := x\<rparr>) (set_int (en_NumCPU r) j)"
  "set_env lenient ''gomaxprocs'' j r = map_option (\<lambda>x. r\<lparr>en_GOMAXPROCS := x\<rparr>) (set_int (en_GOMAXPROCS r) j)"
  "set_env lenient ''hostname'' j r = map_option (\<lambda>x. r\<lparr>en_Hostname := x\<rparr>) (set_string (en_Hostname r) j)"
  "set_env lenient ''paladin_build'' j r = map_option (\<lambda>x. r\<lparr>en_PaladinBuild := x\<rparr>) (set_string (en_PaladinBuild r) j)"
  by (simp_all add: set_env_def field_name_def del: fold_name.simps)

lemma set_result_simps [simp]:
  "set_result lenient ''scenario'' j r = map_option (\<lambda>x. r\<lparr>rs_Scenario := x\<rparr>) (set_string (rs_Scenario r) j)"
  "set_result lenient ''started_at'' j r = map_option (\<lambda>x. r\<lparr>rs_StartedAt := x\<rparr>) (set_time lenient (rs_StartedAt r) j)"
  "set_result lenient ''duration_ns'' j r = map_option (\<lambda>x. r\<lparr>rs_Duration := x\<rparr>) (set_int (rs_Duration r) j)"
  "set_result lenient ''concurrency'' j r = map_option (\<lambda>x. r\<lparr>rs_Concurrency := x\<rparr>) (set_int (rs_Concurrency r) j)"
  "set_result lenient ''rps_cap'' j r = map_option (\<lambda>x. r\<lparr>rs_RPSCap := x\<rparr>) (set_int (rs_RPSCap r) j)"
  "set_result lenient ''count'' j r = map_option (\<lambda>x. r\<lparr>rs_Count := x\<rparr>) (set_uint (rs_Count r) j)"
  "set_result lenient ''errors'' j r = map_option (\<lambda>x. r\<lparr>rs_Errors := x\<rparr>) (set_uint (rs_Errors r) j)"
  "set_result lenient ''status_class'' j r = map_option (\<lambda>x. r\<lparr>rs_StatusClass := x\<rparr>) (set_array (rs_StatusClass r) j)"
  "set_result lenient ''rps'' j r = map_option (\<lambda>x. r\<lparr>rs_RPS := x\<rparr>) (set_float (rs_RPS r) j)"
  "set_result lenient ''latency'' j r = map_option (\<lambda>x. r\<lparr>rs_Latency := x\<rparr>) (decode_struct set_snapshot j (rs_Latency r))"
  "set_result lenient ''env'' j r = map_option (\<lambda>x. r\<lparr>rs_Env := x\<rparr>) (decode_struct (set_env lenient) j (rs_Env r))"
  by (simp_all add: set_result_def field_name_def del: fold_name.simps)

lemma decode_snapshot_fields: "snapshot_ok sn \<Longrightarrow> decode_struct set_snapshot (snapshot_fields sn) old = Some sn"
  by (simp add: snapshot_fields_def snapshot_ok_def)

lemma set_time_text: "parse_RFC3339 s = Some t \<Longrightarrow> set_time lenient old (JStr s) = Some t"
  by (simp add: set_time_def)

lemma decode_env_fields:
  "env_ok en \<Longrightarrow> parse_RFC3339 stamp = Some (en_Timestamp en) \<Longrightarrow> decode_struct (set_env lenient) (env_fields en stamp) zeroEnv = Some en"
  by (cases "en_PaladinBuild en = []") (simp_all add: env_fields_def env_ok_def zeroEnv_def set_time_text)

text \<open>The texts of times are ASCII.\<close>

lemma ascii_dec: "list_all (\<lambda>c. code c < 0x80) (dec_of_nat n)" "list_all (\<lambda>c. code c < 0x80) (pad_left w (dec_of_nat n))"
  using dec_of_nat_digits [of n] by (auto simp: list_all_iff is_digit_def pad_left_def)

lemma ascii_appendInt: "list_all (\<lambda>c. code c < 0x80) (appendInt w i)"
  using ascii_dec by (simp add: appendInt_def)

lemma time_text_ascii: "time_text t = Some s \<Longrightarrow> utf8_valid s"
proof (rule utf8_valid_ascii)
  assume "time_text t = Some s"
  then have s: "s = format_RFC3339 True t" by (simp add: time_text_def split: prod.splits if_splits)
  have "list_all is_digit (frac_digits 9 n)" for n using frac_digits(1) [of 9 n] by simp
  then have "list_all (\<lambda>c. code c < 0x80) (frac_digits 9 n)" for n by (fastforce simp: list_all_iff is_digit_def)
  then show "list_all (\<lambda>c. code c < 0x80) s"
    using ascii_appendInt by (simp add: s format_RFC3339_def date_text_def clock_text_def nanos_text_def zone_text_def Let_def split: prod.splits)
qed

lemma coerced_fields:
  "coerced (snapshot_fields sn) = snapshot_fields sn" "wf_json (snapshot_fields sn)"
  "env_ok en \<Longrightarrow> utf8_valid stamp \<Longrightarrow> coerced (env_fields en stamp) = env_fields en stamp" "wf_json (env_fields en stamp)"
  by (simp_all add: snapshot_fields_def env_fields_def env_ok_def utf8_coerce_valid)

lemma result_json_decodes:
  assumes "result_ok r"
  obtains j where "result_json r = Some j" "wf_json j" "coerced j = j" "decode_struct (set_result lenient) j zeroResult = Some r"
proof -
  have ok: "utf8_valid (rs_Scenario r)" "time_ok (rs_StartedAt r)" "fits64 (rs_Duration r)" "fits64 (rs_Concurrency r)"
     "fits64 (rs_RPSCap r)" "length (rs_StatusClass r) = 6" "normal64 (rs_RPS r)" "snapshot_ok (rs_Latency r)" "env_ok (rs_Env r)"
    using assms by (simp_all add: result_ok_def)
  then have "time_ok (en_Timestamp (rs_Env r))" by (simp add: env_ok_def)
  with ok(2) obtain started stamp where t: "time_text (rs_StartedAt r) = Some started" "parse_RFC3339 started = Some (rs_StartedAt r)"
    "time_text (en_Timestamp (rs_Env r)) = Some stamp" "parse_RFC3339 stamp = Some (en_Timestamp (rs_Env r))"
    using parse_time_text by metis
  note v = time_text_ascii [OF t(1)] time_text_ascii [OF t(3)]
  obtain j where j: "result_json r = Some j" by (simp add: result_json_def t)
  note jd = j [symmetric, unfolded result_json_def t, simplified]
  show ?thesis
  proof (rule that [OF j])
    show "wf_json j" unfolding jd using coerced_fields float_text_roundtrip [OF ok(7)] by (simp add: list_all_iff)
    show "coerced j = j" unfolding jd using coerced_fields(1) coerced_fields(3) [OF ok(9) v(2)] v ok(1) by (simp add: utf8_coerce_valid)
    have "set_array (replicate 6 0) (JArr (map json_uint (rs_StatusClass r))) = Some (rs_StatusClass r)"
      using decode_array_json [of "replicate 6 0" "rs_StatusClass r"] ok(6) by (simp add: set_array_def)
    then show "decode_struct (set_result lenient) j zeroResult = Some r"
      unfolding jd zeroResult_def
      using decode_snapshot_fields [OF ok(8)] decode_env_fields [OF ok(9) t(4)] ok t(2)
      by (cases "rs_RPSCap r = 0") (simp_all add: set_time_text)
  qed
qed

section \<open>The results of runs\<close>

lemma Seconds_bounds:
  assumes "0 < d" "d < 2 ^ 63"
  shows "1 / (4 * 1000000000) \<le> Seconds d" "Seconds d \<le> 2 ^ 65"
proof -
  define a where "a = rat_of_int (d div second)"
  define b where "b = rat_of_int (d mod second) / 1000000000"
  have s: "second = 1000000000" by (simp add: second_def)
  have nn: "0 \<le> a" "0 \<le> b" using assms(1) by (simp_all add: a_def b_def s pos_imp_zdiv_nonneg_iff)
  have "rat_of_int (d div second * second + d mod second) = of_int d" by simp
  then have ab: "a + b = of_int d / 1000000000" by (simp only: of_int_add of_int_mult) (simp add: a_def b_def s)
  have half: "x / 2 \<le> float64 x \<and> float64 x \<le> 2 * x" if "0 \<le> x" for x
    using that float64_factor [of x] by (cases "x = 0") (simp_all add: float64_def [of 0])
  have inner: "(a + b) / 2 \<le> float64 a + float64 b" "float64 a + float64 b \<le> 2 * (a + b)" 
    using half [OF nn(1)] half [OF nn(2)] by (simp_all add: add_divide_distrib)
  have "0 \<le> (a + b) / 2" using nn by simp
  then have "0 \<le> float64 a + float64 b" using inner(1) by (rule order_trans)
  note o = half [OF this]
  have S: "Seconds d = float64 (float64 a + float64 b)" by (simp add: Seconds_def a_def b_def)
  have "rat_of_int 1 \<le> of_int d" "rat_of_int d \<le> of_int (2 ^ 63)" using assms by (simp_all only: of_int_le_iff)
  then have "1 / 1000000000 \<le> a + b" "a + b \<le> 2 ^ 63" unfolding ab by simp_all
  then show "1 / (4 * 1000000000) \<le> Seconds d" "Seconds d \<le> 2 ^ 65" unfolding S using o inner by simp_all
qed

lemma rate_normal:
  assumes "0 < d" "d < 2 ^ 63" "n < 2 ^ 64"
  shows "normal64 (float64 (float64 (of_nat n) / Seconds d))"
proof (cases "n = 0")
  case False
  let ?c = "rat_of_nat n" and ?s = "Seconds d"
  note S = Seconds_bounds [OF assms(1,2)]
  have c: "1 \<le> ?c" using False by simp
  have "rat_of_nat n \<le> of_nat (2 ^ 64)" using assms(3) by (simp only: of_nat_le_iff)
  then have "?c \<le> 2 ^ 64" by simp
  then have f: "1 / 2 \<le> float64 ?c" "float64 ?c \<le> 2 ^ 65" using float64_factor [of ?c] c by simp_all
  have s: "0 < ?s" using S(1) by (rule less_le_trans [rotated]) simp
  have "(1 / 2) / 2 ^ 65 \<le> float64 ?c / ?s" by (rule frac_le) (use f S s in simp_all)
  moreover have "float64 ?c / ?s \<le> 2 ^ 65 / (1 / (4 * 1000000000))" by (rule frac_le) (use f S s in simp_all)
  moreover have "(2 :: rat) powi (- 1000) \<le> 2 powi (- 66)" by (rule power_int_increasing) simp_all
  moreover have "(1 / 2) / (2 :: rat) ^ 65 = 2 powi (- 66)" by (simp add: power_int_minus power_int_numeral)
  moreover have "(2 :: rat) ^ 65 / (1 / (4 * 1000000000)) \<le> 2 ^ 1000" by simp
  ultimately have "2 powi (- 1000) \<le> float64 ?c / ?s \<and> float64 ?c / ?s \<le> 2 ^ 1000" by (metis order_trans)
  then show ?thesis by (intro normal64_float64) simp
qed (simp add: float64_def [of 0] normal64_def)

lemma sint_fits64: "fits64 (sint (w :: u64))"
  using sint_ge [of w] sint_lt [of w] by (simp add: fits64_def)

lemma percentile_fits64:
  assumes "hist_ok h" "i + length cs \<le> num_buckets"
  shows "fits64 (percentile_loop h target i cum cs)"
  using assms(2)
proof (induction cs arbitrary: i cum)
  case (Cons c cs)
  have "int i \<le> int num_buckets" using Cons.prems by simp
  then have "fits64 ((int i * h_bucketWidth h + (int i * h_bucketWidth h + h_bucketWidth h)) div 2)"
    using assms(1) by (simp add: hist_ok_def fits64_def num_buckets_def defaultBucketWidth_def defaultMaxLatency_def)
  then show ?case using Cons sint_fits64 unfolding percentile_loop.simps Let_def by simp
qed (simp add: sint_fits64)

lemma snapshot_hist_ok: "hist_ok h \<Longrightarrow> snapshot_ok (hist_Snapshot h)"
proof -
  assume h: "hist_ok h"
  then have "fits64 (hist_Percentile h p)" for p
    using percentile_fits64 [OF h, of 0 "h_buckets h"] by (simp add: hist_Percentile_def hist_ok_def fits64_def)
  moreover have "fits64 0" by (simp add: fits64_def)
  ultimately show ?thesis
    using sint_fits64 by (simp add: snapshot_ok_def hist_Snapshot_def hist_Min_def hist_Mean_def hist_Max_def)
qed

lemma hist_ok_Merge: "hist_ok h \<Longrightarrow> hist_ok g \<Longrightarrow> hist_ok (hist_Merge h (Some g))"
  by (simp add: hist_Merge_def hist_ok_def fold_counts_sel)

lemma hist_ok_merge_all: "\<forall>h \<in> set hs. hist_ok h \<Longrightarrow> hist_ok (merge_all hs)"
proof -
  have "hist_ok g \<Longrightarrow> \<forall>h \<in> set hs. hist_ok h \<Longrightarrow> hist_ok (foldl (\<lambda>total h. hist_Merge total (Some h)) g hs)" for g
    by (induction hs arbitrary: g) (simp_all add: hist_ok_Merge)
  then show "\<forall>h \<in> set hs. hist_ok h \<Longrightarrow> hist_ok (merge_all hs)" using hist_ok_of [of "[]"] by (simp add: merge_all_def)
qed

lemma record_samples_ok:
  "\<forall>h \<in> set (rn_hists st). hist_ok h \<Longrightarrow> \<forall>h \<in> set (rn_hists (foldl (record_sample ms) st xs)). hist_ok h"
proof (induction xs arbitrary: st)
  case (Cons x xs)
  have "\<forall>h \<in> set (rn_hists (record_sample ms st x)). hist_ok h"
  proof (cases "sm_worker x < length (rn_hists st)")
    case True
    let ?h = "hist_Observe (rn_hists st ! sm_worker x) (sm_lat x)"
    have "set ((rn_hists st)[sm_worker x := ?h]) \<subseteq> insert ?h (set (rn_hists st))" by (rule set_update_subset_insert)
    moreover have "hist_ok ?h" using True Cons.prems by simp
    ultimately show ?thesis using Cons.prems by (auto simp: record_sample_def Let_def)
  next
    case False
    then have "rn_hists (record_sample ms st x) = rn_hists st" by (simp add: record_sample_def Let_def list_update_beyond)
    then show ?thesis using Cons.prems by simp
  qed
  from Cons.IH [OF this] show ?case by simp
qed simp

text \<open>What a run needs for its result to have a file.\<close>

definition run_ok :: "string \<Rightarrow> runtime_info \<Rightarrow> run_times \<Rightarrow> LoadConfig \<Rightarrow> bool" where
  "run_ok name ri tms lc \<longleftrightarrow> utf8_valid name \<and> fits64 (ld_Concurrency lc) \<and> fits64 (ld_Duration lc) \<and> fits64 (ld_RPSCap lc) \<and>
     rt_endedAt tms - (rt_startedAt tms + ld_WarmUp lc) < 2 ^ 63 \<and> time_ok (in_zone (rt_zone tms) (rt_startedAt tms + ld_WarmUp lc)) \<and>
     env_ok (CollectEnv ri (in_zone (rt_zone tms) (rt_envAt tms)))"

lemma run_result_ok:
  assumes "run_ok name ri tms lc" "Run name ri tms None lc samples = Inr r"
  shows "result_ok r"
proof -
  let ?ms = "rt_startedAt tms + ld_WarmUp lc"
  define lc' where "lc' = load_defaults lc"
  define total where "total = merge_all (rn_hists (foldl (record_sample ?ms) (run_start lc') samples))"
  define dur where "dur = (if rt_endedAt tms - ?ms \<le> 0 then ld_Duration lc' else rt_endedAt tms - ?ms)"
  have lc: "ld_WarmUp lc' = ld_WarmUp lc" "ld_RPSCap lc' = ld_RPSCap lc" "fits64 (ld_Concurrency lc')" "fits64 (ld_Duration lc')" "0 < ld_Duration lc'"
    using assms(1) by (simp_all add: lc'_def load_defaults_def Let_def run_ok_def fits64_def second_def)
  have "hist_ok NewHist" using hist_ok_of [of "[]"] by simp
  then have "hist_ok total" unfolding total_def by (intro hist_ok_merge_all record_samples_ok) (simp add: run_start_def)
  then have sn: "snapshot_ok (hist_Snapshot total)" by (rule snapshot_hist_ok)
  have dur: "0 < dur" "dur < 2 ^ 63" using lc assms(1) by (auto simp: dur_def run_ok_def fits64_def)
  have rate: "normal64 (float64 (float64 (of_nat (unat (hist_Count total))) / Seconds dur))"
    by (rule rate_normal [OF dur]) (use unsigned_less [of "hist_Count total"] in simp)
  have r: "r = \<lparr>rs_Scenario = name, rs_StartedAt = in_zone (rt_zone tms) ?ms, rs_Duration = dur,
                 rs_Concurrency = ld_Concurrency lc', rs_RPSCap = ld_RPSCap lc', rs_Count = hist_Count total,
                 rs_Errors = rs_Errors r, rs_StatusClass = rs_StatusClass r,
                 rs_RPS = float64 (float64 (of_nat (unat (hist_Count total))) / Seconds dur),
                 rs_Latency = hist_Snapshot total, rs_Env = CollectEnv ri (in_zone (rt_zone tms) (rt_envAt tms))\<rparr>"
    using assms(2) by (auto simp: Run_def run_result_def Let_def lc'_def [symmetric] lc dur_def total_def)
  have "length (rs_StatusClass r) = 6" using assms(2) by (auto simp: Run_def run_result_def Let_def ByClass_def)
  with lc dur rate sn assms(1) show ?thesis
    by (subst r) (simp add: result_ok_def run_ok_def fits64_def)
qed

definition demo_times2 :: run_times where
  "demo_times2 = \<lparr>rt_zone = (\<lambda>_. 3600), rt_startedAt = 946684800 * giga, rt_endedAt = 946684840 * giga, rt_envAt = 946684841 * giga\<rparr>"

lemma demo_run_ok: "run_ok ''write_only'' demo_runtime demo_times2 demo_load"
proof -
  have "time_ok \<lparr>tm_unixNano = t, tm_offset = 3600\<rparr>" if "946684800 * giga \<le> t" "t \<le> 946684841 * giga" for t
  proof -
    have "t div giga \<in> {946684800 .. 946684841}" using that by auto
    then have "(t div giga + 3600) div 86400 = 10957" by auto
    then have "wall_days \<lparr>tm_unixNano = t, tm_offset = 3600\<rparr> = 730485" by (simp add: wall_days_def)
    moreover have "fst (date_of_days 730485) = 2000"
      by (simp add: date_of_days_def find_year.simps [of 0 0] year_days_def leap_def split: prod.splits)
    ultimately show ?thesis by (simp add: time_ok_def)
  qed
  then show ?thesis
    by (simp add: run_ok_def demo_times2_def demo_load_def fits64_def in_zone_def env_ok_def CollectEnv_def demo_runtime_def utf8_valid_ascii)
qed

section \<open>Saved results\<close>

lemma save_load:
  assumes "result_ok r" and "create path = None" and "\<And>p out. write p out = (None, out)"
  shows "\<exists>text. SaveJSON create write r path = (None, Some text) \<and> LoadJSON (\<lambda>_. Inr text) lenient path = Inr r"
proof -
  obtain j where j: "result_json r = Some j" "wf_json j" "coerced j = j" "decode_struct (set_result lenient) j zeroResult = Some r"
    by (rule result_json_decodes [OF assms(1)])
  have "unmarshal (marshal_indent ''  '' j @ [CHR 0x0A]) = Some j"
    using unmarshal_indent_newline [OF j(2), of "''  ''"] j(3) by (simp add: is_ws_def)
  then show ?thesis using assms(2,3) j by (simp add: SaveJSON_def LoadJSON_def)
qed

text \<open>C27: a saved result loads back as itself. When the file can be written, the text that
  \<^verbatim>\<open>SaveJSON\<close> puts into it is read by \<^verbatim>\<open>LoadJSON\<close> as the same result: every counter, every duration, the
  rate to the last bit, the start and the time stamp with their zone, and the environment.\<close>

theorem result_roundtrip:
  assumes "result_ok r" and "create path = None" and "\<And>p out. write p out = (None, out)"
  shows "\<exists>text. SaveJSON create write r path = (None, Some text) \<and> LoadJSON (\<lambda>_. Inr text) lenient path = Inr r"
  by (rule save_load) (rule assms)+

theorem result_roundtrip_witness:
  "\<exists>r text. Run ''write_only'' demo_runtime demo_times2 None demo_load demo_samples = Inr r \<and>
    SaveJSON (\<lambda>_. None) (\<lambda>_ out. (None, out)) r ''r.json'' = (None, Some text) \<and> LoadJSON (\<lambda>_. Inr text) (\<lambda>_. None) ''r.json'' = Inr r"
proof -
  obtain r where r: "Run ''write_only'' demo_runtime demo_times2 None demo_load demo_samples = Inr r"
    by (simp add: Run_def Let_def)
  from result_roundtrip [OF run_result_ok [OF demo_run_ok r], of "\<lambda>_. None" "''r.json''" "\<lambda>_ out. (None, out)" "\<lambda>_. None"] r
  show ?thesis by blast
qed

end
