(* ===== verification/Bench_Main.thy ===== *)
theory Bench_Main
  imports Bench_Report Bench_Json Command_Line
begin

text \<open>
  \<^verbatim>\<open>cmd/paladin-bench/main.go\<close>: the dispatch, the flags of both commands, the list of addresses, the
  choice of the scenario, the run with its summary and output files, the report over a directory
  of result files, and the usage text. The file system, the clock and the requests of a run are
  parameters. Every configuration can be written as arguments, and a configuration that passes
  the checks does not panic.
\<close>

section \<open>Dispatch and addresses\<close>

datatype bench_command = BRun "string list" | BReport "string list" | BHelp | BUsage

definition main_bench :: "string list \<Rightarrow> bench_command" where
  "main_bench args =
     (if length args < 2 then BUsage
      else if args ! 1 = ''run'' then BRun (drop 2 args)
      else if args ! 1 = ''report'' then BReport (drop 2 args)
      else if args ! 1 \<in> {''-h'', ''--help'', ''help''} then BHelp
      else BUsage)"

fun add_addrs :: "string list \<Rightarrow> string list" where
  "add_addrs [] = []"
| "add_addrs (p # ps) = (let p = TrimSpace p in if p \<noteq> [] then p # add_addrs ps else add_addrs ps)"

definition parseAddrs :: "string \<Rightarrow> string list" where
  "parseAddrs s = add_addrs (Split s CHR '','')"

section \<open>Flags and scenario\<close>

record run_flags =
  rf_scenario :: string
  rf_addrs :: string
  rf_tenant :: string
  rf_namespace :: string
  rf_numKeys :: int
  rf_valueSize :: int
  rf_readPercent :: int
  rf_concurrency :: int
  rf_duration :: int
  rf_warmup :: int
  rf_rps :: int
  rf_timeout :: int
  rf_json :: string
  rf_report :: string

definition run_defaults :: run_flags where
  "run_defaults = \<lparr>rf_scenario = ''write_only'', rf_addrs = ''127.0.0.1:8080'', rf_tenant = ''bench'', rf_namespace = ''prod'',
     rf_numKeys = 1000, rf_valueSize = 64, rf_readPercent = 95, rf_concurrency = 32, rf_duration = 30 * second,
     rf_warmup = 3 * second, rf_rps = 0, rf_timeout = 10 * second, rf_json = [], rf_report = []\<rparr>"

text \<open>The flag set of \<^verbatim>\<open>runCmd\<close>: the kinds of the flags, the assignment of a value that was accepted, and the parse.\<close>

definition run_kind :: "string \<Rightarrow> flag_kind option" where
  "run_kind n =
     (if n \<in> {''scenario'', ''addrs'', ''tenant'', ''namespace'', ''json'', ''report''} then Some StringFlag
      else if n \<in> {''num-keys'', ''value-size'', ''read-percent'', ''concurrency'', ''rps''} then Some IntFlag
      else if n \<in> {''duration'', ''warmup'', ''timeout''} then Some DurationFlag else None)"

definition set_run_flag :: "string \<times> string \<Rightarrow> run_flags \<Rightarrow> run_flags" where
  "set_run_flag = (\<lambda>(n, v) f.
     if n = ''scenario'' then f\<lparr>rf_scenario := v\<rparr> else if n = ''addrs'' then f\<lparr>rf_addrs := v\<rparr>
     else if n = ''tenant'' then f\<lparr>rf_tenant := v\<rparr> else if n = ''namespace'' then f\<lparr>rf_namespace := v\<rparr>
     else if n = ''num-keys'' then f\<lparr>rf_numKeys := the (ParseInt0 v)\<rparr>
     else if n = ''value-size'' then f\<lparr>rf_valueSize := the (ParseInt0 v)\<rparr>
     else if n = ''read-percent'' then f\<lparr>rf_readPercent := the (ParseInt0 v)\<rparr>
     else if n = ''concurrency'' then f\<lparr>rf_concurrency := the (ParseInt0 v)\<rparr>
     else if n = ''duration'' then f\<lparr>rf_duration := the (ParseDuration v)\<rparr>
     else if n = ''warmup'' then f\<lparr>rf_warmup := the (ParseDuration v)\<rparr>
     else if n = ''rps'' then f\<lparr>rf_rps := the (ParseInt0 v)\<rparr>
     else if n = ''timeout'' then f\<lparr>rf_timeout := the (ParseDuration v)\<rparr>
     else if n = ''json'' then f\<lparr>rf_json := v\<rparr> else f\<lparr>rf_report := v\<rparr>)"

definition run_args :: "string list \<Rightarrow> nat + run_flags" where
  "run_args args = map_sum (\<lambda>c. c) (\<lambda>as. fold set_run_flag as run_defaults) (parse_flags run_kind args)"

definition scenario_config :: "run_flags \<Rightarrow> ScenarioConfig" where
  "scenario_config f = \<lparr>sc_Addrs = parseAddrs (rf_addrs f), sc_Tenant = rf_tenant f, sc_Namespace = rf_namespace f,
     sc_NumKeys = rf_numKeys f, sc_ValueSize = rf_valueSize f, sc_Timeout = rf_timeout f\<rparr>"

text \<open>The checks and the construction: a fatal message on the left, \<^term>\<open>Inr None\<close> is a panic.\<close>

definition choose_scenario :: "(int \<Rightarrow> nat \<Rightarrow> nat) \<Rightarrow> run_flags \<Rightarrow> string + scenario option" where
  "choose_scenario rnd f =
     (let cfg = scenario_config f in
      if sc_Addrs cfg = [] then Inl ''at least one --addrs entry is required''
      else if rf_scenario f = ''write_only'' then Inr (map_option SWrite (NewWriteOnly rnd cfg))
      else if rf_scenario f = ''read_only'' then Inr (map_option SRead (NewReadOnly cfg))
      else if rf_scenario f = ''mixed'' then
        if rf_readPercent f < 0 \<or> rf_readPercent f > 100 then Inl ''--read-percent must be in 0..100''
        else Inr (map_option SMixed (NewMixed rnd cfg (rf_readPercent f)))
      else Inl (''unknown scenario: '' @ rf_scenario f @ '' (expected write_only|read_only|mixed)''))"

section \<open>The run\<close>

text \<open>\<^verbatim>\<open>%v\<close> of a slice or an array.\<close>

definition fmt_slice :: "string list \<Rightarrow> string" where
  "fmt_slice xs = ''['' @ Join xs '' '' @ '']''"

definition banner :: "run_flags \<Rightarrow> scenario \<Rightarrow> string" where
  "banner f sc = line (''[bench] scenario='' @ sc_Name sc @ '' conc='' @ FormatInt (rf_concurrency f) @
     '' duration='' @ duration_String (rf_duration f) @ '' warmup='' @ duration_String (rf_warmup f) @
     '' rps_cap='' @ FormatInt (rf_rps f) @ '' addrs='' @ fmt_slice (parseAddrs (rf_addrs f)))"

definition printSummary :: "Result \<Rightarrow> string" where
  "printSummary r =
     line [] @
     line (''scenario   : '' @ rs_Scenario r) @
     line (''duration   : '' @ duration_String (rs_Duration r)) @
     line (''count      : '' @ FormatUint (rs_Count r)) @
     line (''rps        : '' @ fmt_fixed 1 (rs_RPS r)) @
     line (''errors     : '' @ FormatUint (rs_Errors r) @ ''  (class: '' @ fmt_slice (map FormatUint (rs_StatusClass r)) @ '')'') @
     line (''latency    : min='' @ duration_String (sn_Min (rs_Latency r)) @ '' mean='' @ duration_String (sn_Mean (rs_Latency r)) @
       '' max='' @ duration_String (sn_Max (rs_Latency r))) @
     line (''             p50='' @ duration_String (sn_P50 (rs_Latency r)) @ '' p95='' @ duration_String (sn_P95 (rs_Latency r)) @
       '' p99='' @ duration_String (sn_P99 (rs_Latency r)) @ '' p99.9='' @ duration_String (sn_P999 (rs_Latency r)))"

text \<open>What a command does to the outside: its output, the files that it wrote, and its exit code.\<close>

record bench_out =
  bo_stdout :: string
  bo_stderr :: string
  bo_files :: "(string \<times> string) list"
  bo_exit :: nat

definition bench_start :: bench_out where
  "bench_start = \<lparr>bo_stdout = [], bo_stderr = [], bo_files = [], bo_exit = 0\<rparr>"

text \<open>
  The parameters of a run: the file system (\<^verbatim>\<open>os.Create\<close> and the writes, as in \<^const>\<open>SaveJSON\<close>), the runtime
  system, the readings of the clock and the requests of the workers. \<^term>\<open>None\<close> is a panic.
\<close>

record bench_env =
  be_Create :: "string \<Rightarrow> err option"
  be_Write :: "string \<Rightarrow> string \<Rightarrow> err option \<times> string"
  be_Runtime :: runtime_info
  be_Times :: run_times
  be_samples :: "scenario \<Rightarrow> sample list"

definition load_config :: "run_flags \<Rightarrow> LoadConfig" where
  "load_config f = \<lparr>ld_Concurrency = rf_concurrency f, ld_Duration = rf_duration f, ld_WarmUp = rf_warmup f, ld_RPSCap = rf_rps f\<rparr>"

definition bench_fatal :: "string \<Rightarrow> bench_out \<Rightarrow> bench_out" where
  "bench_fatal msg o1 = o1\<lparr>bo_stderr := bo_stderr o1 @ line (''error: '' @ msg), bo_exit := 1\<rparr>"

definition print :: "string \<Rightarrow> bench_out \<Rightarrow> bench_out" where
  "print s o1 = o1\<lparr>bo_stdout := bo_stdout o1 @ s\<rparr>"

definition print_err :: "string \<Rightarrow> bench_out \<Rightarrow> bench_out" where
  "print_err s o1 = o1\<lparr>bo_stderr := bo_stderr o1 @ s\<rparr>"

definition add_file :: "string \<Rightarrow> string \<Rightarrow> bench_out \<Rightarrow> bench_out" where
  "add_file path contents o1 = o1\<lparr>bo_files := bo_files o1 @ [(path, contents)]\<rparr>"

text \<open>The report of one run; the errors of its writes are ignored.\<close>

definition write_report :: "bench_env \<Rightarrow> run_flags \<Rightarrow> Result \<Rightarrow> bench_out \<Rightarrow> bench_out" where
  "write_report E f res o1 =
     (if rf_report f = [] then o1
      else (case be_Create E (rf_report f) of
          Some e \<Rightarrow> bench_fatal (''create report: '' @ err_text e) o1
        | None \<Rightarrow>
            (let title = ''PaladinCore Benchmark '' @ [CHR 0xE2, CHR 0x80, CHR 0x94] @ '' '' @ rs_Scenario res in
             print (line (''[bench] wrote '' @ rf_report f))
               (add_file (rf_report f) (snd (be_Write E (rf_report f) (RenderMarkdown title [res]))) o1))))"

definition write_outputs :: "bench_env \<Rightarrow> run_flags \<Rightarrow> Result \<Rightarrow> bench_out \<Rightarrow> bench_out" where
  "write_outputs E f res o1 =
     (if rf_json f = [] then write_report E f res o1
      else (case SaveJSON (be_Create E) (be_Write E) res (rf_json f) of
          (Some e, text) \<Rightarrow> bench_fatal (''save json: '' @ err_text e) (case text of None \<Rightarrow> o1 | Some t \<Rightarrow> add_file (rf_json f) t o1)
        | (None, text) \<Rightarrow>
            write_report E f res (print (line (''[bench] wrote '' @ rf_json f)) (add_file (rf_json f) (the text) o1))))"

definition runCmd :: "http_client \<Rightarrow> (int \<Rightarrow> nat \<Rightarrow> nat) \<Rightarrow> bench_env \<Rightarrow> string list \<Rightarrow> bench_out option" where
  "runCmd H rnd E args =
     (case run_args args of
        Inl c \<Rightarrow> Some (bench_start\<lparr>bo_exit := c\<rparr>)
      | Inr f \<Rightarrow>
          (case choose_scenario rnd f of
             Inl msg \<Rightarrow> Some (bench_fatal msg bench_start)
           | Inr None \<Rightarrow> None
           | Inr (Some sc) \<Rightarrow>
               (let o1 = print (banner f sc) bench_start in
                (case sc_Setup H rnd sc of
                   None \<Rightarrow> None
                 | Some setup \<Rightarrow>
                     (case Run (sc_Name sc) (be_Runtime E) (be_Times E) setup (load_config f) (be_samples E sc) of
                        Inl e \<Rightarrow> Some (bench_fatal (''run: '' @ err_text e) o1)
                      | Inr res \<Rightarrow> Some (write_outputs E f res (print (printSummary res) o1)))))))"

section \<open>The report command\<close>

record report_flags =
  pf_in :: string
  pf_out :: string
  pf_title :: string

definition report_kind :: "string \<Rightarrow> flag_kind option" where
  "report_kind n = (if n \<in> {''in'', ''out'', ''title''} then Some StringFlag else None)"

definition set_report_flag :: "string \<times> string \<Rightarrow> report_flags \<Rightarrow> report_flags" where
  "set_report_flag = (\<lambda>(n, v) f. if n = ''in'' then f\<lparr>pf_in := v\<rparr> else if n = ''out'' then f\<lparr>pf_out := v\<rparr> else f\<lparr>pf_title := v\<rparr>)"

definition report_args :: "string list \<Rightarrow> nat + report_flags" where
  "report_args args = map_sum (\<lambda>c. c)
     (\<lambda>as. fold set_report_flag as \<lparr>pf_in = ''bench/results'', pf_out = ''-'', pf_title = ''PaladinCore Benchmark Sweep''\<rparr>)
     (parse_flags report_kind args)"

text \<open>The loop over the files: a file that does not load is skipped with a message.\<close>

fun load_all :: "(string \<Rightarrow> err + Result) \<Rightarrow> string list \<Rightarrow> Result list \<times> string" where
  "load_all load [] = ([], [])"
| "load_all load (f # fs) =
     (let (rs, msgs) = load_all load fs in
      (case load f of
         Inl e \<Rightarrow> (rs, line (''[bench] skipping '' @ f @ '': '' @ err_text e) @ msgs)
       | Inr r \<Rightarrow> (r # rs, msgs)))"

text \<open>\<open>glob\<close> is \<^verbatim>\<open>filepath.Glob\<close> of the pattern \<^verbatim>\<open>*.json\<close> in a directory; \<open>read\<close> and \<open>lenient\<close> are those of \<^const>\<open>LoadJSON\<close>.\<close>

definition reportCmd ::
  "bench_env \<Rightarrow> (string \<Rightarrow> err + string list) \<Rightarrow> (string \<Rightarrow> err + string) \<Rightarrow> (string \<Rightarrow> Time option) \<Rightarrow> string list \<Rightarrow> bench_out" where
  "reportCmd E glob read lenient args =
     (case report_args args of
        Inl c \<Rightarrow> bench_start\<lparr>bo_exit := c\<rparr>
      | Inr f \<Rightarrow>
          (case glob (pf_in f) of
             Inl e \<Rightarrow> bench_fatal (''glob: '' @ err_text e) bench_start
           | Inr files \<Rightarrow>
               (let (results, msgs) = load_all (LoadJSON read lenient) (sort files);
                    doc = RenderMarkdown (pf_title f) results; o1 = print_err msgs bench_start in
                if pf_out f = ''-'' then print doc o1
                else (case be_Create E (pf_out f) of
                    Some e \<Rightarrow> bench_fatal (''create: '' @ err_text e) o1
                  | None \<Rightarrow>
                      print_err (line (''[bench] wrote '' @ pf_out f @ '' ('' @ FormatInt (int (length results)) @ '' results)''))
                        (add_file (pf_out f) (snd (be_Write E (pf_out f) doc)) o1)))))"

text \<open>The text of \<^verbatim>\<open>usage\<close>, by lines.\<close>

definition usage_bench :: "string list" where
  "usage_bench =
    [''paladin-bench '' @ [CHR 0xE2, CHR 0x80, CHR 0x94] @ '' PaladinCore load testing'',
     [],
     ''Commands:'',
     ''  run       execute one scenario'',
     ''  report    aggregate a directory of JSON results into Markdown'',
     [],
     ''Run flags:'',
     ''  --scenario       write_only | read_only | mixed    (default write_only)'',
     ''  --addrs          comma-separated host:port list    (default 127.0.0.1:8080)'',
     ''  --tenant         tenant name                       (default bench)'',
     ''  --namespace      namespace name                    (default prod)'',
     ''  --num-keys       key pool size                     (default 1000)'',
     ''  --value-size     PUT body size in bytes            (default 64)'',
     ''  --read-percent   (mixed) percent reads             (default 95)'',
     ''  --concurrency    worker goroutines                 (default 32)'',
     ''  --duration       measurement window                (default 30s)'',
     ''  --warmup         discarded warm-up time            (default 3s)'',
     ''  --rps            cap aggregate RPS (0=unlimited)   (default 0)'',
     ''  --timeout        per-request timeout               (default 10s)'',
     ''  --json PATH      write result JSON'',
     ''  --report PATH    write Markdown report'',
     [],
     ''Report flags:'',
     ''  --in DIR         directory of *.json result files  (default bench/results)'',
     ''  --out PATH       output path (- for stdout)        (default -)'',
     ''  --title STR      report title'',
     [],
     ''Examples:'',
     ''  paladin-bench run --scenario=write_only --concurrency=64 --duration=30s'',
     ''  paladin-bench run --scenario=read_only  --addrs=127.0.0.1:8080,127.0.0.1:8081,127.0.0.1:8082'',
     ''  paladin-bench run --scenario=mixed --read-percent=95 --duration=60s --report=out.md'',
     ''  paladin-bench report --in=bench/results --out=bench/results/summary.md'']"

text \<open>The whole program: the dispatch, and the exit code 1 of a wrong use.\<close>

definition bench_main ::
  "http_client \<Rightarrow> (int \<Rightarrow> nat \<Rightarrow> nat) \<Rightarrow> bench_env \<Rightarrow> (string \<Rightarrow> err + string list) \<Rightarrow> (string \<Rightarrow> err + string) \<Rightarrow> (string \<Rightarrow> Time option)
     \<Rightarrow> string list \<Rightarrow> bench_out option" where
  "bench_main H rnd E glob read lenient args = (case main_bench args of
      BRun rest \<Rightarrow> runCmd H rnd E rest
    | BReport rest \<Rightarrow> Some (reportCmd E glob read lenient rest)
    | BHelp \<Rightarrow> Some (print_err (concat (map line usage_bench)) bench_start)
    | BUsage \<Rightarrow> Some ((print_err (concat (map line usage_bench)) bench_start)\<lparr>bo_exit := 1\<rparr>))"

section \<open>Properties\<close>

text \<open>Addresses without commas and white space at their ends survive the list.\<close>

lemma parseAddrs_Join:
  assumes "\<forall>a \<in> set addrs. CHR '','' \<notin> set a \<and> TrimSpace a = a \<and> a \<noteq> []" and "addrs \<noteq> []"
  shows "parseAddrs (Join addrs '','') = addrs"
proof -
  have "add_addrs as = as" if "\<forall>a \<in> set as. TrimSpace a = a \<and> a \<noteq> []" for as
    using that by (induction as) (simp_all add: Let_def)
  then show ?thesis using Split_Join [OF assms(2)] assms(1) by (simp add: parseAddrs_def)
qed

text \<open>Flags that pass the checks and are not negative start a run: no panic in the construction or the setup.\<close>

lemma makeKeyPool_Some: "0 \<le> n \<Longrightarrow> makeKeyPool t ns n \<noteq> None" "0 \<le> n \<Longrightarrow> makeValue rnd n seed \<noteq> None"
  by (simp_all add: makeKeyPool_def makeValue_def)

lemma scenario_defaults_sel [simp]:
  "sc_Addrs (scenario_defaults k cfg) = sc_Addrs cfg" "0 \<le> k \<Longrightarrow> 0 \<le> sc_NumKeys cfg \<Longrightarrow> 0 \<le> sc_NumKeys (scenario_defaults k cfg)"
  "0 \<le> sc_ValueSize cfg \<Longrightarrow> 0 \<le> sc_ValueSize (scenario_defaults k cfg)"
  by (simp_all add: scenario_defaults_def Let_def)

lemma scenarios_built:
  assumes "0 \<le> sc_NumKeys cfg" "0 \<le> sc_ValueSize cfg" "sc_Addrs cfg \<noteq> []"
  obtains w r where "NewWriteOnly rnd cfg = Some w" "NewReadOnly cfg = Some r" "ro_Setup H rnd r \<noteq> None"
proof -
  let ?w = "scenario_defaults 10000 cfg" and ?r = "scenario_defaults 1000 cfg"
  obtain a as where a: "sc_Addrs cfg = a # as" using assms(3) by (cases "sc_Addrs cfg") auto
  obtain ks v where "makeKeyPool (sc_Tenant ?w) (sc_Namespace ?w) (sc_NumKeys ?w) = Some ks" "makeValue rnd (sc_ValueSize ?w) 1 = Some v"
    using makeKeyPool_Some assms by fastforce
  then obtain w where "NewWriteOnly rnd cfg = Some w" by (simp add: NewWriteOnly_def a Let_def)
  moreover obtain ks' v' where "makeKeyPool (sc_Tenant ?r) (sc_Namespace ?r) (sc_NumKeys ?r) = Some ks'" "makeValue rnd (sc_ValueSize ?r) 2 = Some v'"
    using makeKeyPool_Some assms by fastforce
  then have "NewReadOnly cfg = Some \<lparr>ro_cfg = ?r, ro_client = newHTTPClient (sc_Timeout ?r), ro_keys = ks', ro_readURLs = map config_url (sc_Addrs ?r), ro_counter = 0, ro_rrIdx = 0\<rparr>"
    "makeValue rnd (sc_ValueSize ?r) 2 = Some v'" by (simp_all add: NewReadOnly_def Let_def)
  ultimately show ?thesis using that by (simp add: ro_Setup_def a)
qed

lemma runCmd_no_panic:
  assumes "run_args args = Inr f" and "0 \<le> rf_numKeys f" and "0 \<le> rf_valueSize f"
  shows "runCmd H rnd E args \<noteq> None"
proof (cases "parseAddrs (rf_addrs f) = []")
  case True
  then show ?thesis by (simp add: runCmd_def assms(1) choose_scenario_def scenario_config_def)
next
  case False
  let ?cfg = "scenario_config f"
  obtain w r where b: "NewWriteOnly rnd ?cfg = Some w" "NewReadOnly ?cfg = Some r" "ro_Setup H rnd r \<noteq> None"
    by (rule scenarios_built [of ?cfg rnd H]) (use assms(2,3) False in \<open>simp_all add: scenario_config_def\<close>)
  have "case choose_scenario rnd f of Inl m \<Rightarrow> True | Inr None \<Rightarrow> False | Inr (Some sc) \<Rightarrow> sc_Setup H rnd sc \<noteq> None"
    using b by (simp add: choose_scenario_def Let_def sc_Setup_def mx_Setup_def NewMixed_def)
  then show ?thesis
    by (auto simp: runCmd_def assms(1) Let_def split: sum.splits option.splits)
qed

text \<open>The report does not depend on the order in which the directory lists its files.\<close>

lemma reportCmd_order:
  assumes "\<And>d. rel_sum (=) (\<lambda>fs fs'. mset fs = mset fs') (glob d) (glob' d)"
  shows "reportCmd E glob read lenient args = reportCmd E glob' read lenient args"
proof (cases "report_args args")
  case (Inr f)
  have sort: "sort fs = sort fs'" if "mset fs = mset fs'" for fs fs' :: "string list" by (rule properties_for_sort) (simp_all add: that)
  have "rel_sum (=) (\<lambda>fs fs'. sort fs = sort fs') (glob (pf_in f)) (glob' (pf_in f))"
    by (rule sum.rel_mono_strong [OF assms]) (simp, rule sort)
  then show ?thesis by (cases "glob (pf_in f)"; cases "glob' (pf_in f)") (simp_all add: reportCmd_def Inr)
qed (simp add: reportCmd_def)

lemma digit_chars: "map digit_char [0, 1, 3, 5] = ''0135''"
  by code_simp

lemma durations_text:
  "duration_String 0 = ''0s''" "duration_String (30 * second) = ''30s''" "duration_String 1500000 = ''1.5ms''"
  "duration_String (3600 * second) = ''1h0m0s''" "duration_String (- 90500000000) = ''-1m30.5s''"
  using digit_chars
  by (simp_all add: duration_String_def nat_duration_def frac_text_def frac_digits_def pad_left_def second_def dec_of_nat.simps Let_def)

text \<open>The report command on files that were saved: the report of the results themselves.\<close>

lemma load_all_Inr: "\<forall>p \<in> set ps. load p = Inr (R p) \<Longrightarrow> load_all load ps = (map R ps, [])"
  by (induction ps) simp_all

lemma report_of_saved:
  assumes "report_args args = Inr f" "pf_out f = ''-''" "glob (pf_in f) = Inr files"
    and "\<And>p out. write p out = (None, out)"
    and "\<forall>p \<in> set files. result_ok (R p) \<and> create p = None \<and> (\<forall>text. SaveJSON create write (R p) p = (None, Some text) \<longrightarrow> read p = Inr text)"
  shows "reportCmd E glob read lenient args = print (RenderMarkdown (pf_title f) (map R (sort files))) bench_start"
proof -
  have "LoadJSON read lenient p = Inr (R p)" if "p \<in> set files" for p
  proof -
    have "result_ok (R p)" "create p = None" using assms(5) that by simp_all
    then obtain out where t: "SaveJSON create write (R p) p = (None, Some out)" "LoadJSON (\<lambda>_. Inr out) lenient p = Inr (R p)"
      using save_load assms(4) by metis
    then have "read p = Inr out" using assms(5) that by blast
    with t(2) show ?thesis by (simp add: LoadJSON_def)
  qed
  then have "load_all (LoadJSON read lenient) (sort files) = (map R (sort files), [])" by (intro load_all_Inr) simp
  then show ?thesis using assms(1-3) by (simp add: reportCmd_def Let_def print_err_def print_def bench_start_def)
qed

text \<open>The flags of a run as arguments.\<close>

definition run_assignments :: "run_flags \<Rightarrow> (string \<times> string) list" where
  "run_assignments f = [(''scenario'', rf_scenario f), (''addrs'', rf_addrs f), (''tenant'', rf_tenant f), (''namespace'', rf_namespace f),
     (''num-keys'', FormatInt (rf_numKeys f)), (''value-size'', FormatInt (rf_valueSize f)), (''read-percent'', FormatInt (rf_readPercent f)),
     (''concurrency'', FormatInt (rf_concurrency f)), (''duration'', duration_String (rf_duration f)), (''warmup'', duration_String (rf_warmup f)),
     (''rps'', FormatInt (rf_rps f)), (''timeout'', duration_String (rf_timeout f)), (''json'', rf_json f), (''report'', rf_report f)]"

definition run_flags_ok :: "run_flags \<Rightarrow> bool" where
  "run_flags_ok f \<longleftrightarrow> list_all fits64 [rf_numKeys f, rf_valueSize f, rf_readPercent f, rf_concurrency f, rf_duration f, rf_warmup f, rf_rps f, rf_timeout f]"

text \<open>C28: every configuration can be given on the command line. For any values of the flags whose
  numbers fit 64 bits, the arguments that spell them out (with strings of any bytes, numbers in
  decimal, durations in the notation of the program's own output) are parsed to exactly these
  values, and \<^verbatim>\<open>runCmd\<close> goes on with them.\<close>

theorem run_flags_roundtrip:
  assumes "run_flags_ok f"
  shows "run_args (map flag_arg (run_assignments f)) = Inr f"
proof -
  have i: "ParseInt0 (FormatInt i) = Some i" "ParseDuration (duration_String i) = Some i" if "fits64 i" for i
    using that ParseInt0_FormatInt duration_roundtrip by (simp_all add: fits64_def)
  have "\<forall>(n, v) \<in> set (run_assignments f). flag_name_ok n \<and> (\<exists>k. run_kind n = Some k \<and> accepts k v)"
    using assms i by (simp add: run_assignments_def run_flags_ok_def flag_name_ok_def run_kind_def accepts_def)
  from parse_flags_args [OF this] show ?thesis
    using assms i by (simp add: run_args_def run_assignments_def run_flags_ok_def set_run_flag_def)
qed

theorem run_flags_roundtrip_witness:
  "run_args (map flag_arg (run_assignments (run_defaults\<lparr>rf_json := ''out.json'', rf_warmup := - 1500000\<rparr>))) =
    Inr (run_defaults\<lparr>rf_json := ''out.json'', rf_warmup := - 1500000\<rparr>)"
  by (rule run_flags_roundtrip) (simp add: run_flags_ok_def run_defaults_def fits64_def second_def)

text \<open>The usage text gives the right default for every flag that has one.\<close>

lemma default_texts:
  "take 12 (run_assignments run_defaults) = [(''scenario'', ''write_only''), (''addrs'', ''127.0.0.1:8080''), (''tenant'', ''bench''), (''namespace'', ''prod''),
     (''num-keys'', ''1000''), (''value-size'', ''64''), (''read-percent'', ''95''), (''concurrency'', ''32''), (''duration'', ''30s''), (''warmup'', ''3s''),
     (''rps'', ''0''), (''timeout'', ''10s'')]"
proof -
  have d: "map digit_char [0, 1, 2, 3, 4, 5, 6, 9] = ''01234569''" by code_simp
  show ?thesis using d
    by (simp add: run_assignments_def run_defaults_def FormatInt_def duration_String_def nat_duration_def frac_text_def frac_digits_def pad_left_def
        second_def dec_of_nat.simps Let_def)
qed

lemma usage_defaults:
  "\<forall>(n, v) \<in> set (take 12 (run_assignments run_defaults)).
     \<exists>l \<in> set usage_bench. HasPrefix l (''  --'' @ n @ '' '') \<and> HasPrefix (rev l) (rev (''(default '' @ v @ '')''))"
  unfolding default_texts by code_simp

end
