(* ===== verification/Spec2Isabelle.thy ===== *)
theory Spec2Isabelle
  imports Sdk_Loop Metrics_Catalogue Cluster Bench_Workers Bench_Main
begin

text \<open>
  PaladinCore: a distributed configuration centre in Go, modelled and verified.

  \<^bold>\<open>The program.\<close> A server keeps versioned configuration entries in a bbolt file and serves them
  over HTTP; a cluster replicates the writes through a raft library; clients copy a namespace and
  follow its changes by long polling; a load generator measures the whole. A write runs through
  the layers: an HTTP request reaches a handler by the route table, the handler of a cluster node
  proposes an operation to the log or forwards the request to the leader, the log applies the
  operation to the state machine of every node, the state machine writes to the store, the store
  writes the entry and the next revision in one transaction, and the watch cache records an event
  that wakes the waiting polls.

  \<^bold>\<open>The theories\<close>, in the order of the layers; the source files are under \<^verbatim>\<open>src/\<close>.

  \<^item> \<open>Paladin_Prelude\<close>, \<open>Go_Strings\<close>, \<open>Go_Text\<close>, \<open>Go_Fields\<close>, \<open>Go_Json\<close>, \<open>Go_Float\<close>: what the program uses of
    Go and its library. Errors are values with their wrapping; 64-bit integers are words; strings
    are lists of bytes with UTF-8 decoding written out; \<^verbatim>\<open>encoding/json\<close> is a printer and a parser of
    texts, with a round trip for every value; \<open>Go_Float\<close> rounds to float64 and prints decimals.
  \<^item> \<open>Go_Number\<close>, \<open>Go_Duration\<close>, \<open>Go_Time\<close>, \<open>Go_Flags\<close>, \<open>Go_Sha256\<close>: the shortest decimal text of a float64, the
    text of a duration and of a time (calendar included), each with the parser that reads it back;
    the syntax of command line flags; SHA-256.
  \<^item> \<open>Store_Types\<close> (\<^verbatim>\<open>store/store.go\<close>), \<open>Kv_Spec\<close>: entries, and the abstract versioned map with the
    locale \<open>kv_store\<close>, the contract of the interface \<^verbatim>\<open>Store\<close>.
  \<^item> \<open>Bolt_Store\<close>, \<open>Mem_Bolt\<close> (\<^verbatim>\<open>store/bolt.go\<close>): every method of \<^verbatim>\<open>BoltStore\<close> over bbolt, the locale
    \<open>bolt_api\<close> with its documented laws, and an executable database that satisfies them. The
    sublocale of \<open>kv_store\<close> is the refinement: put, delete, get, list and reopening.
  \<^item> \<open>Watch_Cache\<close>, \<open>Watch_Wait\<close> (\<^verbatim>\<open>store/watch.go\<close>): the ring buffer as the tail of the event log, and
    \<^verbatim>\<open>WaitForEvents\<close> as a step relation with its timer and condition variable.
  \<^item> \<open>Watchable_Store\<close> (\<^verbatim>\<open>store/watchable.go\<close>): the composition, a write as a commit and an append, with the replay
    theorem for watchers of sequential writes and the event that concurrent writers can hide.
  \<^item> \<open>Raft_Fsm\<close>, \<open>Raft_Node\<close> (\<^verbatim>\<open>raft/node.go\<close>): log entries, \<^verbatim>\<open>FSM.Apply\<close>, snapshots and restore, and the
    methods of the node. Replicas agree; a proposal is one step of the abstract machine.
  \<^item> \<open>Http_Server\<close>, \<open>Watch_Endpoint\<close>, \<open>Raft_Server\<close>, \<open>Server_Routes\<close> (\<^verbatim>\<open>server/\<close>): the handlers with the
    bytes of their answers, forwarding and administration, and the route tables with the
    matching of \<^verbatim>\<open>http.ServeMux\<close>; the locale \<open>config_routes\<close> holds for both servers.
  \<^item> \<open>Cluster\<close>: several nodes at once. A revision identifies the state of a replica; a write sent to a
    follower is carried out by the leader and read back on every node that has applied the log; a node
    that joined is found by every node that has applied its registration.
  \<^item> \<open>Metrics\<close>, \<open>Metrics_Catalogue\<close> (\<^verbatim>\<open>internal/metrics\<close>, \<^verbatim>\<open>sdk/metrics.go\<close>): the middleware, the declared
    series and the increments.
  \<^item> \<open>Sdk_Client\<close>, \<open>Sdk_Loop\<close> (\<^verbatim>\<open>sdk/client.go\<close>): full pull, one turn of the watch loop, callbacks, the
    cache file; the loop as a step relation with backoff and cancellation, and the theorem that
    the copy follows the store, up to the keys that the protocol can miss, which a set records.
  \<^item> \<open>Logger\<close> (\<^verbatim>\<open>internal/logger\<close>): resolution of level and format, initialisation once.
  \<^item> \<open>Bench_Stats\<close>, \<open>Bench_Scenarios\<close>, \<open>Bench_Load\<close>, \<open>Bench_Workers\<close>, \<open>Bench_Report\<close>, \<open>Bench_Json\<close> (\<^verbatim>\<open>bench/\<close>): histogram and
    counters, the workloads, the result of a run from the list of its requests, the goroutines of
    a run as a step relation that refines it, the report, and the result files.
  \<^item> \<open>Command_Line\<close>, \<open>Bench_Main\<close> (\<^verbatim>\<open>cmd/\<close>): the local commands as transactions on the database file, the
    start of both kinds of server, joining a cluster, and the benchmark commands with their flags.

  \<^bold>\<open>Parameters.\<close> Code outside the repository is an argument: bbolt (record \<open>bolt\<close>, laws in \<open>bolt_api\<close>, and in
  \<open>reliable_bolt\<close> a disk whose refusals depend on key and value only), the consensus library (record \<open>raft\<close>),
  the HTTP transport, promhttp, the file system, the runtime system, the random numbers and the clock. Their laws are
  hypotheses of the theorems and every one has an instance: \<open>mem_bolt\<close>, \<open>mem_sure\<close>, a one-node cluster and
  a follower.

  \<^bold>\<open>Bounds.\<close> Revisions are 64-bit words; theorems on writes assume that the counter does not wrap
  (\<open>max_rev\<close>, or the length of a log). The parser of JSON recurses over fuel, the length of its input, which
  is enough for every text that it is proved to read back. Loops are total functions, or relations with a
  bound on their steps: \<^verbatim>\<open>WaitForLeader\<close> by its deadline, \<^verbatim>\<open>watchLoop\<close> after \<^verbatim>\<open>Close\<close> by three steps, a benchmark run
  after its cancellation by five steps for each worker and three more. Durations and times are integers;
  the round trips of the flags and the result files ask that they fit 64 bits. \<^verbatim>\<open>WaitForEvents\<close>
  returns once its timer is armed, and a theorem shows the wake-up that can be lost.

  \<^bold>\<open>Deviations of the code\<close> are theorems, too: a failed commit that leaves the cached revision ahead, a lost
  wake-up, a restore that overlays, a log that is replayed on a persisted store, a watch answer that skips an
  event, a listing whose revision is newer than its entries, events appended out of order, an error answer that the client takes for an empty one, a timeout that overflows, and peer addresses
  that a client can write.

  \<^bold>\<open>Concurrency.\<close> Step relations interleave the goroutines of \<^verbatim>\<open>WaitForEvents\<close>, of the watch loop and of a
  benchmark run. A method of \<^verbatim>\<open>BoltStore\<close>, \<^verbatim>\<open>WatchCache\<close>, the logger and the client copy is one critical section of
  its mutex and so one step. Some methods are several: \<^verbatim>\<open>WatchableStore.Put\<close> and \<^verbatim>\<open>Delete\<close> append their event after
  the store's mutex is released (\<open>ws_Put_commit\<close>, \<open>ws_append\<close>), and the handlers for GET, DELETE and lists read the
  revision in a second call (\<open>handleGet_reads\<close>, \<open>handleDelete_reads\<close>, \<open>handleList_reads\<close>, with the store at each call), as the
  watch handler does (\<open>watch_reply\<close>). Two theorems are about these interleavings: the full pull of a client
  with writes between the two readings, and the client's copy with writes at any moment, where one write
  runs at a time. The other theorems on the store and the HTTP handlers are about calls and requests
  served one after the other; \<open>handlePut\<close>, \<open>ws_Put\<close>, \<open>handleConfig\<close> and their like are those sequential
  instances. The state machine of a cluster node does apply its entries one after the other; the
  revision in the answer to a DELETE on a cluster node is taken right after its entry.

  \<^bold>\<open>Not modelled.\<close> The inside of the libraries (bbolt, raft, prometheus, slog, the HTTP transport and what
  its settings do); other interleavings than those just named; log lines; the messages of the flag package; the lenient fallback of the
  parser of times, which is a parameter of \<^verbatim>\<open>LoadJSON\<close>; the delivery of a signal, which is a step of the
  outside; the limit on the nesting of JSON texts; the durations that the histograms of the metrics
  observe; accessors of one line (\<^verbatim>\<open>Node.Store\<close>, \<^verbatim>\<open>WatchableStore.WatchCache\<close>) and the empty \<^verbatim>\<open>Release\<close>.
\<close>

end
